(* ===== verification/Guus_Prelude.thy ===== *)
theory Guus_Prelude
  imports Main "HOL-Library.Word" "HOL-Library.Multiset"
begin

unbundle bit_operations_syntax

text \<open>
  Shared vocabulary of the development: the machine types of the C++ sources, the network
  parameters of \<^verbatim>\<open>src/src/cryptonote_config.h\<close> the components use, and the generic
  lemmas on words, lists and multisets that the component theories rely on.

  \<^item> \<^verbatim>\<open>uint8_t\<close> to \<^verbatim>\<open>uint64_t\<close> are words of that width, so that every addition,
    subtraction and multiplication wraps as the code's does.
  \<^item> A 32-byte POD (\<^verbatim>\<open>crypto::public_key\<close>, \<^verbatim>\<open>crypto::hash\<close>, \<^verbatim>\<open>crypto::key_image\<close>) is a
    256-bit word that reads the bytes most significant first; \<^verbatim>\<open>memcmp\<close> on the bytes is
    then the order of the words.
\<close>

section \<open>Types\<close>

type_synonym u8 = "8 word"
type_synonym u16 = "16 word"
type_synonym u32 = "32 word"
type_synonym u64 = "64 word"
type_synonym pod32 = "256 word"
type_synonym byte = "8 word"

datatype network_type = MAINNET | TESTNET | STAGENET | FAKECHAIN | UNDEFINED

section \<open>Named collections\<close>

named_theorems word_nat "rules that read a word expression as a natural number"
named_theorems loop_simps "unfolding equations of the loops, used one step at a time"

section \<open>Words read as naturals\<close>

abbreviation U64_MAX :: u64 where "U64_MAX \<equiv> - 1"

lemma unat_U64_MAX [word_nat]: "unat U64_MAX = 18446744073709551615"
  by (simp add: unsigned_minus_1_eq_mask mask_eq_exp_minus_1)

lemma unat_lt_u64: "unat (x :: u64) < 18446744073709551616"
  using unsigned_less [of x, where ?'a = nat] by simp

lemma unat_le_u64: "unat (x :: u64) \<le> 18446744073709551615"
  using unat_lt_u64 [of x] by linarith

lemma unat_add_u64: "unat (a + b :: u64) = (unat a + unat b) mod 18446744073709551616"
  by (simp add: unat_word_ariths)

lemma unat_mul_u64: "unat (a * b :: u64) = (unat a * unat b) mod 18446744073709551616"
  by (simp add: unat_word_ariths)

lemma unat_add_u64_no_wrap:
  "unat a + unat b < 18446744073709551616 \<Longrightarrow> unat (a + b :: u64) = unat a + unat b"
  by (simp add: unat_add_u64)

lemma unat_sub_u64_no_wrap: "b \<le> a \<Longrightarrow> unat (a - b :: u64) = unat a - unat b"
  by (rule unat_sub)

lemma unat_drop_bit_div [word_nat]: "unat (drop_bit n (w :: 'a :: len word)) = unat w div 2 ^ n"
  by (rule trans [OF unat_drop_bit_eq drop_bit_eq_div])

lemma unat_push_bit_u64: "unat (push_bit n (w :: u64)) = (unat w * 2 ^ n) mod 18446744073709551616"
  by (simp only: unsigned_push_bit_eq push_bit_eq_mult [of n "unat w"]
      take_bit_eq_mod [of _ "unat w * 2 ^ n"]) simp

lemma unat_and_mask_mod: "unat (w AND mask n :: 'a :: len word) = unat w mod 2 ^ n"
  by (simp only: take_bit_eq_mask [symmetric] unsigned_take_bit_eq take_bit_eq_mod [of n "unat w"])

section \<open>Lists\<close>

lemma list_update_same_mset:
  assumes "i < length xs"
  shows "mset (xs[i := y]) = mset xs - {#xs ! i#} + {#y#}"
  using assms by (simp add: mset_update)

lemma filter_remove_length:
  "x \<in> set xs \<Longrightarrow> length (filter (\<lambda>y. y \<noteq> x) xs) < length xs"
  by (metis (mono_tags) length_filter_less)

lemma sum_list_update_nat:
  assumes "i < length (xs :: nat list)"
  shows "sum_list (xs[i := y]) + xs ! i = sum_list xs + y"
  using assms by (induction xs arbitrary: i) (auto split: nat.splits)

end
