(* ===== verification/Int_Util.thy ===== *)
theory Int_Util
  imports Guus_Prelude
begin

text \<open>
  The 128-bit arithmetic of \<^verbatim>\<open>src/contrib/epee/include/int-util.h\<close>: a product of two
  64-bit numbers as a high and a low word, and the bit-by-bit long division of such a pair by
  a 64-bit divisor. The staking rules, the reward split and the proof-of-work check are built
  on them. The theorems say that the word routines compute the exact product and the exact
  quotient and remainder of natural numbers.
\<close>

section \<open>Definitions\<close>

definition hi_dword :: "u64 \<Rightarrow> u64" where
  "hi_dword val = drop_bit 32 val"

definition lo_dword :: "u64 \<Rightarrow> u64" where
  "lo_dword val = val AND 0xFFFFFFFF"

text \<open>The pair is the high word stored through \<^verbatim>\<open>product_hi\<close> and the returned low word.\<close>

definition mul128 :: "u64 \<Rightarrow> u64 \<Rightarrow> u64 \<times> u64" where
  "mul128 multiplier multiplicand =
     (let a = hi_dword multiplier; b = lo_dword multiplier;
          c = hi_dword multiplicand; d = lo_dword multiplicand;
          ac = a * c; ad = a * d; bc = b * c; bd = b * d;
          adbc = ad + bc;
          adbc_carry = (if adbc < ad then 1 else 0);
          product_lo = bd + push_bit 32 adbc;
          product_lo_carry = (if product_lo < bd then 1 else 0);
          product_hi = ac + drop_bit 32 adbc + push_bit 32 adbc_carry + product_lo_carry
      in (product_hi, product_lo))"

text \<open>\<^verbatim>\<open>shl128\<close> returns the bit shifted out and the two shifted words.\<close>

definition shl128 :: "u64 \<Rightarrow> u64 \<Rightarrow> bool \<times> u64 \<times> u64" where
  "shl128 hi lo =
     (let carry = (drop_bit 63 hi \<noteq> 0);
          hi' = push_bit 1 hi + drop_bit 63 lo;
          lo' = push_bit 1 lo
      in (carry, hi', lo'))"

definition div128_64_step :: "u64 \<Rightarrow> u64 \<times> u64 \<times> u64 \<Rightarrow> u64 \<times> u64 \<times> u64" where
  "div128_64_step divisor s =
     (case s of (dividend_hi, dividend_lo, remainder) \<Rightarrow>
       let carry = (drop_bit 63 remainder \<noteq> 0);
           remainder = push_bit 1 remainder
       in case shl128 dividend_hi dividend_lo of (out, dividend_hi, dividend_lo) \<Rightarrow>
         let remainder = (if out then remainder OR 1 else remainder)
         in if carry \<or> remainder \<ge> divisor
            then (dividend_hi, dividend_lo OR 1, remainder - divisor)
            else (dividend_hi, dividend_lo, remainder))"

fun div128_64_loop :: "nat \<Rightarrow> u64 \<Rightarrow> u64 \<times> u64 \<times> u64 \<Rightarrow> u64 \<times> u64 \<times> u64" where
  "div128_64_loop 0 divisor s = s"
| "div128_64_loop (Suc n) divisor s = div128_64_loop n divisor (div128_64_step divisor s)"

text \<open>The quotient's high and low word and the returned remainder.\<close>

definition div128_64 :: "u64 \<Rightarrow> u64 \<Rightarrow> u64 \<Rightarrow> u64 \<times> u64 \<times> u64" where
  "div128_64 dividend_hi dividend_lo divisor = div128_64_loop 128 divisor (dividend_hi, dividend_lo, 0)"

text \<open>The number a pair of words stands for.\<close>

definition u128 :: "u64 \<Rightarrow> u64 \<Rightarrow> nat" where
  "u128 hi lo = unat hi * 2 ^ 64 + unat lo"

text \<open>The division by a 32-bit divisor works in base \<^term>\<open>2 ^ 32 :: nat\<close>; the remainder is threaded.\<close>

definition div_with_reminder :: "u64 \<Rightarrow> u32 \<Rightarrow> u32 \<Rightarrow> u64 \<times> u32" where
  "div_with_reminder dividend divisor remainder =
     (let dividend' = dividend OR push_bit 32 (ucast remainder :: u64)
      in (dividend' div ucast divisor, ucast (dividend' mod ucast divisor)))"

definition div128_32 :: "u64 \<Rightarrow> u64 \<Rightarrow> u32 \<Rightarrow> u64 \<times> u64 \<times> u32" where
  "div128_32 dividend_hi dividend_lo divisor =
     (let (q3, r3) = div_with_reminder (hi_dword dividend_hi) divisor 0;
          (q2, r2) = div_with_reminder (lo_dword dividend_hi) divisor r3;
          (q1, r1) = div_with_reminder (hi_dword dividend_lo) divisor r2;
          (q0, r0) = div_with_reminder (lo_dword dividend_lo) divisor r1
      in (push_bit 32 q3 OR q2, push_bit 32 q1 OR q0, r0))"

section \<open>Multiplication\<close>

lemma unat_hi_dword: "unat (hi_dword x) = unat x div 2 ^ 32"
  by (simp add: hi_dword_def unat_drop_bit_div)

lemma unat_lo_dword: "unat (lo_dword x) = unat x mod 2 ^ 32"
proof -
  have "lo_dword x = x AND mask 32"
    by (simp add: lo_dword_def mask_eq_exp_minus_1)
  then show ?thesis by (simp only: unat_and_mask_mod)
qed

lemma dword_bounds:
  "unat (hi_dword x) < 2 ^ 32" "unat (lo_dword x) < 2 ^ 32"
  using unat_lt_u64 [of x] by (auto simp: unat_hi_dword unat_lo_dword)

lemma dword_split: "unat x = unat (hi_dword x) * 2 ^ 32 + unat (lo_dword x)"
  by (simp add: unat_hi_dword unat_lo_dword)

lemma unat_mul_dwords:
  assumes "unat (a :: u64) < 2 ^ 32" and "unat (b :: u64) < 2 ^ 32"
  shows "unat (a * b) = unat a * unat b"
proof -
  have "unat a * unat b \<le> (2 ^ 32 - 1) * (2 ^ 32 - 1)"
    using assms by (intro mult_le_mono) auto
  then show ?thesis by (simp add: unat_mul_u64)
qed

lemma add_carry_u64:
  "unat (a + b :: u64) + 2 ^ 64 * (if a + b < a then 1 else 0) = unat a + unat b"
  using unat_lt_u64 [of a] unat_lt_u64 [of b]
  by (auto simp: word_less_nat_alt unat_plus_if')

lemma mul128_schoolbook:
  fixes A B C D s k l k2 :: nat
  assumes mid: "s + 2 ^ 64 * k = A * D + B * C"
    and low: "l + 2 ^ 64 * k2 = B * D + (s mod 2 ^ 32) * 2 ^ 32"
  shows "(A * C + s div 2 ^ 32 + k * 2 ^ 32 + k2) * 2 ^ 64 + l = (A * 2 ^ 32 + B) * (C * 2 ^ 32 + D)"
proof -
  have s: "s div 2 ^ 32 * 2 ^ 32 + s mod 2 ^ 32 = s" by simp
  have "(A * C + s div 2 ^ 32 + k * 2 ^ 32 + k2) * 2 ^ 64 + l
      = A * C * 2 ^ 64 + (s div 2 ^ 32 * 2 ^ 32) * 2 ^ 32 + (2 ^ 64 * k) * 2 ^ 32 + (l + 2 ^ 64 * k2)"
    by (simp add: algebra_simps)
  also have "\<dots> = A * C * 2 ^ 64 + (s div 2 ^ 32 * 2 ^ 32 + s mod 2 ^ 32 + 2 ^ 64 * k) * 2 ^ 32 + B * D"
    by (simp only: low distrib_right add.assoc add.commute add.left_commute)
  also have "\<dots> = A * C * 2 ^ 64 + (A * D + B * C) * 2 ^ 32 + B * D"
    by (simp only: s mid)
  also have "\<dots> = (A * 2 ^ 32 + B) * (C * 2 ^ 32 + D)"
    by (simp add: algebra_simps)
  finally show ?thesis .
qed

lemma mul128_exact:
  assumes "mul128 x y = (hi, lo)"
  shows "u128 hi lo = unat x * unat y"
proof -
  define a b c d where abcd: "a = hi_dword x" "b = lo_dword x" "c = hi_dword y" "d = lo_dword y"
  define s where "s = a * d + b * c"
  define k :: u64 where "k = (if s < a * d then 1 else 0)"
  define l where "l = b * d + push_bit 32 s"
  define k2 :: u64 where "k2 = (if l < b * d then 1 else 0)"
  have hl: "hi = a * c + drop_bit 32 s + push_bit 32 k + k2" "lo = l"
    using assms by (auto simp only: mul128_def Let_def prod.inject abcd s_def k_def l_def k2_def)
  have bnd: "unat a < 2 ^ 32" "unat b < 2 ^ 32" "unat c < 2 ^ 32" "unat d < 2 ^ 32"
    by (simp_all only: abcd dword_bounds)
  note prods = unat_mul_dwords [OF bnd(1) bnd(3)] unat_mul_dwords [OF bnd(1) bnd(4)]
    unat_mul_dwords [OF bnd(2) bnd(3)] unat_mul_dwords [OF bnd(2) bnd(4)]
  have k: "unat k = (if s < a * d then 1 else 0)" and k2: "unat k2 = (if l < b * d then 1 else 0)"
    by (simp_all add: k_def k2_def)
  have mid: "unat s + 2 ^ 64 * unat k = unat a * unat d + unat b * unat c"
    using add_carry_u64 [of "a * d" "b * c"] by (simp only: k s_def prods)
  have shl: "unat (push_bit 32 s) = (unat s mod 2 ^ 32) * 2 ^ 32"
    by (simp add: unat_push_bit_u64 mult_mod_left)
  have low: "unat l + 2 ^ 64 * unat k2 = unat b * unat d + (unat s mod 2 ^ 32) * 2 ^ 32"
    using add_carry_u64 [of "b * d" "push_bit 32 s"] by (simp only: k2 l_def prods shl)
  have shk: "unat (push_bit 32 k) = unat k * 2 ^ 32"
    by (simp add: unat_push_bit_u64 k)
  define H where "H = unat a * unat c + unat s div 2 ^ 32 + unat k * 2 ^ 32 + unat k2"
  have total: "H * 2 ^ 64 + unat l = unat x * unat y"
    using mul128_schoolbook [OF mid low] by (simp only: H_def dword_split [of x] dword_split [of y] abcd)
  have "unat x * unat y \<le> (2 ^ 64 - 1) * (2 ^ 64 - 1)"
    using unat_le_u64 [of x] unat_le_u64 [of y] by (intro mult_le_mono) simp_all
  then have "H < 2 ^ 64" using total by simp
  moreover have "unat hi = H mod 2 ^ 64"
    by (simp add: hl unat_add_u64 H_def prods shk unat_drop_bit_div mod_simps)
  ultimately show ?thesis using total by (simp add: u128_def hl)
qed

section \<open>Division\<close>

text \<open>
  The loop body over naturals: the top bit of the 128-bit dividend moves into the remainder,
  the quotient bit enters at the bottom.
\<close>

definition long_div_step :: "nat \<Rightarrow> nat \<times> nat \<Rightarrow> nat \<times> nat" where
  "long_div_step d s =
     (case s of (V, r) \<Rightarrow>
       let r2 = 2 * r + V div 2 ^ 127; V2 = 2 * V mod 2 ^ 128
       in if d \<le> r2 then (V2 + 1, r2 - d) else (V2, r2))"

fun long_div_loop :: "nat \<Rightarrow> nat \<Rightarrow> nat \<times> nat \<Rightarrow> nat \<times> nat" where
  "long_div_loop 0 d s = s"
| "long_div_loop (Suc n) d s = long_div_loop n d (long_div_step d s)"

lemma long_div_loop_eq:
  assumes "n \<le> 128" "V < 2 ^ 128" "r < d"
  shows "long_div_loop n d (V, r) =
    ((V mod 2 ^ (128 - n)) * 2 ^ n + (r * 2 ^ n + V div 2 ^ (128 - n)) div d,
     (r * 2 ^ n + V div 2 ^ (128 - n)) mod d)"
  using assms
proof (induction n arbitrary: V r)
  case 0
  then show ?case by simp
next
  case (Suc n)
  define p t :: nat where pt: "p = 2 ^ (127 - n)" "t = 2 ^ n"
  have ptm: "p * t = 2 ^ 127" "2 ^ (128 - n) = 2 * p" "2 ^ (128 - Suc n) = p"
    using Suc.prems(1) by (auto simp: pt Suc_diff_le simp flip: power_add power_Suc)
  define b W where bW: "b = V div 2 ^ 127" "W = V mod 2 ^ 127"
  have b2: "b < 2" using Suc.prems(2) by (simp add: bW)
  have V: "V = b * (p * t) + W" by (simp add: bW ptm)
  have V2: "2 * V mod 2 ^ 128 = 2 * W"
  proof -
    have "2 * V = 2 ^ 128 * b + 2 * W" using V ptm(1) by simp
    then show ?thesis by (simp add: bW)
  qed
  define q where "q = (if d \<le> 2 * r + b then 1 else (0::nat))"
  define r1 where "r1 = 2 * r + b - d * q"
  have r1: "r1 < d" "2 * r + b = d * q + r1"
    using Suc.prems(3) b2 by (auto simp: r1_def q_def)
  have step: "long_div_step d (V, r) = (2 * W + q, r1)"
    by (simp only: long_div_step_def Let_def prod.case V2 bW(1) [symmetric]) (simp add: q_def r1_def)
  have W: "2 * W + q < 2 ^ 128"
  proof -
    have "W < 2 ^ 127" by (simp add: bW(2))
    then show ?thesis by (simp add: q_def)
  qed
  have dv: "(2 * W + q) div (2 * p) = W div p" and md: "(2 * W + q) mod (2 * p) = 2 * (W mod p) + q"
    by (simp_all add: div_mult2_eq mod_mult2_eq q_def)
  have "p > 0" by (simp add: pt)
  moreover have "V = p * (b * t) + W" using V by (simp add: ac_simps)
  ultimately have Vp: "V div p = b * t + W div p" "V mod p = W mod p" by simp_all
  have "r * 2 ^ Suc n + V div p = (2 * r + b) * t + W div p"
    by (simp add: Vp pt(2) algebra_simps)
  also have "\<dots> = d * (q * t) + (r1 * t + W div p)"
    by (simp only: r1(2)) (simp add: algebra_simps)
  finally have X: "r * 2 ^ Suc n + V div p = d * (q * t) + (r1 * t + W div p)" .
  have "d > 0" using Suc.prems(3) by simp
  then have "(r * 2 ^ Suc n + V div p) div d = q * t + (r1 * t + W div p) div d"
    "(r * 2 ^ Suc n + V div p) mod d = (r1 * t + W div p) mod d"
    by (simp_all only: X div_mult_self4 mod_mult_self4 not_gr_zero [symmetric]) simp_all
  moreover have "long_div_loop (Suc n) d (V, r) =
      ((2 * (W mod p) + q) * t + (r1 * t + W div p) div d, (r1 * t + W div p) mod d)"
    using Suc.IH [OF _ W r1(1)] Suc.prems(1) by (simp add: step ptm dv md flip: pt(2))
  ultimately show ?case
    by (simp only: ptm(3) Vp(2)) (simp add: pt(2) algebra_simps)
qed

lemma unat_push_bit1: "unat (push_bit 1 (w :: u64)) = 2 * unat w mod 2 ^ 64"
  by (simp only: unat_push_bit_u64) (simp add: mult.commute)

lemma double_mod_lt: "2 * n mod 2 ^ 64 + 1 < (2 ^ 64 :: nat)"
proof -
  have "n mod 2 ^ 63 < 2 ^ 63" by simp
  then show ?thesis using mult_mod_right [of 2 n "2 ^ 63"] by simp
qed

lemma top_bit_u64: "drop_bit 63 (w :: u64) \<noteq> 0 \<longleftrightarrow> 2 ^ 63 \<le> unat w"
proof -
  have "drop_bit 63 w = 0 \<longleftrightarrow> unat w div 2 ^ 63 = 0"
    by (simp only: unat_drop_bit_div [symmetric] unat_eq_0)
  then show ?thesis by (auto simp: div_eq_0_iff)
qed

lemma push_bit1_or_1: "push_bit 1 (w :: u64) OR 1 = push_bit 1 w + 1"
  by (rule disjunctive_add_eq_or [symmetric]) (rule bit_eqI, auto simp: bit_simps simp del: push_bit_Suc)

lemma unat_push_bit1_or_1: "unat (push_bit 1 (w :: u64) OR 1) = 2 * unat w mod 2 ^ 64 + 1"
  using double_mod_lt [of "unat w"]
  by (simp only: push_bit1_or_1 unat_add_u64 unat_push_bit1) simp

lemma double_mod_2p64: "n < 2 ^ 64 \<Longrightarrow> 2 * n mod 2 ^ 64 = (if 2 ^ 63 \<le> n then 2 * n - 2 ^ 64 else 2 * (n :: nat))"
  by (simp add: le_mod_geq)

lemma shl128_exact:
  assumes "shl128 hi lo = (c, hi', lo')"
  shows "c \<longleftrightarrow> u128 hi lo div 2 ^ 127 = 1" "u128 hi lo div 2 ^ 127 < 2"
    "u128 hi' lo' = 2 * u128 hi lo mod 2 ^ 128" "lo' = push_bit 1 lo"
proof -
  have eqs: "c = (2 ^ 63 \<le> unat hi)" "hi' = push_bit 1 hi + drop_bit 63 lo" "lo' = push_bit 1 lo"
    using assms by (auto simp: shl128_def Let_def top_bit_u64)
  have hl: "unat hi < 2 ^ 64" "unat lo < 2 ^ 64" using unat_lt_u64 by simp_all
  have d: "unat (drop_bit 63 lo) = (if 2 ^ 63 \<le> unat lo then 1 else 0)"
    using hl(2) by (auto simp: unat_drop_bit_div div_nat_eqI)
  have "unat hi' = 2 * unat hi mod 2 ^ 64 + (if 2 ^ 63 \<le> unat lo then 1 else 0)"
    using double_mod_lt [of "unat hi"] by (simp only: eqs unat_add_u64 unat_push_bit1 d) simp
  moreover have "unat lo' = 2 * unat lo mod 2 ^ 64" by (simp only: eqs unat_push_bit1)
  moreover have "2 * u128 hi lo mod 2 ^ 128 =
      (if 2 ^ 63 \<le> unat hi then 2 * u128 hi lo - 2 ^ 128 else 2 * u128 hi lo)"
    using hl by (simp add: u128_def le_mod_geq)
  ultimately show "u128 hi' lo' = 2 * u128 hi lo mod 2 ^ 128"
    using hl double_mod_2p64 [OF hl(1)] double_mod_2p64 [OF hl(2)]
    by (simp add: u128_def diff_mult_distrib split: if_splits)
  have v: "u128 hi lo div 2 ^ 127 = (if 2 ^ 63 \<le> unat hi then 1 else 0)"
    using hl by (auto simp: u128_def div_nat_eqI)
  show "c \<longleftrightarrow> u128 hi lo div 2 ^ 127 = 1" "u128 hi lo div 2 ^ 127 < 2"
    by (simp_all only: v eqs) simp_all
  show "lo' = push_bit 1 lo" by (rule eqs)
qed

lemma div128_64_step_sim:
  assumes step: "div128_64_step d (hi, lo, r) = (hi', lo', r')" and r: "unat r < unat d"
  shows "long_div_step (unat d) (u128 hi lo, unat r) = (u128 hi' lo', unat r')" "unat r' < unat d"
proof -
  obtain out hi2 lo2 where shl: "shl128 hi lo = (out, hi2, lo2)" by (cases "shl128 hi lo") auto
  note sh = shl128_exact [OF shl]
  define b where "b = u128 hi lo div 2 ^ 127"
  have b: "b < 2" "out \<longleftrightarrow> b = 1" using sh(1,2) by (simp_all add: b_def)
  define r2 where "r2 = (if out then push_bit 1 r OR 1 else push_bit 1 r)"
  have rd: "unat r < 2 ^ 64" "unat d < 2 ^ 64" using unat_lt_u64 by simp_all
  have r2: "unat r2 + (if 2 ^ 63 \<le> unat r then 2 ^ 64 else 0) = 2 * unat r + b"
    using double_mod_2p64 [OF rd(1)] b
    by (cases out) (simp_all add: r2_def unat_push_bit1_or_1 unat_push_bit1 del: push_bit_Suc One_nat_def)
  have cond: "(2 ^ 63 \<le> unat r \<or> d \<le> r2) \<longleftrightarrow> unat d \<le> 2 * unat r + b"
    using r2 rd by (auto simp: word_le_nat_alt split: if_splits)
  have eqs: "(hi', lo', r') = (if unat d \<le> 2 * unat r + b then (hi2, lo2 OR 1, r2 - d) else (hi2, lo2, r2))"
    using step by (simp only: div128_64_step_def prod.case shl Let_def top_bit_u64
      cond [symmetric] r2_def [symmetric])
  have or1: "u128 hi2 (lo2 OR 1) = u128 hi2 lo2 + 1"
    using sh(4) by (simp add: u128_def unat_push_bit1_or_1 unat_push_bit1 del: push_bit_Suc One_nat_def)
  have sub: "unat (r2 - d) = 2 * unat r + b - unat d" if "unat d \<le> 2 * unat r + b"
    using r2 rd r b(1) that by (auto simp: unat_sub_if' split: if_splits)
  have st: "long_div_step (unat d) (u128 hi lo, unat r) =
      (if unat d \<le> 2 * unat r + b then (u128 hi2 lo2 + 1, 2 * unat r + b - unat d)
       else (u128 hi2 lo2, 2 * unat r + b))"
    by (simp only: long_div_step_def prod.case Let_def b_def [symmetric] sh(3) [symmetric])
  have nc: "unat r2 = 2 * unat r + b" if "\<not> unat d \<le> 2 * unat r + b"
    using cond r2 that by auto
  show "long_div_step (unat d) (u128 hi lo, unat r) = (u128 hi' lo', unat r')" "unat r' < unat d"
    using eqs sub nc or1 r b(1) unfolding st by (auto split: if_splits)
qed

lemma div128_64_loop_sim:
  "div128_64_loop n d (hi, lo, r) = (hi', lo', r') \<Longrightarrow> unat r < unat d \<Longrightarrow>
   long_div_loop n (unat d) (u128 hi lo, unat r) = (u128 hi' lo', unat r')"
proof (induction n arbitrary: hi lo r)
  case 0
  then show ?case by simp
next
  case (Suc n)
  obtain h l r1 where st: "div128_64_step d (hi, lo, r) = (h, l, r1)"
    by (cases "div128_64_step d (hi, lo, r)") auto
  show ?case
    using Suc.IH [of h l r1] Suc.prems div128_64_step_sim [OF st] by (simp add: st)
qed

lemma u128_less: "u128 hi lo < 2 ^ 128"
  using unat_lt_u64 [of hi] unat_lt_u64 [of lo] by (simp add: u128_def)

lemma div128_64_exact:
  assumes "div128_64 hi lo d = (qh, ql, r)" and "d \<noteq> 0"
  shows "u128 qh ql = u128 hi lo div unat d" "unat r = u128 hi lo mod unat d"
proof -
  have d: "0 < unat d" using assms(2) by (simp add: unat_gt_0)
  have "long_div_loop 128 (unat d) (u128 hi lo, 0) = (u128 qh ql, unat r)"
    using div128_64_loop_sim [of 128 d hi lo 0 qh ql r] assms(1) d by (simp add: div128_64_def)
  then have "u128 qh ql = u128 hi lo div unat d \<and> unat r = u128 hi lo mod unat d"
    using long_div_loop_eq [of 128 "u128 hi lo" 0 "unat d"] u128_less [of hi lo] d by simp
  then show "u128 qh ql = u128 hi lo div unat d" "unat r = u128 hi lo mod unat d" by simp_all
qed

lemma u128_lo: "u128 hi lo mod 2 ^ 64 = unat lo"
  using unat_lt_u64 [of lo] by (simp add: u128_def)

lemma div128_64_lo:
  "div128_64 hi lo d = (qh, ql, r) \<Longrightarrow> d \<noteq> 0 \<Longrightarrow> unat ql = u128 hi lo div unat d mod 2 ^ 64"
  by (metis div128_64_exact(1) u128_lo)

lemma u128_add_carry:
  assumes "u128 hi lo + unat x < 2 ^ 128"
  shows "u128 (if lo > U64_MAX - x then hi + 1 else hi) (lo + x) = u128 hi lo + unat x"
proof -
  have big: "lo > U64_MAX - x \<longleftrightarrow> 2 ^ 64 \<le> unat lo + unat x"
    using unat_le_u64 [of x] unat_le_u64 [of lo]
    by (auto simp: word_less_nat_alt unat_sub_if' unat_U64_MAX)
  have "unat (hi + 1) = unat hi + 1" if "2 ^ 64 \<le> unat lo + unat x"
    using assms that by (simp add: unat_add_u64 u128_def)
  then show ?thesis
    using unat_lt_u64 [of x] unat_lt_u64 [of lo]
    by (simp add: big u128_def unat_plus_if' not_le)
qed

lemma unat_push_or_32:
  fixes x y :: u64
  assumes "unat x < 2 ^ 32" "unat y < 2 ^ 32"
  shows "unat (push_bit 32 y OR x) = unat y * 2 ^ 32 + unat x"
proof -
  have x: "take_bit 32 x = x"
    using assms(1) by (simp add: word_unat_eq_iff unsigned_take_bit_eq take_bit_nat_eq_self)
  have "push_bit 32 y AND take_bit 32 x = 0"
    by (rule bit_word_eqI) (auto simp: bit_simps)
  then have "push_bit 32 y OR x = push_bit 32 y + x"
    using disjunctive_add_eq_or [of "push_bit 32 y" x] by (simp add: x)
  moreover have "unat (push_bit 32 y) = unat y * 2 ^ 32"
    using assms(2) by (subst unat_push_bit_u64) simp
  ultimately show ?thesis using assms by (simp add: unat_add_u64)
qed

lemma unat_ucast_u64_u32: "unat (ucast (r :: u32) :: u64) = unat r"
  using unsigned_less [of r, where ?'a = nat] by (simp add: unsigned_ucast_eq take_bit_nat_eq_self)

lemma div_with_reminder_exact:
  assumes "div_with_reminder w d r = (q, r')" "r < d" "unat w < 2 ^ 32"
  shows "unat q = (unat r * 2 ^ 32 + unat w) div unat d" "unat r' = (unat r * 2 ^ 32 + unat w) mod unat d"
    "r' < d" "unat q < 2 ^ 32"
proof -
  have d: "0 < unat d" "unat r < unat d" "unat d < 2 ^ 32" 
    using assms(2) unsigned_less [of d] by (auto simp: word_less_nat_alt)
  have v: "unat (w OR push_bit 32 (ucast r)) = unat r * 2 ^ 32 + unat w"
    using unat_push_or_32 [of w "ucast r"] assms(3) d by (simp add: or.commute unat_ucast_u64_u32)
  show q: "unat q = (unat r * 2 ^ 32 + unat w) div unat d"
    using assms(1) v by (auto simp: div_with_reminder_def Let_def unat_div unat_ucast_u64_u32)
  have m: "(unat r * 2 ^ 32 + unat w) mod unat d < unat d" using d(1) by (rule mod_less_divisor)
  have "unat r' = unat (ucast ((w OR push_bit 32 (ucast r)) mod ucast d) :: u32)"
    using assms(1) by (simp add: div_with_reminder_def Let_def)
  then have "unat r' = unat (w OR push_bit 32 (ucast r)) mod unat d mod 2 ^ 32"
    using d(3) by (simp add: unsigned_ucast_eq unat_mod unat_ucast_u64_u32 take_bit_nat_def)
  then show r: "unat r' = (unat r * 2 ^ 32 + unat w) mod unat d"
    using m d(3) by (simp only: v) (rule mod_less, linarith)
  show "r' < d" using m by (simp only: word_less_nat_alt r)
  have "unat r * 2 ^ 32 + unat w < unat d * 2 ^ 32"
  proof -
    have "(unat r + 1) * 2 ^ 32 \<le> unat d * 2 ^ 32" using d(2) by (intro mult_le_mono1) simp
    then show ?thesis using assms(3) by simp
  qed
  then show "unat q < 2 ^ 32" by (simp only: q) (rule less_mult_imp_div_less, simp only: mult.commute)
qed

lemma long_div_digit:
  fixes n B w d :: nat
  assumes "0 < d" "n div d = q" "n mod d = r" "q' = (r * B + w) div d" "r' = (r * B + w) mod d"
  shows "(n * B + w) div d = q * B + q'" "(n * B + w) mod d = r'"
proof -
  have "n * B + w = d * (q * B) + (r * B + w)"
    using mult_div_mod_eq [of d n] assms(2,3) by (metis add.assoc distrib_right mult.assoc)
  then show "(n * B + w) div d = q * B + q'" "(n * B + w) mod d = r'"
    using assms(1) by (simp_all only: assms(4,5) div_mult_self3 div_mult_self4 mod_mult_self4 neq0_conv)
qed

lemma unat_hi_lo_dword: "unat x = unat (hi_dword x) * 2 ^ 32 + unat (lo_dword x)"
  by (simp add: unat_hi_dword unat_lo_dword div_mult_mod_eq)

lemma div128_32_exact:
  assumes "div128_32 hi lo d = (qh, ql, r)" "d \<noteq> 0"
  shows "u128 qh ql = u128 hi lo div unat d \<and> unat r = u128 hi lo mod unat d"
proof -
  define B :: nat where "B = 2 ^ 32"
  obtain q3 r3 where s3: "div_with_reminder (hi_dword hi) d 0 = (q3, r3)" by fastforce
  obtain q2 r2 where s2: "div_with_reminder (lo_dword hi) d r3 = (q2, r2)" by fastforce
  obtain q1 r1 where s1: "div_with_reminder (hi_dword lo) d r2 = (q1, r1)" by fastforce
  obtain q0 r0 where s0: "div_with_reminder (lo_dword lo) d r1 = (q0, r0)" by fastforce
  have out: "qh = push_bit 32 q3 OR q2" "ql = push_bit 32 q1 OR q0" "r = r0"
    using assms(1) by (simp_all add: div128_32_def s3 s2 s1 s0)
  have d: "0 < unat d" "0 < d" using assms(2) by (simp_all add: unat_gt_0 word_gt_0)
  have hiw: "unat (hi_dword x) < 2 ^ 32" "unat (lo_dword x) < 2 ^ 32" for x
    using unat_lt_u64 [of x] by (simp_all add: unat_hi_dword unat_lo_dword)
  note e3 = div_with_reminder_exact [OF s3 d(2) hiw(1)]
  note e2 = div_with_reminder_exact [OF s2 e3(3) hiw(2)]
  note e1 = div_with_reminder_exact [OF s1 e2(3) hiw(1)]
  note e0 = div_with_reminder_exact [OF s0 e1(3) hiw(2)]
  define a b c e where w: "a = unat (hi_dword hi)" "b = unat (lo_dword hi)" "c = unat (hi_dword lo)" "e = unat (lo_dword lo)"
  have n: "u128 hi lo = ((a * B + b) * B + c) * B + e"
    unfolding u128_def w B_def by (subst (1) unat_hi_lo_dword [of hi], subst (1) unat_hi_lo_dword [of lo]) (simp add: algebra_simps)
  have q: "u128 qh ql = ((unat q3 * B + unat q2) * B + unat q1) * B + unat q0"
    unfolding u128_def out B_def using e3(4) e2(4) e1(4) e0(4) by (simp add: unat_push_or_32 algebra_simps)
  have f3: "a div unat d = unat q3" "a mod unat d = unat r3" using e3(1,2) by (simp_all add: w)
  note f2 = long_div_digit [OF d(1) f3 e2(1,2)]
  note f1 = long_div_digit [OF d(1) f2 e1(1,2)]
  note f0 = long_div_digit [OF d(1) f1 e0(1,2)]
  show ?thesis using f0 by (simp only: n q out(3) w B_def)
qed

text \<open>
  C35. The 128-bit arithmetic is exact: the two words of \<^const>\<open>mul128\<close> are the product of its
  arguments, and the long divisions by a 64-bit and by a 32-bit divisor give the quotient and the
  remainder of the 128-bit dividend, for every divisor but zero.
\<close>

theorem int_util_exact:
  assumes "d \<noteq> 0" "e \<noteq> 0"
  shows "(case mul128 x y of (hi, lo) \<Rightarrow> u128 hi lo = unat x * unat y)
    \<and> (case div128_64 hi lo d of (qh, ql, r) \<Rightarrow>
        u128 qh ql = u128 hi lo div unat d \<and> unat r = u128 hi lo mod unat d)
    \<and> (case div128_32 hi lo e of (qh, ql, r) \<Rightarrow>
        u128 qh ql = u128 hi lo div unat e \<and> unat r = u128 hi lo mod unat e)"
proof (intro conjI)
  show "case mul128 x y of (hi, lo) \<Rightarrow> u128 hi lo = unat x * unat y"
    using mul128_exact [of x y] by (cases "mul128 x y") simp
  show "case div128_64 hi lo d of (qh, ql, r) \<Rightarrow>
      u128 qh ql = u128 hi lo div unat d \<and> unat r = u128 hi lo mod unat d"
    using div128_64_exact [OF _ assms(1), of hi lo] by (cases "div128_64 hi lo d") auto
  show "case div128_32 hi lo e of (qh, ql, r) \<Rightarrow>
      u128 qh ql = u128 hi lo div unat e \<and> unat r = u128 hi lo mod unat e"
    using div128_32_exact [OF _ assms(2), of hi lo] by (cases "div128_32 hi lo e") auto
qed

theorem int_util_exact_witness:
  "(7 :: u64) \<noteq> 0 \<and> (case div128_64 1 0 7 of (qh, ql, r) \<Rightarrow> u128 qh ql = u128 1 0 div 7 \<and> unat r = 2)"
  using int_util_exact [of 7 7 0 0 1 0] by (simp add: u128_def split: prod.splits)

end
