(* ===== verification/Bytes.thy ===== *)
theory Bytes
  imports Guus_Prelude
begin

text \<open>
  Words as sequences of bytes: \<^verbatim>\<open>memcpy\<close> of an integer on a little-endian machine (and
  \<^verbatim>\<open>tools::memcpy_le\<close>, \<^verbatim>\<open>boost::endian::native_to_little\<close>) is \<open>le_bytes\<close>, the read back is
  \<open>word_of_le\<close>; a 32-byte POD is read most significant byte first.
\<close>

section \<open>Definitions\<close>

primrec le_bytes :: "nat \<Rightarrow> 'a :: len word \<Rightarrow> byte list" where
  "le_bytes 0 w = []"
| "le_bytes (Suc n) w = ucast w # le_bytes n (drop_bit 8 w)"

primrec word_of_le :: "byte list \<Rightarrow> 'a :: len word" where
  "word_of_le [] = 0"
| "word_of_le (b # bs) = ucast b OR push_bit 8 (word_of_le bs)"

definition pod_of_bytes :: "byte list \<Rightarrow> pod32" where
  "pod_of_bytes bs = word_of_le (rev bs)"

definition bytes_of_pod :: "pod32 \<Rightarrow> byte list" where
  "bytes_of_pod p = rev (le_bytes 32 p)"

section \<open>Round trips\<close>

lemma length_le_bytes [simp]: "length (le_bytes n w) = n"
  by (induction n arbitrary: w) auto

lemma length_bytes_of_pod [simp]: "length (bytes_of_pod p) = 32"
  by (simp add: bytes_of_pod_def)

lemma word_of_le_le_bytes: "word_of_le (le_bytes n w) = take_bit (8 * n) w"
  for w :: "'a :: len word"
proof (induction n arbitrary: w)
  case 0
  then show ?case by simp
next
  case (Suc n)
  have "ucast (ucast w :: byte) OR push_bit 8 (take_bit (8 * n) (drop_bit 8 w)) = take_bit (8 + 8 * n) w"
    by (rule bit_eqI) (auto simp: bit_simps not_less dest: bit_imp_le_length)
  then show ?case by (simp add: Suc.IH)
qed

lemma word_of_le_le_bytes_id [simp]:
  "LENGTH('a) \<le> 8 * n \<Longrightarrow> word_of_le (le_bytes n w) = (w :: 'a :: len word)"
  by (simp add: word_of_le_le_bytes take_bit_word_eq_self)

lemma bit_word_of_le_bound: "bit (word_of_le bs :: 'a :: len word) k \<Longrightarrow> k < 8 * length bs"
proof (induction bs arbitrary: k)
  case (Cons b bs)
  then have "bit b k \<or> 8 \<le> k \<and> bit (word_of_le bs :: 'a word) (k - 8)"
    by (auto simp: bit_simps)
  moreover have "k < 8" if "bit b k"
    using bit_imp_le_length [OF that] by simp
  moreover have "k - 8 < 8 * length bs" if "bit (word_of_le bs :: 'a word) (k - 8)"
    by (rule Cons.IH [OF that])
  ultimately show ?case by fastforce
qed simp

lemma le_bytes_word_of_le:
  "8 * length bs \<le> LENGTH('a) \<Longrightarrow> le_bytes (length bs) (word_of_le bs :: 'a :: len word) = bs"
proof (induction bs)
  case Nil
  then show ?case by simp
next
  case (Cons b bs)
  have "ucast (ucast b OR push_bit 8 (word_of_le bs) :: 'a word) = b"
    using Cons.prems by (intro bit_eqI) (auto simp: bit_simps dest: bit_imp_le_length)
  moreover have "drop_bit 8 (ucast b OR push_bit 8 (word_of_le bs)) = (word_of_le bs :: 'a word)"
  proof (rule bit_word_eqI)
    fix k
    assume "k < LENGTH('a)"
    have "k + 8 < LENGTH('a)" if "bit (word_of_le bs :: 'a word) k"
      using bit_word_of_le_bound [OF that] Cons.prems by simp
    moreover have "\<not> bit b (8 + k)" using bit_imp_le_length [of b "8 + k"] by auto
    ultimately show "bit (drop_bit 8 (ucast b OR push_bit 8 (word_of_le bs :: 'a word))) k
        = bit (word_of_le bs :: 'a word) k"
      by (auto simp: bit_simps)
  qed
  ultimately show ?case using Cons by simp
qed

lemma pod_of_bytes_of_pod [simp]: "pod_of_bytes (bytes_of_pod p) = p"
  by (simp add: pod_of_bytes_def bytes_of_pod_def)

lemma bytes_of_pod_of_bytes: "length bs = 32 \<Longrightarrow> bytes_of_pod (pod_of_bytes bs) = bs"
  using le_bytes_word_of_le [where ?'a = 256, of "rev bs"]
  by (simp add: pod_of_bytes_def bytes_of_pod_def)

lemma le_bytes_inj: "LENGTH('a) \<le> 8 * n \<Longrightarrow> le_bytes n v = le_bytes n w \<longleftrightarrow> v = (w :: 'a :: len word)"
  by (metis word_of_le_le_bytes_id)

end
