(* ===== verification/Framepix_Rules.thy ===== *)
theory Framepix_Rules
  imports Int_Util Bytes
begin

text \<open>
  The staking rules of \<^verbatim>\<open>src/src/cryptonote_core/frame_pix_rules.cpp\<close> and
  \<^verbatim>\<open>frame_pix_rules.h\<close>: how much a node must stake, how a stake is split into portions, the
  smallest contribution a contributor may make, and the constants of the quorums. Amounts and
  portions are 64-bit words. The one function left out is the conversion of a percentage
  string, which computes with \<^verbatim>\<open>double\<close>.
\<close>

section \<open>Constants\<close>

abbreviation (input) COIN :: u64 where "COIN \<equiv> 1000000000"
abbreviation (input) STAKING_PORTIONS :: u64 where "STAKING_PORTIONS \<equiv> 0xfffffffffffffffc"
abbreviation (input) MAX_NUMBER_OF_CONTRIBUTORS :: nat where "MAX_NUMBER_OF_CONTRIBUTORS \<equiv> 4"
abbreviation (input) STAKING_REQUIREMENT_LOCK_BLOCKS_EXCESS :: u64
  where "STAKING_REQUIREMENT_LOCK_BLOCKS_EXCESS \<equiv> 20"

definition BLOCKS_EXPECTED_IN_HOURS :: "u64 \<Rightarrow> u64" where
  "BLOCKS_EXPECTED_IN_HOURS v = ((60 * 60) div 120) * v"

definition BLOCKS_EXPECTED_IN_DAYS :: "u64 \<Rightarrow> u64" where
  "BLOCKS_EXPECTED_IN_DAYS v = BLOCKS_EXPECTED_IN_HOURS 24 * v"

definition VOTE_LIFETIME :: u64 where
  "VOTE_LIFETIME = BLOCKS_EXPECTED_IN_HOURS 2"

abbreviation (input) STATE_CHANGE_TX_LIFETIME_IN_BLOCKS :: u64
  where "STATE_CHANGE_TX_LIFETIME_IN_BLOCKS \<equiv> VOTE_LIFETIME"
abbreviation (input) VOTE_OR_TX_VERIFY_HEIGHT_BUFFER :: u64 where "VOTE_OR_TX_VERIFY_HEIGHT_BUFFER \<equiv> 5"
abbreviation (input) STATE_CHANGE_NTH_OF_THE_NETWORK_TO_TEST :: nat
  where "STATE_CHANGE_NTH_OF_THE_NETWORK_TO_TEST \<equiv> 100"
abbreviation (input) STATE_CHANGE_MIN_NODES_TO_TEST :: nat where "STATE_CHANGE_MIN_NODES_TO_TEST \<equiv> 50"
abbreviation (input) STATE_CHANGE_MIN_VOTES_TO_CHANGE_STATE :: nat
  where "STATE_CHANGE_MIN_VOTES_TO_CHANGE_STATE \<equiv> 1"
abbreviation (input) STATE_CHANGE_QUORUM_SIZE :: nat where "STATE_CHANGE_QUORUM_SIZE \<equiv> 5"
abbreviation (input) CHECKPOINT_QUORUM_SIZE :: nat where "CHECKPOINT_QUORUM_SIZE \<equiv> 2"
abbreviation (input) CHECKPOINT_MIN_VOTES :: nat where "CHECKPOINT_MIN_VOTES \<equiv> 1"
abbreviation (input) BLINK_SUBQUORUM_SIZE :: nat where "BLINK_SUBQUORUM_SIZE \<equiv> 4"
abbreviation (input) BLINK_MIN_VOTES :: nat where "BLINK_MIN_VOTES \<equiv> 3"
abbreviation (input) BLINK_QUORUM_INTERVAL :: u64 where "BLINK_QUORUM_INTERVAL \<equiv> 5"
abbreviation (input) BLINK_EXPIRY_BUFFER :: u64 where "BLINK_EXPIRY_BUFFER \<equiv> 45"
abbreviation (input) CHECKPOINT_INTERVAL :: u64 where "CHECKPOINT_INTERVAL \<equiv> 4"
abbreviation (input) CHECKPOINT_STORE_PERSISTENTLY_INTERVAL :: u64
  where "CHECKPOINT_STORE_PERSISTENTLY_INTERVAL \<equiv> 60"
abbreviation (input) REORG_SAFETY_BUFFER_BLOCKS_POST_HF12 :: u64
  where "REORG_SAFETY_BUFFER_BLOCKS_POST_HF12 \<equiv> 11"
abbreviation (input) REORG_SAFETY_BUFFER_BLOCKS_PRE_HF12 :: u64
  where "REORG_SAFETY_BUFFER_BLOCKS_PRE_HF12 \<equiv> 20"
abbreviation (input) MIN_SWARM_SIZE :: nat where "MIN_SWARM_SIZE \<equiv> 5"
abbreviation (input) IDEAL_SWARM_MARGIN :: nat where "IDEAL_SWARM_MARGIN \<equiv> 2"
abbreviation (input) NEW_SWARM_SIZE :: nat where "NEW_SWARM_SIZE \<equiv> 7"
abbreviation (input) EXCESS_BASE :: nat where "EXCESS_BASE \<equiv> 5"
abbreviation (input) FILL_SWARM_LOWER_PERCENTILE :: nat where "FILL_SWARM_LOWER_PERCENTILE \<equiv> 25"
abbreviation (input) DECOMMISSIONED_REDISTRIBUTION_LOWER_PERCENTILE :: nat
  where "DECOMMISSIONED_REDISTRIBUTION_LOWER_PERCENTILE \<equiv> 0"
abbreviation (input) STEALING_SWARM_UPPER_PERCENTILE :: nat where "STEALING_SWARM_UPPER_PERCENTILE \<equiv> 75"
abbreviation (input) KEY_IMAGE_AWAITING_UNLOCK_HEIGHT :: u64 where "KEY_IMAGE_AWAITING_UNLOCK_HEIGHT \<equiv> 0"
abbreviation (input) UNASSIGNED_SWARM_ID :: u64 where "UNASSIGNED_SWARM_ID \<equiv> U64_MAX"

datatype quorum_type = obligations | checkpointing | blink

definition min_votes_for_quorum_type :: "quorum_type \<Rightarrow> nat" where
  "min_votes_for_quorum_type q =
     (case q of obligations \<Rightarrow> STATE_CHANGE_MIN_VOTES_TO_CHANGE_STATE
      | checkpointing \<Rightarrow> CHECKPOINT_MIN_VOTES
      | blink \<Rightarrow> BLINK_MIN_VOTES)"

definition max_quorum_type_for_hf :: "u8 \<Rightarrow> quorum_type" where
  "max_quorum_type_for_hf hf_version =
     (if hf_version \<le> 12 then obligations
      else if hf_version < 14 then checkpointing
      else blink)"

definition staking_num_lock_blocks :: "network_type \<Rightarrow> u64" where
  "staking_num_lock_blocks nettype =
     (case nettype of FAKECHAIN \<Rightarrow> 30
      | TESTNET \<Rightarrow> BLOCKS_EXPECTED_IN_DAYS 2
      | _ \<Rightarrow> BLOCKS_EXPECTED_IN_DAYS 30)"

section \<open>Staking amounts and portions\<close>

definition get_staking_requirement :: "network_type \<Rightarrow> u64 \<Rightarrow> u8 \<Rightarrow> u64" where
  "get_staking_requirement nettype height hf_version =
     (if nettype = TESTNET \<or> nettype = FAKECHAIN then COIN * 100
      else if height < 5040 then 25000 * COIN
      else 120000 * COIN)"

definition portions_to_amount :: "u64 \<Rightarrow> u64 \<Rightarrow> u64" where
  "portions_to_amount portions staking_requirement =
     (case mul128 staking_requirement portions of (hi, lo) \<Rightarrow>
      case div128_64 hi lo STAKING_PORTIONS of (resulthi, resultlo, _) \<Rightarrow> resultlo)"

definition get_min_node_contribution_pre_v11 :: "u64 \<Rightarrow> u64 \<Rightarrow> u64" where
  "get_min_node_contribution_pre_v11 staking_requirement total_reserved =
     min (staking_requirement - total_reserved) (staking_requirement div 4)"

text \<open>
  The code asserts first that there are fewer contributions than the maximum and then tests the same condition; the
  value is that of the test.
\<close>

definition get_min_node_contribution :: "u8 \<Rightarrow> u64 \<Rightarrow> u64 \<Rightarrow> nat \<Rightarrow> u64" where
  "get_min_node_contribution version staking_requirement total_reserved num_contributions =
     (if version < 11 then get_min_node_contribution_pre_v11 staking_requirement total_reserved
      else
        let needed = staking_requirement - total_reserved
        in if MAX_NUMBER_OF_CONTRIBUTORS \<le> num_contributions then U64_MAX
           else needed div of_nat (MAX_NUMBER_OF_CONTRIBUTORS - num_contributions))"

definition get_portions_to_make_amount :: "u64 \<Rightarrow> u64 \<Rightarrow> u64" where
  "get_portions_to_make_amount staking_requirement amount =
     (case mul128 amount STAKING_PORTIONS of (hi, lo) \<Rightarrow>
       let hi' = (if lo > U64_MAX - (staking_requirement - 1) then hi + 1 else hi);
           lo' = lo + (staking_requirement - 1)
       in case div128_64 hi' lo' staking_requirement of (resulthi, resultlo, _) \<Rightarrow> resultlo)"

definition get_min_node_contribution_in_portions :: "u8 \<Rightarrow> u64 \<Rightarrow> u64 \<Rightarrow> nat \<Rightarrow> u64" where
  "get_min_node_contribution_in_portions version staking_requirement total_reserved num_contributions =
     (let atomic_amount = get_min_node_contribution version staking_requirement total_reserved num_contributions
      in if atomic_amount = U64_MAX then U64_MAX
         else get_portions_to_make_amount staking_requirement atomic_amount)"

text \<open>The loop of \<^verbatim>\<open>check_frame_pix_portions\<close>: \<^verbatim>\<open>i\<close> is the index of the head of the list.\<close>

fun check_portions_loop :: "u8 \<Rightarrow> nat \<Rightarrow> u64 \<Rightarrow> u64 list \<Rightarrow> bool" where
  "check_portions_loop hf_version i reserved [] = (reserved \<le> STAKING_PORTIONS)"
| "check_portions_loop hf_version i reserved (p # ps) =
     (if p < get_min_node_contribution hf_version STAKING_PORTIONS reserved i then False
      else check_portions_loop hf_version (Suc i) (reserved + p) ps)"

definition check_frame_pix_portions :: "u8 \<Rightarrow> u64 list \<Rightarrow> bool" where
  "check_frame_pix_portions hf_version portions =
     (if length portions > MAX_NUMBER_OF_CONTRIBUTORS then False
      else check_portions_loop hf_version 0 0 portions)"

section \<open>Unlocking a stake\<close>

definition get_locked_key_image_unlock_height :: "network_type \<Rightarrow> u64 \<Rightarrow> u64 \<Rightarrow> u64" where
  "get_locked_key_image_unlock_height nettype node_register_height curr_height =
     (let blocks_to_lock = staking_num_lock_blocks nettype
      in curr_height + blocks_to_lock div 2)"

text \<open>The hash is the four bytes of the nonce, least significant first, eight times over.\<close>

definition generate_request_stake_unlock_hash :: "u32 \<Rightarrow> pod32" where
  "generate_request_stake_unlock_hash nonce =
     pod_of_bytes (concat (replicate 8 (le_bytes 4 nonce)))"

section \<open>The arithmetic of portions\<close>

lemma unat_STAKING_PORTIONS: "unat STAKING_PORTIONS = 18446744073709551612"
  by simp

lemma unat_portions_to_amount:
  "unat (portions_to_amount p s) = unat s * unat p div 18446744073709551612 mod 2 ^ 64"
proof -
  obtain hi lo where m: "mul128 s p = (hi, lo)" by (cases "mul128 s p")
  obtain qh ql r where d: "div128_64 hi lo STAKING_PORTIONS = (qh, ql, r)"
    by (cases "div128_64 hi lo STAKING_PORTIONS")
  show ?thesis
    using div128_64_lo [OF d] mul128_exact [OF m] by (simp add: portions_to_amount_def m d)
qed

lemma portions_to_amount_le:
  assumes "p \<le> STAKING_PORTIONS"
  shows "unat (portions_to_amount p s) = unat s * unat p div 18446744073709551612"
    "portions_to_amount p s \<le> s"
proof -
  have p: "unat p \<le> 18446744073709551612" using assms by (simp add: word_le_nat_alt)
  have le: "unat s * unat p div 18446744073709551612 \<le> unat s"
    using div_le_mono [OF mult_le_mono2 [OF p, of "unat s"], of 18446744073709551612] by simp
  then show eq: "unat (portions_to_amount p s) = unat s * unat p div 18446744073709551612"
    using unat_lt_u64 [of s] by (simp add: unat_portions_to_amount)
  show "portions_to_amount p s \<le> s" using le by (simp add: word_le_nat_alt eq)
qed

lemma unat_get_portions_to_make_amount:
  assumes "s \<noteq> 0" "amount \<le> s"
  shows "unat (get_portions_to_make_amount s amount) =
    (unat amount * 18446744073709551612 + (unat s - 1)) div unat s"
proof -
  obtain hi lo where m: "mul128 amount STAKING_PORTIONS = (hi, lo)" by (cases "mul128 amount STAKING_PORTIONS")
  have v: "u128 hi lo = unat amount * 18446744073709551612" using mul128_exact [OF m] by simp
  have s1: "unat (s - 1) = unat s - 1" "0 < unat s" using assms(1) by (simp_all add: unat_minus_one unat_gt_0)
  have "u128 hi lo + unat (s - 1) < 2 ^ 128"
    using unat_lt_u64 [of amount] unat_lt_u64 [of s] by (simp add: v s1)
  note carry = u128_add_carry [OF this]
  define hi' lo' where hl: "hi' = (if lo > U64_MAX - (s - 1) then hi + 1 else hi)" "lo' = lo + (s - 1)"
  obtain qh ql r where d: "div128_64 hi' lo' s = (qh, ql, r)" by (cases "div128_64 hi' lo' s")
  have "get_portions_to_make_amount s amount = ql"
    by (simp only: get_portions_to_make_amount_def m prod.case Let_def hl [symmetric] d)
  then have "unat (get_portions_to_make_amount s amount) =
      (unat amount * 18446744073709551612 + (unat s - 1)) div unat s mod 2 ^ 64"
    using div128_64_lo [OF d assms(1)] carry by (simp only: hl v s1)
  moreover have "(unat amount * 18446744073709551612 + (unat s - 1)) div unat s
      \<le> (unat s * 18446744073709551612 + (unat s - 1)) div unat s"
    using assms(2) by (intro div_le_mono) (simp add: word_le_nat_alt)
  moreover have "(unat s * 18446744073709551612 + (unat s - 1)) div unat s = 18446744073709551612"
    using s1(2) by (intro div_nat_eqI) simp_all
  ultimately show ?thesis by simp
qed

lemma ceil_div_least:
  fixes a b s :: nat
  assumes "0 < s"
  shows "a \<le> s * ((a + (s - 1)) div s)" "a \<le> s * y \<Longrightarrow> (a + (s - 1)) div s \<le> y"
    "s * ((a + (s - 1)) div s) \<le> a + (s - 1)"
proof -
  have "(a + (s - 1)) mod s \<le> s - 1" using mod_less_divisor [OF assms, of "a + (s - 1)"] by linarith
  then show "a \<le> s * ((a + (s - 1)) div s)"
    using mult_div_mod_eq [of s "a + (s - 1)"] by linarith
  show "s * ((a + (s - 1)) div s) \<le> a + (s - 1)" by simp
  assume "a \<le> s * y"
  then have "a + (s - 1) < s * Suc y" using assms by simp
  then show "(a + (s - 1)) div s \<le> y" using assms
    by (simp add: less_mult_imp_div_less mult.commute less_Suc_eq_le [symmetric])
qed

text \<open>
  C26. The portions computed for an amount are the least number of portions of the staking
  requirement that are worth at least the amount, as the comment in \<^verbatim>\<open>frame_pix_rules.h\<close>
  says, and converting them back gives the amount itself.
\<close>

theorem get_portions_to_make_amount_least:
  assumes "0 < s" "amount \<le> s"
  defines "x \<equiv> get_portions_to_make_amount s amount"
  shows "unat amount * unat STAKING_PORTIONS \<le> unat s * unat x
    \<and> (\<forall>y :: u64. unat amount * unat STAKING_PORTIONS \<le> unat s * unat y \<longrightarrow> x \<le> y)
    \<and> (s \<le> STAKING_PORTIONS \<longrightarrow> portions_to_amount x s = amount)"
proof (intro conjI allI impI)
  have s: "s \<noteq> 0" "0 < unat s" using assms(1) by (simp_all add: unat_gt_0)
  have x: "unat x = (unat amount * unat STAKING_PORTIONS + (unat s - 1)) div unat s"
    unfolding x_def using unat_get_portions_to_make_amount [OF s(1) assms(2)] by simp
  note least = ceil_div_least [OF s(2), of "unat amount * unat STAKING_PORTIONS"]
  show "unat amount * unat STAKING_PORTIONS \<le> unat s * unat x" by (simp only: x least)
  show "x \<le> y" if "unat amount * unat STAKING_PORTIONS \<le> unat s * unat y" for y
    using least(2) [OF that] by (simp only: word_le_nat_alt x)
  show "portions_to_amount x s = amount" if le: "s \<le> STAKING_PORTIONS"
  proof -
    have sp: "unat s \<le> 18446744073709551612" using le by (simp add: word_le_nat_alt)
    have "unat amount * 18446744073709551612 \<le> unat s * unat x"
      "unat s * unat x \<le> unat amount * 18446744073709551612 + (unat s - 1)"
      using least(1,3) by (simp_all add: x)
    then have "unat s * unat x div 18446744073709551612 = unat amount"
      using sp s(2) by (intro div_nat_eqI) simp_all
    then show ?thesis
      using unat_lt_u64 [of amount] by (simp add: unat_portions_to_amount word_unat_eq_iff)
  qed
qed

theorem get_portions_to_make_amount_least_witness:
  "(0 :: u64) < 100000000000 \<and>
   portions_to_amount (get_portions_to_make_amount 100000000000 25000000000) 100000000000 = 25000000000"
  using get_portions_to_make_amount_least [of 100000000000 25000000000] by simp

text \<open>
  The conversion is symmetric in its arguments, so a caller that swaps them, as
  \<^verbatim>\<open>convert_registration_args\<close> does, computes the same amount.
\<close>

lemma portions_to_amount_commute: "portions_to_amount a b = portions_to_amount b a"
  by (simp add: word_unat_eq_iff unat_portions_to_amount mult.commute)

lemma portions_to_amount_full: "s \<noteq> 0 \<Longrightarrow> portions_to_amount STAKING_PORTIONS s = s"
  using unat_lt_u64 [of s] by (simp add: word_unat_eq_iff unat_portions_to_amount)

section \<open>The smallest contribution\<close>

lemma unat_get_min_node_contribution:
  assumes "11 \<le> version" "reserved \<le> s" "num < 4"
  shows "unat (get_min_node_contribution version s reserved num) = (unat s - unat reserved) div (4 - num)"
proof -
  have v: "\<not> version < 11" using assms(1) by simp
  have n: "unat (of_nat (4 - num) :: u64) = 4 - num"
    by (simp add: unat_of_nat take_bit_eq_mod)
  show ?thesis
    using assms v by (simp add: get_min_node_contribution_def unat_div unat_sub_u64_no_wrap n del: of_nat_diff)
qed

lemma check_portions_loop_sound:
  assumes "11 \<le> hf" "check_portions_loop hf i r ps" "i + length ps \<le> 4"
    "unat r + (\<Sum>p\<leftarrow>ps. unat p) \<le> unat STAKING_PORTIONS"
  shows "\<forall>k < length ps. (unat STAKING_PORTIONS - (unat r + (\<Sum>p\<leftarrow>take k ps. unat p))) div (4 - (i + k)) \<le> unat (ps ! k)"
  using assms(2-4)
proof (induction ps arbitrary: i r)
  case (Cons p ps)
  have sum: "unat (r + p) = unat r + unat p"
    using Cons.prems(3) by (intro unat_add_u64_no_wrap) simp
  have r: "r \<le> STAKING_PORTIONS" using Cons.prems(3) by (simp add: word_le_nat_alt)
  have min: "get_min_node_contribution hf STAKING_PORTIONS r i \<le> p"
    and rest: "check_portions_loop hf (Suc i) (r + p) ps"
    using Cons.prems(1) by (simp_all split: if_splits)
  have head: "(unat STAKING_PORTIONS - unat r) div (4 - i) \<le> unat p"
    using min unat_get_min_node_contribution [OF assms(1) r] Cons.prems(2)
    by (simp add: word_le_nat_alt)
  have tail: "\<forall>k < length ps. (unat STAKING_PORTIONS - (unat (r + p) + (\<Sum>p\<leftarrow>take k ps. unat p)))
      div (4 - (Suc i + k)) \<le> unat (ps ! k)"
    using Cons.prems(2,3) by (intro Cons.IH [OF rest]) (simp_all add: sum)
  show ?case
  proof (intro allI impI)
    fix k assume "k < length (p # ps)"
    then show "(unat STAKING_PORTIONS - (unat r + (\<Sum>p\<leftarrow>take k (p # ps). unat p))) div (4 - (i + k))
        \<le> unat ((p # ps) ! k)"
      using head tail by (cases k) (simp_all add: sum add.assoc)
  qed
qed simp

lemma check_portions_loop_sum:
  "check_portions_loop hf i r ps \<Longrightarrow> r + sum_list ps \<le> STAKING_PORTIONS"
  by (induction ps arbitrary: i r) (auto simp: add.assoc [symmetric] simp del: add.assoc split: if_splits)

lemma unat_sum_list_mod: "unat (sum_list ps :: u64) = (\<Sum>p\<leftarrow>ps. unat p) mod 2 ^ 64"
  by (induction ps) (simp_all add: unat_add_u64 mod_simps)

text \<open>
  C25. From hard fork 11 on, a list of portions the registration check accepts, whose sum does
  not overflow 64 bits, has at most four entries, does not exceed the whole stake, gives every
  contributor at least an equal share of what was still open, and fills the stake exactly when
  there are four of them.
\<close>

theorem check_frame_pix_portions_sound:
  assumes "11 \<le> hf" "check_frame_pix_portions hf ps" "(\<Sum>p\<leftarrow>ps. unat p) < 2 ^ 64"
  shows "length ps \<le> 4 \<and> (\<Sum>p\<leftarrow>ps. unat p) \<le> unat STAKING_PORTIONS
    \<and> (\<forall>k < length ps. (unat STAKING_PORTIONS - (\<Sum>p\<leftarrow>take k ps. unat p)) div (4 - k) \<le> unat (ps ! k))
    \<and> (length ps = 4 \<longrightarrow> (\<Sum>p\<leftarrow>ps. unat p) = unat STAKING_PORTIONS)"
proof -
  have len: "length ps \<le> 4" and loop: "check_portions_loop hf 0 0 ps"
    using assms(2) by (simp_all add: check_frame_pix_portions_def split: if_splits)
  have sum: "(\<Sum>p\<leftarrow>ps. unat p) \<le> unat STAKING_PORTIONS"
    using check_portions_loop_sum [OF loop] assms(3)
    by (simp add: word_le_nat_alt unat_sum_list_mod)
  have share: "\<forall>k < length ps. (unat STAKING_PORTIONS - (\<Sum>p\<leftarrow>take k ps. unat p)) div (4 - k) \<le> unat (ps ! k)"
    using check_portions_loop_sound [OF assms(1) loop] len sum by simp
  have "(\<Sum>p\<leftarrow>ps. unat p) = unat STAKING_PORTIONS" if l: "length ps = 4"
  proof -
    have "unat STAKING_PORTIONS - (\<Sum>p\<leftarrow>take 3 ps. unat p) \<le> unat (ps ! 3)"
      using spec [OF share, of 3] l by simp
    moreover have "ps = take 3 ps @ [ps ! 3]"
      using l take_Suc_conv_app_nth [of 3 ps] by simp
    then have "(\<Sum>p\<leftarrow>ps. unat p) = (\<Sum>p\<leftarrow>take 3 ps. unat p) + unat (ps ! 3)"
      by (metis (no_types, lifting) add.right_neutral map_append sum_list.Cons sum_list.Nil sum_list.append list.map)
    ultimately show ?thesis using sum by linarith
  qed
  then show ?thesis using len sum share by simp
qed

theorem check_frame_pix_portions_sound_witness:
  "check_frame_pix_portions 16 [0x8000000000000000, 0x7ffffffffffffffc] \<and>
   (\<Sum>p\<leftarrow>[0x8000000000000000 :: u64, 0x7ffffffffffffffc]. unat p) \<le> unat STAKING_PORTIONS"
proof -
  have "check_frame_pix_portions 16 [0x8000000000000000, 0x7ffffffffffffffc]"
    by code_simp
  then show ?thesis
    using check_frame_pix_portions_sound [of 16 "[0x8000000000000000, 0x7ffffffffffffffc]"] by simp
qed

text \<open>
  The sum of the check is a 64-bit sum, and the check does not guard it: two contributors who
  each claim the whole stake are accepted, because their sum wraps around to a number below it.
\<close>

lemma check_frame_pix_portions_wraps:
  "check_frame_pix_portions 16 [STAKING_PORTIONS, STAKING_PORTIONS]
   \<and> unat STAKING_PORTIONS < (\<Sum>p\<leftarrow>[STAKING_PORTIONS, STAKING_PORTIONS]. unat p)"
  by (rule conjI, code_simp, simp)

end
