(* ===== verification/Random_Portable.thy ===== *)
theory Random_Portable
  imports Guus_Prelude
begin

text \<open>
  The platform-independent random choices of \<^verbatim>\<open>src/src/common/random.cpp\<close> and
  \<^verbatim>\<open>random.h\<close>. The generator is an argument: a function from a state to a 64-bit output and the
  next state, so that the lemmas hold for every generator; \<^verbatim>\<open>std::mt19937_64\<close>, whose algorithm
  the C++ standard fixes, is the instance the program uses. The rejection loop of
  \<^verbatim>\<open>uniform_distribution_portable\<close> is a \<^theory_text>\<open>partial_function (option)\<close>: a generator that only
  ever gives rejected outputs makes it \<^const>\<open>None\<close>. It returns whenever the generator keeps
  producing an output in the lower half of its range.
\<close>

section \<open>Results\<close>

datatype swarm_error = OutOfRange | Diverges | AssertFailed

fun bindE :: "'e + 'a \<Rightarrow> ('a \<Rightarrow> 'e + 'b) \<Rightarrow> 'e + 'b" where
  "bindE (Inl e) f = Inl e"
| "bindE (Inr a) f = f a"

lemma bindE_Inr_iff: "bindE x f = Inr y \<longleftrightarrow> (\<exists>a. x = Inr a \<and> f a = Inr y)"
  by (cases x) auto

section \<open>The Mersenne twister\<close>

text \<open>The state is the ring of 312 words and the position of the next output.\<close>

record mt19937_64 =
  mt_words :: "u64 list"
  mt_index :: nat

fun mt_seed_words :: "nat \<Rightarrow> u64 \<Rightarrow> nat \<Rightarrow> u64 list" where
  "mt_seed_words 0 x i = []"
| "mt_seed_words (Suc n) x i =
     (let x' = 6364136223846793005 * (x XOR drop_bit 62 x) + of_nat i
      in x' # mt_seed_words n x' (Suc i))"

definition mt_seed :: "u64 \<Rightarrow> mt19937_64" where
  "mt_seed seed = \<lparr>mt_words = seed # mt_seed_words 311 seed 1, mt_index = 312\<rparr>"

definition mt_mix :: "u64 \<Rightarrow> u64 \<Rightarrow> u64 \<Rightarrow> u64" where
  "mt_mix cur nxt far =
     (let y = (cur AND 0xFFFFFFFF80000000) OR (nxt AND 0x7FFFFFFF)
      in far XOR drop_bit 1 y XOR (if bit y 0 then 0xB5026F5AA96619E9 else 0))"

definition mt_twist :: "u64 list \<Rightarrow> u64 list" where
  "mt_twist ws = fold (\<lambda>i v. v[i := mt_mix (v ! i) (v ! ((i + 1) mod 312)) (v ! ((i + 156) mod 312))]) [0..<312] ws"

definition mt_temper :: "u64 \<Rightarrow> u64" where
  "mt_temper z =
     (let z1 = z XOR (drop_bit 29 z AND 0x5555555555555555);
          z2 = z1 XOR (push_bit 17 z1 AND 0x71D67FFFEDA60000);
          z3 = z2 XOR (push_bit 37 z2 AND 0xFFF7EEE000000000)
      in z3 XOR drop_bit 43 z3)"

definition mt_next :: "mt19937_64 \<Rightarrow> u64 \<times> mt19937_64" where
  "mt_next s =
     (let s' = (if mt_index s \<ge> 312 then \<lparr>mt_words = mt_twist (mt_words s), mt_index = 0\<rparr> else s)
      in (mt_temper (mt_words s' ! mt_index s'), s'\<lparr>mt_index := Suc (mt_index s')\<rparr>))"

section \<open>Choices\<close>

partial_function (option) draw_below :: "('r \<Rightarrow> u64 \<times> 'r) \<Rightarrow> u64 \<Rightarrow> 'r \<Rightarrow> (u64 \<times> 'r) option" where
  "draw_below rng secureMax s =
     (case rng s of (x, s') \<Rightarrow> if secureMax \<le> x then draw_below rng secureMax s' else Some (x, s'))"

declare draw_below.simps [code]

definition uniform_distribution_portable :: "('r \<Rightarrow> u64 \<times> 'r) \<Rightarrow> 'r \<Rightarrow> u64 \<Rightarrow> swarm_error + (u64 \<times> 'r)" where
  "uniform_distribution_portable rng s n =
     (if n = 0 then Inl AssertFailed
      else let secureMax = U64_MAX - U64_MAX mod n
           in case draw_below rng secureMax s of
                None \<Rightarrow> Inl Diverges
              | Some (x, s') \<Rightarrow> Inr (x div (secureMax div n), s'))"

definition swap_at :: "nat \<Rightarrow> nat \<Rightarrow> 'a list \<Rightarrow> 'a list" where
  "swap_at i j xs = xs[i := xs ! j, j := xs ! i]"

text \<open>\<^verbatim>\<open>shuffle_loop rng n i xs s\<close> runs the \<^verbatim>\<open>n\<close> iterations that are left, from index \<^verbatim>\<open>i\<close>.\<close>

fun shuffle_loop :: "('r \<Rightarrow> u64 \<times> 'r) \<Rightarrow> nat \<Rightarrow> nat \<Rightarrow> 'a list \<Rightarrow> 'r \<Rightarrow> swarm_error + 'a list" where
  "shuffle_loop rng 0 i xs s = Inr xs"
| "shuffle_loop rng (Suc n) i xs s =
     bindE (uniform_distribution_portable rng s (of_nat (i + 1)))
       (\<lambda>(j, s'). shuffle_loop rng n (Suc i) (swap_at i (unat j) xs) s')"

definition shuffle_portable :: "(u64 \<Rightarrow> 'r) \<Rightarrow> ('r \<Rightarrow> u64 \<times> 'r) \<Rightarrow> 'a list \<Rightarrow> u64 \<Rightarrow> swarm_error + 'a list" where
  "shuffle_portable init rng xs seed =
     (if length xs \<le> 1 then Inr xs else shuffle_loop rng (length xs - 1) 1 xs (init seed))"

section \<open>A generator that keeps moving\<close>

fun rng_skip :: "('r \<Rightarrow> u64 \<times> 'r) \<Rightarrow> nat \<Rightarrow> 'r \<Rightarrow> 'r" where
  "rng_skip rng 0 s = s"
| "rng_skip rng (Suc n) s = rng_skip rng n (snd (rng s))"

definition rng_live :: "('r \<Rightarrow> u64 \<times> 'r) \<Rightarrow> bool" where
  "rng_live rng \<longleftrightarrow> (\<forall>s. \<exists>k. fst (rng (rng_skip rng k s)) < 0x8000000000000000)"

lemma draw_below_bound:
  assumes "draw_below rng m s = Some y"
  shows "fst y < m"
  using assms
proof (induction rule: draw_below.raw_induct [rotated, consumes 1])
  case (1 f rng m s y)
  then show ?case by (auto simp: not_le split: prod.splits if_splits) (metis fst_conv)
qed

lemma draw_below_returns:
  "fst (rng (rng_skip rng k s)) < m \<Longrightarrow> \<exists>y. draw_below rng m s = Some y"
proof (induction k arbitrary: s)
  case (Suc k)
  show ?case
    using Suc.IH [of "snd (rng s)"] Suc.prems by (subst draw_below.simps) (auto split: prod.splits)
qed (subst draw_below.simps, auto split: prod.splits)

lemma secure_max:
  fixes n :: u64
  assumes "n \<noteq> 0"
  defines "q \<equiv> unat U64_MAX div unat n"
  shows "unat (U64_MAX - U64_MAX mod n) = unat n * q" "unat ((U64_MAX - U64_MAX mod n) div n) = q"
    "0 < q" "2 ^ 63 \<le> unat n * q"
proof -
  have n: "0 < unat n" "unat n \<le> unat U64_MAX"
    using assms(1) unat_le_u64 [of n] by (simp_all add: unat_gt_0 unat_U64_MAX)
  have le: "U64_MAX mod n \<le> U64_MAX" by simp
  have "unat (U64_MAX - U64_MAX mod n) = unat U64_MAX - unat U64_MAX mod unat n"
    by (subst unat_sub_u64_no_wrap [OF le]) (simp only: unat_mod)
  then show m: "unat (U64_MAX - U64_MAX mod n) = unat n * q"
    by (simp only: q_def minus_mod_eq_mult_div)
  show "unat ((U64_MAX - U64_MAX mod n) div n) = q"
    using n(1) by (simp only: unat_div m) simp
  show q: "0 < q" using n by (simp only: q_def div_greater_zero_iff)
  have "unat U64_MAX mod unat n < unat n" using n(1) by (rule mod_less_divisor)
  moreover have "unat n \<le> unat n * q" using q by simp
  moreover have "unat U64_MAX = unat n * q + unat U64_MAX mod unat n"
    by (simp only: q_def mult_div_mod_eq)
  ultimately have "unat U64_MAX < 2 * (unat n * q)" by linarith
  then show "2 ^ 63 \<le> unat n * q" by (simp add: unat_U64_MAX)
qed

lemma uniform_distribution_portable_returns:
  assumes "rng_live rng" "n \<noteq> 0"
  shows "\<exists>x s'. uniform_distribution_portable rng s n = Inr (x, s') \<and> x < n"
proof -
  note sm = secure_max [OF assms(2)]
  obtain k where "fst (rng (rng_skip rng k s)) < 0x8000000000000000"
    using assms(1) by (auto simp: rng_live_def)
  then have "fst (rng (rng_skip rng k s)) < U64_MAX - U64_MAX mod n"
    using sm(1,4) by (simp add: word_less_nat_alt)
  then obtain x s' where d: "draw_below rng (U64_MAX - U64_MAX mod n) s = Some (x, s')"
    using draw_below_returns by fastforce
  have "unat x < unat n * (unat U64_MAX div unat n)"
    using draw_below_bound [OF d] sm(1) by (simp add: word_less_nat_alt)
  then have "unat x div (unat U64_MAX div unat n) < unat n"
    by (simp add: less_mult_imp_div_less)
  then have "x div ((U64_MAX - U64_MAX mod n) div n) < n"
    by (simp only: word_less_nat_alt unat_div [of x] sm(2))
  then show ?thesis
    using assms(2) d by (simp add: uniform_distribution_portable_def)
qed

lemma uniform_distribution_portable_nat:
  assumes "rng_live rng" "0 < n" "n < 2 ^ 64"
  shows "\<exists>x s'. uniform_distribution_portable rng s (of_nat n) = Inr (x, s') \<and> unat x < n"
proof -
  have n: "unat (of_nat n :: u64) = n" using assms(3) by (simp add: unat_of_nat take_bit_nat_eq_self)
  then have "of_nat n \<noteq> (0 :: u64)" using assms(2) by (metis unat_0 less_irrefl)
  from uniform_distribution_portable_returns [OF assms(1) this] show ?thesis
    using n by (auto simp: word_less_nat_alt)
qed

section \<open>Shuffling\<close>

lemma mset_swap_at: "i < length xs \<Longrightarrow> j < length xs \<Longrightarrow> mset (swap_at i j xs) = mset xs"
  by (simp add: swap_at_def mset_swap)

lemma length_swap_at [simp]: "length (swap_at i j xs) = length xs"
  by (simp add: swap_at_def)

lemma shuffle_loop_permutes:
  assumes "rng_live rng" "i + n = length xs" "length xs < 2 ^ 64"
  shows "\<exists>ys. shuffle_loop rng n i xs s = Inr ys \<and> mset ys = mset xs"
  using assms(2,3)
proof (induction n arbitrary: i xs s)
  case (Suc n)
  have "0 < i + 1" "i + 1 < 2 ^ 64" using Suc.prems by simp_all
  from uniform_distribution_portable_nat [OF assms(1) this, of s]
  obtain j s' where j: "uniform_distribution_portable rng s (of_nat (i + 1)) = Inr (j, s')" "unat j < i + 1"
    by blast
  have len: "i < length xs" "unat j < length xs" using Suc.prems j(2) by simp_all
  have "\<exists>ys. shuffle_loop rng n (Suc i) (swap_at i (unat j) xs) s' = Inr ys
      \<and> mset ys = mset (swap_at i (unat j) xs)"
    using Suc.prems by (intro Suc.IH) simp_all
  then show ?case using j(1) by (simp add: mset_swap_at [OF len] del: of_nat_Suc of_nat_add)
qed simp

lemma shuffle_portable_returns:
  assumes "rng_live rng" "length xs < 2 ^ 64"
  shows "\<exists>ys. shuffle_portable init rng xs seed = Inr ys \<and> mset ys = mset xs"
proof (cases "length xs \<le> 1")
  case False
  then show ?thesis
    using shuffle_loop_permutes [OF assms(1) _ assms(2), of 1 "length xs - 1"]
    by (simp add: shuffle_portable_def)
qed (simp add: shuffle_portable_def)

text \<open>
  C34. Shuffling returns for every seed whenever the generator is live, and the result is a
  permutation of the input: no element is lost, repeated or invented.
\<close>

theorem shuffle_portable_permutes:
  assumes "rng_live rng" "length xs < 2 ^ 64"
  shows "\<exists>ys. shuffle_portable init rng xs seed = Inr ys \<and> mset ys = mset xs"
  using assms by (rule shuffle_portable_returns)

text \<open>The shortest live generator counts its state up by one.\<close>

lemma rng_skip_counter: "rng_skip (\<lambda>s. (s, s + 1)) k (s :: u64) = s + of_nat k"
  by (induction k arbitrary: s) (simp_all add: add.assoc)

lemma rng_live_counter: "rng_live (\<lambda>s :: u64. (s, s + 1))"
  unfolding rng_live_def
proof
  fix s :: u64
  have "s + of_nat (unat (- s)) = 0" by simp
  then show "\<exists>k. fst ((\<lambda>s. (s, s + 1)) (rng_skip (\<lambda>s :: u64. (s, s + 1)) k s)) < 0x8000000000000000"
    by (intro exI [of _ "unat (- s)"]) (simp add: rng_skip_counter)
qed

theorem shuffle_portable_permutes_witness:
  "\<exists>ys. shuffle_portable id (\<lambda>s :: u64. (s, s + 1)) [10 :: nat, 20, 30] 7 = Inr ys \<and> mset ys = {#10, 20, 30#}"
  using shuffle_portable_permutes [OF rng_live_counter, of "[10 :: nat, 20, 30]" id 7] by simp

end
