(* ===== verification/Framepix_Swarm.thy ===== *)
theory Framepix_Swarm
  imports Framepix_Rules Random_Portable
begin

text \<open>
  The assignment of nodes to swarms, \<^verbatim>\<open>src/src/cryptonote_core/frame_pix_swarm.cpp\<close>. The
  \<^verbatim>\<open>std::map\<close> from swarm ids to the public keys of their nodes is an association list kept in
  the order of the ids. The random generator and \<^verbatim>\<open>std::sort\<close> are arguments: the sort compares
  sizes only, so the order it gives swarms of the same size is the library's choice. A failing
  \<^verbatim>\<open>at\<close> is \<^term>\<open>Inl OutOfRange\<close>.

  The theorems: a new swarm id is fresh; recomputing the swarms loses no node, invents none and
  leaves no swarm below the minimum size; and two states in which the code does not do that.
\<close>

section \<open>The map of swarms\<close>

type_synonym swarm_snode_map_t = "(u64 \<times> pod32 list) list"
type_synonym 'r rng = "'r \<Rightarrow> u64 \<times> 'r"
type_synonym size_sort = "(u64 \<times> nat) list \<Rightarrow> (u64 \<times> nat) list"

definition swarm_insert :: "u64 \<Rightarrow> pod32 list \<Rightarrow> swarm_snode_map_t \<Rightarrow> swarm_snode_map_t" where
  "swarm_insert k v m = (if k \<in> set (map fst m) then m else insort_key fst (k, v) m)"

definition swarm_erase :: "u64 \<Rightarrow> swarm_snode_map_t \<Rightarrow> swarm_snode_map_t" where
  "swarm_erase k m = filter (\<lambda>e. fst e \<noteq> k) m"

definition swarm_update :: "u64 \<Rightarrow> (pod32 list \<Rightarrow> pod32 list) \<Rightarrow> swarm_snode_map_t \<Rightarrow> swarm_snode_map_t" where
  "swarm_update k f m = map (\<lambda>e. if fst e = k then (k, f (snd e)) else e) m"

definition swarm_nodes :: "swarm_snode_map_t \<Rightarrow> pod32 list" where
  "swarm_nodes m = concat (map snd m)"

section \<open>Choosing an id\<close>

definition SWARM_MAX_ID :: u64 where
  "SWARM_MAX_ID = U64_MAX - 1"

text \<open>The loop over neighbouring ids: the widest gap and the index of its left end.\<close>

fun widest_gap :: "nat \<Rightarrow> u64 list \<Rightarrow> u64 \<times> nat \<Rightarrow> u64 \<times> nat" where
  "widest_gap idx (a # b # ids) (max_dist, best_idx) =
     widest_gap (Suc idx) (b # ids)
       (let dist = b - a in if dist > max_dist then (dist, idx) else (max_dist, best_idx))"
| "widest_gap idx _ acc = acc"

definition get_new_swarm_id :: "swarm_snode_map_t \<Rightarrow> u64" where
  "get_new_swarm_id swarm_to_snodes =
     (if swarm_to_snodes = [] then 0
      else if length swarm_to_snodes = 1 then SWARM_MAX_ID div 2
      else
        let all_ids = sort (map fst swarm_to_snodes);
            (max_dist, best_idx) = widest_gap 0 all_ids (0, 0);
            dist = SWARM_MAX_ID - last all_ids + hd all_ids + 1;
            (max_dist, best_idx) =
              (if dist > max_dist then (dist, length all_ids - 1) else (max_dist, best_idx));
            diff = max_dist div 2;
            to_max = SWARM_MAX_ID - all_ids ! best_idx
        in if diff > to_max then diff - to_max - 1
           else all_ids ! best_idx + diff)"

section \<open>Excess\<close>

definition calc_excess :: "swarm_snode_map_t \<Rightarrow> nat" where
  "calc_excess swarm_to_snodes =
     (\<Sum>e\<leftarrow>swarm_to_snodes. nat (max (int (length (snd e)) - int EXCESS_BASE) 0))"

definition calc_threshold :: "swarm_snode_map_t \<Rightarrow> nat" where
  "calc_threshold swarm_to_snodes = NEW_SWARM_SIZE + length swarm_to_snodes * IDEAL_SWARM_MARGIN"

definition pick_from_excess_pool :: "'r rng \<Rightarrow> (pod32 \<times> u64) list \<Rightarrow> 'r \<Rightarrow> swarm_error + ((pod32 \<times> u64) \<times> 'r)" where
  "pick_from_excess_pool rng excess_pool mt =
     bindE (uniform_distribution_portable rng mt (of_nat (length excess_pool)))
       (\<lambda>(idx, mt'). if unat idx < length excess_pool then Inr (excess_pool ! unat idx, mt') else Inl OutOfRange)"

definition remove_excess_snode_from_swarm :: "pod32 \<times> u64 \<Rightarrow> swarm_snode_map_t \<Rightarrow> swarm_error + swarm_snode_map_t" where
  "remove_excess_snode_from_swarm excess_snode swarm_to_snodes =
     (case excess_snode of (public_key, swarm_id) \<Rightarrow>
       if swarm_id \<in> set (map fst swarm_to_snodes)
       then Inr (swarm_update swarm_id (filter (\<lambda>k. k \<noteq> public_key)) swarm_to_snodes)
       else Inl OutOfRange)"

text \<open>
  The pool and the excess. Below the minimum size the code leaves the excess unset; its callers
  never ask for that, and the value here is zero.
\<close>

definition get_excess_pool :: "nat \<Rightarrow> swarm_snode_map_t \<Rightarrow> (pod32 \<times> u64) list \<times> nat" where
  "get_excess_pool threshold swarm_to_snodes =
     (if threshold < MIN_SWARM_SIZE then ([], 0)
      else
        let rich = filter (\<lambda>e. length (snd e) > threshold) swarm_to_snodes
        in (concat (map (\<lambda>e. map (\<lambda>sn_pk. (sn_pk, fst e)) (snd e)) rich),
            \<Sum>e\<leftarrow>rich. length (snd e) - MIN_SWARM_SIZE))"

text \<open>
  The inner loop of \<^verbatim>\<open>create_new_swarm_from_excess\<close> adds one node per iteration. \<^const>\<open>None\<close> is the
  early return on an empty pool, which leaves the nodes taken so far outside the map.
\<close>

fun collect_excess :: "'r rng \<Rightarrow> nat \<Rightarrow> pod32 list \<Rightarrow> swarm_snode_map_t \<Rightarrow> 'r
    \<Rightarrow> swarm_error + (pod32 list option \<times> swarm_snode_map_t \<times> 'r)" where
  "collect_excess rng 0 new_swarm_snodes m mt = Inr (Some new_swarm_snodes, m, mt)"
| "collect_excess rng (Suc n) new_swarm_snodes m mt =
     (let pool_snodes = fst (get_excess_pool EXCESS_BASE m)
      in if length pool_snodes = 0 then Inr (None, m, mt)
         else bindE (pick_from_excess_pool rng pool_snodes mt)
           (\<lambda>(sn, mt'). bindE (remove_excess_snode_from_swarm sn m)
             (\<lambda>m'. collect_excess rng n (new_swarm_snodes @ [fst sn]) m' mt')))"

lemma get_excess_pool_mem:
  "(k, i) \<in> set (fst (get_excess_pool t m)) \<longleftrightarrow>
     MIN_SWARM_SIZE \<le> t \<and> (\<exists>v. (i, v) \<in> set m \<and> k \<in> set v \<and> t < length v)"
  by (auto simp: get_excess_pool_def Let_def not_less image_iff)

lemma pick_from_excess_pool_mem:
  "pick_from_excess_pool rng pool mt = Inr (sn, mt') \<Longrightarrow> sn \<in> set pool"
  by (auto simp: pick_from_excess_pool_def bindE_Inr_iff split: if_splits)

lemma calc_excess_alt: "calc_excess m = (\<Sum>e\<leftarrow>m. length (snd e) - 5)"
proof -
  have "nat (max (int n - int 5) 0) = n - 5" for n :: nat by (simp add: max_def nat_diff_distrib)
  then show ?thesis by (simp add: calc_excess_def)
qed

lemma sum_list_strict_mono_one:
  fixes f g :: "'a \<Rightarrow> nat"
  assumes "x \<in> set xs" "f x < g x" "\<And>y. y \<in> set xs \<Longrightarrow> f y \<le> g y"
  shows "sum_list (map f xs) < sum_list (map g xs)"
  using assms
proof (induction xs)
  case (Cons a xs)
  have le: "sum_list (map f xs) \<le> sum_list (map g xs)" by (rule sum_list_mono) (simp add: Cons.prems(3))
  show ?case
  proof (cases "x = a")
    case True
    then show ?thesis using le Cons.prems(2) by simp
  next
    case False
    then have "sum_list (map f xs) < sum_list (map g xs)"
      using Cons.prems by (intro Cons.IH) simp_all
    then show ?thesis using Cons.prems(3) [of a] by (simp add: add_le_less_mono)
  qed
qed simp

lemma filter_neq_shorter: "k \<in> set v \<Longrightarrow> length (filter (\<lambda>x. x \<noteq> k) v) < length v"
  by (induction v) (auto simp: less_Suc_eq_le intro: le_imp_less_Suc)

lemma calc_excess_remove_less:
  assumes "(k, i) \<in> set (fst (get_excess_pool EXCESS_BASE m))"
    "remove_excess_snode_from_swarm (k, i) m = Inr m'"
  shows "calc_excess m' < calc_excess m"
proof -
  obtain v where v: "(i, v) \<in> set m" "k \<in> set v" "5 < length v"
    using assms(1) by (auto simp: get_excess_pool_mem)
  have m': "m' = map (\<lambda>e. if fst e = i then (i, filter (\<lambda>x. x \<noteq> k) (snd e)) else e) m"
    using assms(2) by (auto simp: remove_excess_snode_from_swarm_def swarm_update_def split: if_splits)
  have shorter: "length (filter (\<lambda>x. x \<noteq> k) v) - 5 < length v - 5"
    using filter_neq_shorter [OF v(2)] v(3) by simp
  show ?thesis
    unfolding calc_excess_alt m' map_map o_def
    by (rule sum_list_strict_mono_one [OF v(1)]) (auto simp: shorter intro: diff_le_mono)
qed

lemma collect_excess_decreases:
  "collect_excess rng n ns m mt = Inr (Some ns', m', mt') \<Longrightarrow>
    calc_excess m' + n \<le> calc_excess m \<and> length ns' = length ns + n"
proof (induction n arbitrary: ns m mt)
  case (Suc n)
  obtain k i m1 mt1 where step: "pick_from_excess_pool rng (fst (get_excess_pool EXCESS_BASE m)) mt = Inr ((k, i), mt1)"
    "remove_excess_snode_from_swarm (k, i) m = Inr m1"
    "collect_excess rng n (ns @ [k]) m1 mt1 = Inr (Some ns', m', mt')"
    using Suc.prems by (auto simp: Let_def bindE_Inr_iff split: if_splits)
  have "calc_excess m1 < calc_excess m"
    by (rule calc_excess_remove_less [OF pick_from_excess_pool_mem [OF step(1)] step(2)])
  then show ?case using Suc.IH [OF step(3)] by simp
qed simp

lemma sum_list_insort_key: "(\<Sum>e\<leftarrow>insort_key g x xs. f e) = f x + (\<Sum>e\<leftarrow>xs. f e :: nat)"
  by (induction xs) simp_all

lemma calc_excess_insert: "calc_excess (swarm_insert k v m) \<le> calc_excess m + (length v - 5)"
  by (simp add: swarm_insert_def calc_excess_alt sum_list_insort_key)

lemma new_swarm_excess_less:
  assumes "collect_excess rng NEW_SWARM_SIZE [] m mt = Inr (Some ns, m', mt')"
  shows "calc_excess (swarm_insert k ns m') < calc_excess m"
  using collect_excess_decreases [OF assms] calc_excess_insert [of k ns m'] by simp

text \<open>
  The outer loop. Every round moves seven nodes out of the excess and puts at most two back
  into it, so the excess decreases and the loop ends.
\<close>

function create_swarm_loop :: "'r rng \<Rightarrow> swarm_snode_map_t \<Rightarrow> 'r \<Rightarrow> swarm_error + (swarm_snode_map_t \<times> 'r)" where
  "create_swarm_loop rng m mt =
     (if calc_excess m \<ge> calc_threshold m
      then case collect_excess rng NEW_SWARM_SIZE [] m mt of
             Inl e \<Rightarrow> Inl e
           | Inr (None, m', mt') \<Rightarrow> Inr (m', mt')
           | Inr (Some new_swarm_snodes, m', mt') \<Rightarrow>
               create_swarm_loop rng (swarm_insert (get_new_swarm_id m') new_swarm_snodes m') mt'
      else Inr (m, mt))"
  by pat_completeness auto
termination
  by (relation "measure (\<lambda>(rng, m, mt). calc_excess m)") (auto dest: new_swarm_excess_less)

declare create_swarm_loop.simps [simp del]

definition create_new_swarm_from_excess :: "'r rng \<Rightarrow> swarm_snode_map_t \<Rightarrow> 'r \<Rightarrow> swarm_error + (swarm_snode_map_t \<times> 'r)" where
  "create_new_swarm_from_excess rng swarm_to_snodes mt =
     (let has_starving_swarms = list_ex (\<lambda>e. length (snd e) < MIN_SWARM_SIZE) swarm_to_snodes
      in if has_starving_swarms then Inr (swarm_to_snodes, mt)
         else create_swarm_loop rng swarm_to_snodes mt)"

section \<open>Assigning nodes\<close>

definition calc_swarm_sizes :: "size_sort \<Rightarrow> swarm_snode_map_t \<Rightarrow> (u64 \<times> nat) list" where
  "calc_swarm_sizes srt swarm_to_snodes = srt (map (\<lambda>e. (fst e, length (snd e))) swarm_to_snodes)"

definition upper_index :: "(u64 \<times> nat) list \<Rightarrow> nat \<Rightarrow> nat \<Rightarrow> nat" where
  "upper_index sorted_swarm_sizes percentile_index percentile_value =
     (case find (\<lambda>i. snd (sorted_swarm_sizes ! i) > percentile_value) [percentile_index..<length sorted_swarm_sizes] of
        Some i \<Rightarrow> i - 1
      | None \<Rightarrow> length sorted_swarm_sizes - 1)"

text \<open>
  The body of the loop of \<^verbatim>\<open>assign_snodes\<close>. On an empty map the size minus one wraps around, and
  \<^verbatim>\<open>at\<close> throws whatever the percentile.
\<close>

definition assign_snode :: "'r rng \<Rightarrow> size_sort \<Rightarrow> nat \<Rightarrow> pod32 \<Rightarrow> swarm_snode_map_t \<Rightarrow> 'r
    \<Rightarrow> swarm_error + (swarm_snode_map_t \<times> 'r)" where
  "assign_snode rng srt percentile sn_pk m mt =
     (let sorted_swarm_sizes = calc_swarm_sizes srt m;
          percentile_index = percentile * (length sorted_swarm_sizes - 1) div 100
      in if length sorted_swarm_sizes \<le> percentile_index then Inl OutOfRange
         else
           let percentile_value = snd (sorted_swarm_sizes ! percentile_index);
               upper = upper_index sorted_swarm_sizes percentile_index percentile_value
           in bindE (uniform_distribution_portable rng mt (of_nat (upper + 1)))
             (\<lambda>(random_idx, mt').
               let swarm_id = fst (sorted_swarm_sizes ! unat random_idx)
               in if swarm_id \<in> set (map fst m)
                  then create_new_swarm_from_excess rng (swarm_update swarm_id (\<lambda>v. v @ [sn_pk]) m) mt'
                  else Inl OutOfRange))"

fun assign_snodes :: "'r rng \<Rightarrow> size_sort \<Rightarrow> nat \<Rightarrow> pod32 list \<Rightarrow> swarm_snode_map_t \<Rightarrow> 'r
    \<Rightarrow> swarm_error + (swarm_snode_map_t \<times> 'r)" where
  "assign_snodes rng srt percentile [] m mt = Inr (m, mt)"
| "assign_snodes rng srt percentile (sn_pk # sns) m mt =
     bindE (assign_snode rng srt percentile sn_pk m mt)
       (\<lambda>(m', mt'). assign_snodes rng srt percentile sns m' mt')"

section \<open>The Robin Hood round\<close>

text \<open>
  The \<^verbatim>\<open>do\<close> loop that fills one poor swarm; the first component of the result is
  \<^verbatim>\<open>insufficient_excess\<close>. Each iteration adds a node to a swarm of fewer than five, so five
  units of fuel are enough. The subtractions wrap around as they do on \<^verbatim>\<open>size_t\<close>.
\<close>

definition size_minus :: "nat \<Rightarrow> nat \<Rightarrow> nat" where
  "size_minus a b = (if b \<le> a then a - b else 2 ^ 64 + a - b)"

primrec steal_loop :: "'r rng \<Rightarrow> nat \<Rightarrow> (u64 \<times> nat) list \<Rightarrow> u64 \<Rightarrow> swarm_snode_map_t \<Rightarrow> 'r
    \<Rightarrow> swarm_error + (bool \<times> swarm_snode_map_t \<times> 'r)" where
  "steal_loop rng 0 sorted_swarm_sizes swarm_id m mt = Inl Diverges"
| "steal_loop rng (Suc fuel) sorted_swarm_sizes swarm_id m mt =
     (case map_of m swarm_id of
        None \<Rightarrow> Inl OutOfRange
      | Some poor_swarm_snodes \<Rightarrow>
          let percentile_index = STEALING_SWARM_UPPER_PERCENTILE * (length sorted_swarm_sizes - 1) div 100;
              percentile_value = max MIN_SWARM_SIZE (size_minus (snd (sorted_swarm_sizes ! percentile_index)) 1);
              (excess_pool, excess) = get_excess_pool percentile_value m;
              deficit = size_minus MIN_SWARM_SIZE (length poor_swarm_snodes);
              insufficient_excess = (excess < deficit)
          in if insufficient_excess then Inr (True, m, mt)
             else bindE (pick_from_excess_pool rng excess_pool mt)
               (\<lambda>(sn, mt'). bindE (remove_excess_snode_from_swarm sn m)
                 (\<lambda>m'. let m'' = swarm_update swarm_id (\<lambda>v. v @ [fst sn]) m'
                       in if length (the (map_of m'' swarm_id)) < MIN_SWARM_SIZE
                          then steal_loop rng fuel sorted_swarm_sizes swarm_id m'' mt'
                          else Inr (False, m'', mt'))))"

fun robin_hood :: "'r rng \<Rightarrow> (u64 \<times> nat) list \<Rightarrow> (u64 \<times> nat) list \<Rightarrow> swarm_snode_map_t \<Rightarrow> 'r
    \<Rightarrow> swarm_error + (swarm_snode_map_t \<times> 'r)" where
  "robin_hood rng sorted_swarm_sizes [] m mt = Inr (m, mt)"
| "robin_hood rng sorted_swarm_sizes (swarm # swarms) m mt =
     (if snd swarm \<ge> MIN_SWARM_SIZE then Inr (m, mt)
      else bindE (steal_loop rng MIN_SWARM_SIZE sorted_swarm_sizes (fst swarm) m mt)
        (\<lambda>(insufficient_excess, m', mt').
          if insufficient_excess then Inr (m', mt')
          else robin_hood rng sorted_swarm_sizes swarms m' mt'))"

section \<open>Recomputing the swarms\<close>

text \<open>
  The \<^verbatim>\<open>while (true)\<close> loop of step 4. Redistributing a swarm can only make a new one when no swarm
  is starving any more, so one unit of fuel per swarm, and one to see that none is left, is enough.
\<close>

primrec decommission_loop :: "'r rng \<Rightarrow> size_sort \<Rightarrow> nat \<Rightarrow> swarm_snode_map_t \<Rightarrow> 'r
    \<Rightarrow> swarm_error + (swarm_snode_map_t \<times> 'r)" where
  "decommission_loop rng srt 0 m mt = Inl Diverges"
| "decommission_loop rng srt (Suc fuel) m mt =
     (case find (\<lambda>e. length (snd e) < MIN_SWARM_SIZE) m of
        None \<Rightarrow> Inr (m, mt)
      | Some (swarm_id, decommissioned_snodes) \<Rightarrow>
          bindE (assign_snodes rng srt DECOMMISSIONED_REDISTRIBUTION_LOWER_PERCENTILE
                   decommissioned_snodes (swarm_erase swarm_id m) mt)
            (\<lambda>(m', mt'). decommission_loop rng srt fuel m' mt'))"

definition calc_swarm_changes :: "(u64 \<Rightarrow> 'r) \<Rightarrow> 'r rng \<Rightarrow> size_sort \<Rightarrow> swarm_snode_map_t \<Rightarrow> u64
    \<Rightarrow> swarm_error + swarm_snode_map_t" where
  "calc_swarm_changes init rng srt swarm_to_snodes seed =
     (if swarm_to_snodes = [] then Inr []
      else
        let mersenne_twister = init seed;
            unassigned_snodes = (case map_of swarm_to_snodes UNASSIGNED_SWARM_ID of None \<Rightarrow> [] | Some sns \<Rightarrow> sns);
            m = swarm_erase UNASSIGNED_SWARM_ID swarm_to_snodes;
            m = (if m = [] then swarm_insert (get_new_swarm_id []) [] m else m)
        in bindE (assign_snodes rng srt FILL_SWARM_LOWER_PERCENTILE unassigned_snodes m mersenne_twister)
          (\<lambda>(m, mt). let sorted_swarm_sizes = calc_swarm_sizes srt m
            in bindE (robin_hood rng sorted_swarm_sizes sorted_swarm_sizes m mt)
              (\<lambda>(m, mt). bindE (create_new_swarm_from_excess rng m mt)
                (\<lambda>(m, mt). if length m > 1
                  then bindE (decommission_loop rng srt (Suc (length m)) m mt) (\<lambda>(m, mt). Inr m)
                  else Inr m))))"

section \<open>A new id is fresh\<close>

text \<open>The gaps of the loop, and the bound on the widest of them.\<close>

lemma widest_gap_spec:
  assumes "sorted_wrt (<) ids" "ids \<noteq> []" "widest_gap i ids (d, b) = (d', b')"
  shows "d \<le> d'" "\<forall>j. Suc j < length ids \<longrightarrow> unat (ids ! Suc j) - unat (ids ! j) \<le> unat d'"
    "(d', b') = (d, b) \<or> (\<exists>j. Suc j < length ids \<and> b' = i + j \<and> unat d' = unat (ids ! Suc j) - unat (ids ! j))"
proof -
  have "d \<le> d' \<and> (\<forall>j. Suc j < length ids \<longrightarrow> unat (ids ! Suc j) - unat (ids ! j) \<le> unat d') \<and>
    ((d', b') = (d, b) \<or> (\<exists>j. Suc j < length ids \<and> b' = i + j \<and> unat d' = unat (ids ! Suc j) - unat (ids ! j)))"
    using assms
  proof (induction ids arbitrary: i d b)
    case (Cons x xs)
    show ?case
    proof (cases xs)
      case Nil
      then show ?thesis using Cons.prems by simp
    next
      case (Cons y ys)
      have xy: "unat (y - x) = unat y - unat x"
        using Cons.prems(1) Cons by (intro unat_sub_u64_no_wrap) (auto intro: less_imp_le)
      obtain d1 b1 where db: "(if y - x > d then (y - x, i) else (d, b)) = (d1, b1)" by fastforce
      have step: "widest_gap (Suc i) xs (d1, b1) = (d', b')"
        using Cons.prems(3) by (simp add: Cons db Let_def)
      have ih: "d1 \<le> d'" "\<forall>j. Suc j < length xs \<longrightarrow> unat (xs ! Suc j) - unat (xs ! j) \<le> unat d'"
        "(d', b') = (d1, b1) \<or> (\<exists>j. Suc j < length xs \<and> b' = Suc i + j \<and> unat d' = unat (xs ! Suc j) - unat (xs ! j))"
        using Cons.IH [OF _ _ step] Cons.prems(1) Cons by simp_all
      have d1: "d \<le> d1" "y - x \<le> d1" "(d1, b1) = (d, b) \<or> d1 = y - x \<and> b1 = i"
        using db by (auto split: if_splits)
      have "unat ((x # xs) ! Suc j) - unat ((x # xs) ! j) \<le> unat d'" if "Suc j < length (x # xs)" for j
      proof (cases j)
        case 0
        have "y - x \<le> d'" using d1(2) ih(1) by (rule order_trans)
        then have "unat (y - x) \<le> unat d'" by (simp only: word_le_nat_alt)
        then show ?thesis by (simp add: 0 Cons xy)
      next
        case (Suc n)
        then show ?thesis using ih(2) that by simp
      qed
      moreover have "(d', b') = (d, b) \<or>
          (\<exists>j. Suc j < length (x # xs) \<and> b' = i + j \<and> unat d' = unat ((x # xs) ! Suc j) - unat ((x # xs) ! j))"
        using ih(3)
      proof
        assume eq: "(d', b') = (d1, b1)"
        from d1(3) show ?thesis
        proof
          assume "d1 = y - x \<and> b1 = i"
          then show ?thesis using eq xy Cons by (intro disjI2 exI [of _ 0]) simp
        qed (simp add: eq)
      next
        assume "\<exists>j. Suc j < length xs \<and> b' = Suc i + j \<and> unat d' = unat (xs ! Suc j) - unat (xs ! j)"
        then obtain j where "Suc j < length xs" "b' = Suc i + j" "unat d' = unat (xs ! Suc j) - unat (xs ! j)" by blast
        then show ?thesis by (intro disjI2 exI [of _ "Suc j"]) simp
      qed
      moreover have "d \<le> d'" using d1(1) ih(1) by (rule order_trans)
      ultimately show ?thesis by blast
    qed
  qed simp
  then show "d \<le> d'" "\<forall>j. Suc j < length ids \<longrightarrow> unat (ids ! Suc j) - unat (ids ! j) \<le> unat d'"
    "(d', b') = (d, b) \<or> (\<exists>j. Suc j < length ids \<and> b' = i + j \<and> unat d' = unat (ids ! Suc j) - unat (ids ! j))"
    by blast+
qed

text \<open>If no gap is wider than one, the last id is at most the first plus their number.\<close>

lemma narrow_gaps_last:
  fixes ids :: "u64 list"
  assumes "\<forall>j. Suc j < length ids \<longrightarrow> unat (ids ! Suc j) - unat (ids ! j) \<le> 1" "ids \<noteq> []"
  shows "unat (last ids) \<le> unat (hd ids) + (length ids - 1)"
  using assms
proof (induction ids)
  case (Cons x xs)
  show ?case
  proof (cases xs)
    case (Cons y ys)
    have "unat (last xs) \<le> unat (hd xs) + (length xs - 1)"
      using Cons.IH Cons.prems(1) Cons by (metis Suc_less_eq length_Cons list.distinct(1) nth_Cons_Suc)
    moreover have "unat y - unat x \<le> 1" using Cons.prems(1) Cons by fastforce
    ultimately show ?thesis by (simp add: Cons)
  qed simp
qed simp

lemma sorted_wrt_between:
  fixes ids :: "u64 list"
  assumes "sorted_wrt (<) ids" "Suc j < length ids" "ids ! j < x" "x < ids ! Suc j"
  shows "x \<notin> set ids"
proof
  assume "x \<in> set ids"
  then obtain k where k: "k < length ids" "ids ! k = x" by (metis in_set_conv_nth)
  have sorted: "a < b \<Longrightarrow> b < length ids \<Longrightarrow> ids ! a < ids ! b" for a b
    using assms(1) by (rule sorted_wrt_nth_less)
  consider "k < j" | "k = j" | "k = Suc j" | "Suc j < k" by linarith
  then show False
    by cases (use k assms(2-) sorted [of k j] sorted [of "Suc j" k] in auto)
qed

lemma sorted_wrt_hd_last:
  fixes ids :: "u64 list"
  assumes "sorted_wrt (<) ids" "x \<in> set ids"
  shows "hd ids \<le> x" "x \<le> last ids"
  using assms by (induction ids) (auto intro: less_imp_le)

lemma SWARM_MAX_ID_unat: "unat SWARM_MAX_ID = 18446744073709551614"
  by (simp add: SWARM_MAX_ID_def)

text \<open>
  With at least two swarms, the id that \<^const>\<open>get_new_swarm_id\<close> chooses is not the id of an
  existing swarm and is not the id reserved for unassigned nodes.
\<close>

lemma get_new_swarm_id_fresh:
  assumes "sorted_wrt (<) (map fst m)" "UNASSIGNED_SWARM_ID \<notin> set (map fst m)"
    "2 \<le> length m" "length m < 2 ^ 63"
  shows "get_new_swarm_id m \<notin> set (map fst m) \<and> get_new_swarm_id m \<noteq> UNASSIGNED_SWARM_ID"
proof -
  define ids where "ids = map fst m"
  have sorted: "sorted_wrt (<) ids" and ne: "ids \<noteq> []" "length ids = length m"
    using assms(1,3) by (auto simp: ids_def)
  have sort: "sort ids = ids" using sorted by (simp add: sorted_sort_id strict_sorted_imp_sorted)
  have max: "x \<le> SWARM_MAX_ID" if "x \<in> set ids" for x
  proof -
    have "x \<noteq> U64_MAX" using that assms(2) unfolding ids_def by blast
    then have "unat x \<noteq> 18446744073709551615" by (metis unat_U64_MAX word_unat_eq_iff)
    then show ?thesis using unat_le_u64 [of x] by (simp add: word_le_nat_alt SWARM_MAX_ID_unat)
  qed
  obtain d b where gap: "widest_gap 0 ids (0, 0) = (d, b)" by fastforce
  note spec = widest_gap_spec [OF sorted ne(1) gap]
  define wrap where "wrap = SWARM_MAX_ID - last ids + hd ids + 1"
  have hl: "hd ids \<le> last ids" "last ids \<in> set ids" "hd ids \<in> set ids"
    using sorted_wrt_hd_last(1) [OF sorted, of "last ids"] ne by auto
  have hlt: "hd ids < last ids"
    using sorted ne assms(3) by (cases ids) auto
  have wrap: "unat wrap = 18446744073709551614 - unat (last ids) + unat (hd ids) + 1"
  proof -
    have s: "unat (SWARM_MAX_ID - last ids) = 18446744073709551614 - unat (last ids)"
      using max [OF hl(2)] by (simp add: unat_sub_u64_no_wrap SWARM_MAX_ID_unat)
    have l: "unat (hd ids) < unat (last ids)" "unat (last ids) \<le> 18446744073709551614"
      using hlt max [OF hl(2)] by (simp_all add: word_less_nat_alt word_le_nat_alt SWARM_MAX_ID_unat)
    then show ?thesis unfolding wrap_def by (simp add: unat_add_u64 s)
  qed
  obtain D B where DB: "(if wrap > d then (wrap, length ids - 1) else (d, b)) = (D, B)" by fastforce
  have D: "d \<le> D" "wrap \<le> D" using DB by (auto split: if_splits)
  have two: "2 \<le> unat D"
  proof (rule ccontr)
    assume "\<not> 2 \<le> unat D"
    then have "unat d \<le> 1" "unat wrap \<le> 1" using D by (simp_all add: word_le_nat_alt)
    then have "unat (last ids) \<le> unat (hd ids) + (length ids - 1)"
      using spec(2) ne(1) by (intro narrow_gaps_last) (meson order_trans)+
    moreover have "18446744073709551614 \<le> unat (last ids)" using \<open>unat wrap \<le> 1\<close> wrap by linarith
    moreover have "unat (hd ids) = 0" using \<open>unat wrap \<le> 1\<close> wrap by linarith
    ultimately show False using assms(4) ne(2) by simp
  qed
  have m_size: "(m = []) = False" "(length m = 1) = False" using assms(3) by auto
  define diff where "diff = D div 2"
  have diff: "0 < unat diff" "unat diff < unat D" using two by (simp_all add: diff_def unat_div)
  have id: "get_new_swarm_id m =
      (if diff > SWARM_MAX_ID - ids ! B then diff - (SWARM_MAX_ID - ids ! B) - 1 else ids ! B + diff)"
    using m_size by (simp only: get_new_swarm_id_def ids_def [symmetric] sort gap DB prod.case wrap_def [symmetric]
        diff_def Let_def if_False)
  have inner: "x \<notin> set ids \<and> x \<noteq> U64_MAX"
    if "wrap \<le> d" "x = get_new_swarm_id m" for x
  proof -
    have eq: "D = d" "B = b" using that(1) DB by (simp_all split: if_splits)
    then obtain j where j: "Suc j < length ids" "B = j" "unat D = unat (ids ! Suc j) - unat (ids ! j)"
      using spec(3) two by auto
    have nxt: "unat (ids ! Suc j) \<le> 18446744073709551614"
      using max [of "ids ! Suc j"] j(1) by (simp add: word_le_nat_alt SWARM_MAX_ID_unat)
    have room: "unat (SWARM_MAX_ID - ids ! j) = 18446744073709551614 - unat (ids ! j)"
      using max [of "ids ! j"] j(1) by (simp add: unat_sub_u64_no_wrap SWARM_MAX_ID_unat)
    have "\<not> diff > SWARM_MAX_ID - ids ! B"
      using j nxt diff(2) by (simp add: word_less_nat_alt room)
    then have x: "x = ids ! j + diff" using id that(2) j(2) by simp
    have ux: "unat x = unat (ids ! j) + unat diff"
      unfolding x using j(3) nxt diff(2) by (intro unat_add_u64_no_wrap) simp
    have "x \<notin> set ids"
      using ux j(3) diff by (intro sorted_wrt_between [OF sorted j(1)]) (simp_all add: word_less_nat_alt)
    moreover have "x \<noteq> U64_MAX" using ux j(3) nxt diff(2) by (auto simp: word_unat_eq_iff unat_U64_MAX)
    ultimately show ?thesis by simp
  qed
  have outer: "x \<notin> set ids \<and> x \<noteq> U64_MAX"
    if "d < wrap" "x = get_new_swarm_id m" for x
  proof -
    have eq: "D = wrap" "ids ! B = last ids" using that(1) DB ne(1) by (auto simp: last_conv_nth split: if_splits)
    have l: "unat (hd ids) < unat (last ids)" "unat (last ids) \<le> 18446744073709551614"
      using hlt max [OF hl(2)] by (simp_all add: word_less_nat_alt word_le_nat_alt SWARM_MAX_ID_unat)
    have room: "unat (SWARM_MAX_ID - last ids) = 18446744073709551614 - unat (last ids)"
      using max [OF hl(2)] by (simp add: unat_sub_u64_no_wrap SWARM_MAX_ID_unat)
    have "x < hd ids \<or> last ids < x \<and> x \<noteq> U64_MAX"
    proof (cases "diff > SWARM_MAX_ID - last ids")
      case True
      have y: "unat (diff - (SWARM_MAX_ID - last ids)) = unat diff - unat (SWARM_MAX_ID - last ids)"
        using True by (intro unat_sub_u64_no_wrap) (rule less_imp_le)
      then have "1 \<le> diff - (SWARM_MAX_ID - last ids)"
        using True by (simp add: word_le_nat_alt word_less_nat_alt)
      then have "unat x = unat diff - unat (SWARM_MAX_ID - last ids) - 1"
        using True by (simp add: id eq that(2) unat_sub_u64_no_wrap y)
      moreover have "unat (SWARM_MAX_ID - last ids) < unat diff" using True by (simp add: word_less_nat_alt)
      moreover have "unat diff < 18446744073709551614 - unat (last ids) + unat (hd ids) + 1"
        using diff(2) by (simp only: eq wrap)
      ultimately have "unat x < unat (hd ids)" unfolding room by linarith
      then show ?thesis by (simp add: word_less_nat_alt)
    next
      case False
      have ux: "unat x = unat (last ids) + unat diff"
        using False room l by (simp add: id eq that(2) word_less_nat_alt unat_add_u64)
      then have "last ids < x" using diff(1) by (simp add: word_less_nat_alt)
      moreover have "x \<noteq> U64_MAX" using ux False room l by (auto simp: word_less_nat_alt word_unat_eq_iff unat_U64_MAX)
      ultimately show ?thesis by simp
    qed
    then show ?thesis
      using sorted_wrt_hd_last [OF sorted, of x] unat_le_u64 [of "hd ids"] by (auto simp: not_le [symmetric])
  qed
  show ?thesis
    using inner [OF _ refl] outer [OF _ refl] unfolding ids_def by (meson not_less)
qed

section \<open>The invariant of the map\<close>

definition all_large :: "swarm_snode_map_t \<Rightarrow> bool" where
  "all_large m \<longleftrightarrow> (\<forall>e \<in> set m. MIN_SWARM_SIZE \<le> length (snd e))"

definition swarm_inv :: "swarm_snode_map_t \<Rightarrow> bool" where
  "swarm_inv m \<longleftrightarrow> m \<noteq> [] \<and> sorted_wrt (<) (map fst m) \<and> UNASSIGNED_SWARM_ID \<notin> set (map fst m)
     \<and> distinct (swarm_nodes m) \<and> length (swarm_nodes m) < 2 ^ 63 \<and> length m < 2 ^ 63"

text \<open>
  A lone swarm gets its first companion at half the range of ids, once it has fourteen nodes. A map
  is safe, in a run over \<^term>\<open>n\<close> nodes, if that id is free whenever it may be asked for.
\<close>

definition half_safe :: "nat \<Rightarrow> swarm_snode_map_t \<Rightarrow> bool" where
  "half_safe n m \<longleftrightarrow> n < 14 \<or> SWARM_MAX_ID div 2 \<notin> set (map fst m) \<or> 2 \<le> length m"

text \<open>
  Two swarms of the minimum size, or no swarm above eight nodes: with fourteen nodes or more either of
  them keeps the loop that decommissions swarms from leaving a single swarm.
\<close>

definition large_count :: "swarm_snode_map_t \<Rightarrow> nat" where
  "large_count m = length (filter (\<lambda>e. MIN_SWARM_SIZE \<le> length (snd e)) m)"

definition balanced :: "swarm_snode_map_t \<Rightarrow> bool" where
  "balanced m \<longleftrightarrow> 2 \<le> large_count m \<or> (\<forall>e \<in> set m. length (snd e) \<le> 8)"

definition none_empty :: "swarm_snode_map_t \<Rightarrow> bool" where
  "none_empty m \<longleftrightarrow> (\<forall>e \<in> set m. snd e \<noteq> [])"

definition sorts_by_size :: "size_sort \<Rightarrow> bool" where
  "sorts_by_size srt \<longleftrightarrow> (\<forall>xs. mset (srt xs) = mset xs \<and> sorted (map snd (srt xs)))"

lemma swarm_update_keys [simp]: "map fst (swarm_update k f m) = map fst m"
  by (simp add: swarm_update_def)

lemma swarm_update_length [simp]: "length (swarm_update k f m) = length m"
  by (simp add: swarm_update_def)

lemma swarm_update_Nil_iff [simp]: "swarm_update k f m = [] \<longleftrightarrow> m = []"
  by (simp add: swarm_update_def)

lemma swarm_update_split:
  assumes "sorted_wrt (<) (map fst m)" "(k, v) \<in> set m"
  obtains xs ys where "m = xs @ (k, v) # ys" "swarm_update k f m = xs @ (k, f v) # ys"
    "k \<notin> set (map fst xs)" "k \<notin> set (map fst ys)"
proof -
  obtain xs ys where m: "m = xs @ (k, v) # ys" using assms(2) by (meson split_list)
  have out: "k \<notin> set (map fst xs)" "k \<notin> set (map fst ys)"
    using assms(1) by (auto simp: m sorted_wrt_append)
  then have "map (\<lambda>e. if fst e = k then (k, f (snd e)) else e) xs = xs"
    "map (\<lambda>e. if fst e = k then (k, f (snd e)) else e) ys = ys"
    by (force intro: map_idI)+
  then show ?thesis using that [OF m _ out] by (simp add: m swarm_update_def)
qed

lemma swarm_nodes_append [simp]: "swarm_nodes (xs @ ys) = swarm_nodes xs @ swarm_nodes ys"
  by (simp add: swarm_nodes_def)

lemma swarm_nodes_Cons [simp]: "swarm_nodes (e # xs) = snd e @ swarm_nodes xs"
  by (simp add: swarm_nodes_def)

lemma swarm_nodes_Nil [simp]: "swarm_nodes [] = []"
  by (simp add: swarm_nodes_def)

lemma all_large_simps [simp]:
  "all_large []" "all_large (e # xs) \<longleftrightarrow> 5 \<le> length (snd e) \<and> all_large xs"
  "all_large (xs @ ys) \<longleftrightarrow> all_large xs \<and> all_large ys"
  by (auto simp: all_large_def)

lemma large_count_simps [simp]:
  "large_count [] = 0" "large_count (e # xs) = (if 5 \<le> length (snd e) then 1 else 0) + large_count xs"
  "large_count (xs @ ys) = large_count xs + large_count ys"
  by (simp_all add: large_count_def)

lemma all_large_count: "all_large m \<Longrightarrow> large_count m = length m"
  by (induction m) auto

lemma all_large_none_empty: "all_large m \<Longrightarrow> none_empty m"
  by (auto simp: all_large_def none_empty_def)

lemma large_count_update:
  assumes "sorted_wrt (<) (map fst m)" "(k, v) \<in> set m" "5 \<le> length v \<Longrightarrow> 5 \<le> length (f v)"
  shows "large_count m \<le> large_count (swarm_update k f m)"
proof -
  obtain xs ys where "m = xs @ (k, v) # ys" "swarm_update k f m = xs @ (k, f v) # ys"
    using swarm_update_split [OF assms(1,2), of f] by metis
  then show ?thesis using assms(3) by simp
qed

lemma mset_distinct_eq: "mset xs = mset ys \<Longrightarrow> distinct xs \<longleftrightarrow> distinct ys"
  by (rule mset_eq_imp_distinct_iff)

lemma filter_neq_mset:
  assumes "distinct v" "k \<in> set v"
  shows "mset v = add_mset k (mset (filter (\<lambda>x. x \<noteq> k) v))" "Suc (length (filter (\<lambda>x. x \<noteq> k) v)) = length v"
proof -
  have "filter (\<lambda>x. x \<noteq> k) v = remove1 k v"
    using assms(1) by (simp add: distinct_remove1_removeAll removeAll_filter_not_eq eq_commute)
  then show "mset v = add_mset k (mset (filter (\<lambda>x. x \<noteq> k) v))" using assms(2) by simp
  then show "Suc (length (filter (\<lambda>x. x \<noteq> k) v)) = length v" by (metis size_add_mset size_mset)
qed

text \<open>Taking a node from a swarm above the threshold.\<close>

lemma remove_excess_ok:
  assumes inv: "swarm_inv m" and mem: "(k, i) \<in> set (fst (get_excess_pool t m))"
  obtains m' where "remove_excess_snode_from_swarm (k, i) m = Inr m'" "map fst m' = map fst m"
    "mset (swarm_nodes m) = add_mset k (mset (swarm_nodes m'))"
    "all_large m \<Longrightarrow> all_large m'" "calc_excess m = Suc (calc_excess m')" "large_count m' = large_count m"
    "\<exists>w. map_of m' i = Some w \<and> 5 \<le> length w"
    "\<And>j w. length w < 5 \<Longrightarrow> map_of m j = Some w \<Longrightarrow> map_of m' j = Some w"
proof -
  obtain v where v: "(i, v) \<in> set m" "k \<in> set v" "5 < length v"
    using mem by (auto simp: get_excess_pool_mem)
  define f where "f = filter (\<lambda>x. x \<noteq> k)"
  from inv obtain xs ys where sp: "m = xs @ (i, v) # ys" "swarm_update i f m = xs @ (i, f v) # ys"
    "i \<notin> set (map fst xs)" "i \<notin> set (map fst ys)"
    using swarm_update_split [OF _ v(1), of f] by (auto simp: swarm_inv_def)
  have dv: "distinct v" using inv by (simp add: swarm_inv_def sp(1))
  note fv = filter_neq_mset [OF dv v(2), folded f_def]
  have "remove_excess_snode_from_swarm (k, i) m = Inr (swarm_update i f m)"
    using v(1) by (force simp: remove_excess_snode_from_swarm_def f_def)
  moreover have "mset (swarm_nodes m) = add_mset k (mset (swarm_nodes (swarm_update i f m)))"
    unfolding sp(2) by (simp add: sp(1) fv(1))
  moreover have "all_large m \<Longrightarrow> all_large (swarm_update i f m)"
    unfolding sp(2) using fv(2) v(3) by (simp add: sp(1))
  moreover have "calc_excess m = Suc (calc_excess (swarm_update i f m))"
    unfolding sp(2) using fv(2) v(3) by (simp add: sp(1) calc_excess_alt)
  moreover have "large_count (swarm_update i f m) = large_count m"
    unfolding sp(2) using fv(2) v(3) by (simp add: sp(1))
  moreover have "map_of (swarm_update i f m) i = Some (f v)"
    unfolding sp(2) using map_of_eq_None_iff [of xs i] sp(3) by (simp add: map_add_def)
  then have "\<exists>w. map_of (swarm_update i f m) i = Some w \<and> 5 \<le> length w" using fv(2) v(3) by simp
  moreover have "length w < 5 \<Longrightarrow> map_of m j = Some w \<Longrightarrow> map_of (swarm_update i f m) j = Some w" for j w
    unfolding sp(2) using v(3) sp(3,4) by (auto simp: sp(1) map_add_def split: option.splits if_splits)
  ultimately show ?thesis using that [of "swarm_update i f m"] by simp
qed

lemma mset_subseteq_distinct:
  assumes "mset xs \<subseteq># mset ys" "distinct ys"
  shows "distinct xs"
proof -
  obtain C where "mset ys = mset xs + C" using assms(1) by (metis mset_subset_eq_exists_conv)
  then obtain zs where "mset ys = mset (xs @ zs)" by (metis ex_mset mset_append)
  then show ?thesis using mset_distinct_eq assms(2) by fastforce
qed

lemma swarm_inv_transfer:
  assumes "swarm_inv m" "map fst m' = map fst m" "mset (swarm_nodes m') \<subseteq># mset (swarm_nodes m)"
  shows "swarm_inv m'"
proof -
  have len: "length m' = length m" using assms(2) by (metis length_map)
  have "distinct (swarm_nodes m')"
    using assms(1) mset_subseteq_distinct [OF assms(3)] by (simp add: swarm_inv_def)
  moreover have "length (swarm_nodes m') \<le> length (swarm_nodes m)"
    using size_mset_mono [OF assms(3)] by simp
  ultimately show ?thesis using assms(1,2) len by (auto simp: swarm_inv_def)
qed

lemma pool_length_le: "length (fst (get_excess_pool t m)) \<le> length (swarm_nodes m)"
proof -
  have "sum_list (map (\<lambda>e. length (snd e)) (filter P m)) \<le> sum_list (map (\<lambda>e. length (snd e)) m)" for P
    by (induction m) auto
  then show ?thesis
    by (simp add: get_excess_pool_def Let_def length_concat o_def swarm_nodes_def)
qed

lemma pick_from_excess_pool_ok:
  assumes "rng_live rng" "pool \<noteq> []" "length pool < 2 ^ 64"
  obtains sn mt' where "pick_from_excess_pool rng pool mt = Inr (sn, mt')" "sn \<in> set pool"
proof -
  obtain x mt' where "uniform_distribution_portable rng mt (of_nat (length pool)) = Inr (x, mt')" "unat x < length pool"
    using uniform_distribution_portable_nat [OF assms(1) _ assms(3), of mt] assms(2) by auto
  then show ?thesis using that [of "pool ! unat x" mt'] by (simp add: pick_from_excess_pool_def)
qed

lemma calc_excess_pos: "0 < calc_excess m \<longleftrightarrow> (\<exists>e \<in> set m. 5 < length (snd e))"
  unfolding calc_excess_alt by (induction m) auto

lemma excess_pool_nonempty: "0 < calc_excess m \<Longrightarrow> fst (get_excess_pool EXCESS_BASE m) \<noteq> []"
proof -
  assume "0 < calc_excess m"
  then obtain e where e: "e \<in> set m" "5 < length (snd e)" by (auto simp: calc_excess_pos)
  then have "(hd (snd e), fst e) \<in> set (fst (get_excess_pool EXCESS_BASE m))"
    by (auto simp: get_excess_pool_mem intro!: exI [of _ "snd e"] hd_in_set)
  then show ?thesis by auto
qed

lemma collect_excess_ok:
  assumes live: "rng_live rng"
  shows "swarm_inv m \<Longrightarrow> n \<le> calc_excess m \<Longrightarrow>
    \<exists>ns' m' mt'. collect_excess rng n ns m mt = Inr (Some (ns @ ns'), m', mt') \<and> length ns' = n
      \<and> mset (swarm_nodes m) = mset ns' + mset (swarm_nodes m') \<and> map fst m' = map fst m
      \<and> (all_large m \<longrightarrow> all_large m')"
proof (induction n arbitrary: ns m mt)
  case (Suc n)
  let ?pool = "fst (get_excess_pool EXCESS_BASE m)"
  have ne: "?pool \<noteq> []" using excess_pool_nonempty Suc.prems(2) by simp
  have "length ?pool < 2 ^ 64" using pool_length_le [of EXCESS_BASE m] Suc.prems(1) by (simp add: swarm_inv_def)
  then obtain sn mt1 where pick: "pick_from_excess_pool rng ?pool mt = Inr (sn, mt1)" "sn \<in> set ?pool"
    using pick_from_excess_pool_ok [OF live ne] by blast
  obtain k i where sn: "sn = (k, i)" by (cases sn)
  from remove_excess_ok [OF Suc.prems(1) pick(2) [unfolded sn]] obtain m1 where
    m1: "remove_excess_snode_from_swarm (k, i) m = Inr m1" "map fst m1 = map fst m"
      "mset (swarm_nodes m) = add_mset k (mset (swarm_nodes m1))" "all_large m \<Longrightarrow> all_large m1"
      "calc_excess m = Suc (calc_excess m1)" by metis
  have inv1: "swarm_inv m1" using m1 by (intro swarm_inv_transfer [OF Suc.prems(1)]) simp_all
  obtain ns' m' mt' where r: "collect_excess rng n (ns @ [k]) m1 mt1 = Inr (Some ((ns @ [k]) @ ns'), m', mt')"
    "length ns' = n" "mset (swarm_nodes m1) = mset ns' + mset (swarm_nodes m')" "map fst m' = map fst m1"
    "all_large m1 \<longrightarrow> all_large m'"
    using Suc.IH [OF inv1, of "ns @ [k]" mt1] Suc.prems(2) m1(5) by auto
  have "collect_excess rng (Suc n) ns m mt = Inr (Some (ns @ k # ns'), m', mt')"
    using ne pick(1) m1(1) r(1) by (simp add: sn)
  then show ?case using r(2-5) m1(2-4) by (intro exI [of _ "k # ns'"]) auto
qed simp

lemma all_large_length: "all_large m \<Longrightarrow> 5 * length m \<le> length (swarm_nodes m)"
  by (induction m) auto

lemma swarm_insert_ok:
  assumes "swarm_inv m" "k \<notin> set (map fst m)" "k \<noteq> UNASSIGNED_SWARM_ID"
  shows "mset (swarm_nodes (swarm_insert k v m)) = mset v + mset (swarm_nodes m)"
    "sorted_wrt (<) (map fst (swarm_insert k v m))" "set (map fst (swarm_insert k v m)) = insert k (set (map fst m))"
    "length (swarm_insert k v m) = Suc (length m)"
    "all_large (swarm_insert k v m) \<longleftrightarrow> 5 \<le> length v \<and> all_large m"
proof -
  have eq: "swarm_insert k v m = insort_key fst (k, v) m" using assms(2) by (simp add: swarm_insert_def)
  show "mset (swarm_nodes (swarm_insert k v m)) = mset v + mset (swarm_nodes m)"
    unfolding eq by (induction m) (simp_all add: ac_simps)
  have "map fst (insort_key fst (k, v) m) = insort k (map fst m)"
    by (induction m) simp_all
  then show "sorted_wrt (<) (map fst (swarm_insert k v m))"
    using assms(1,2) unfolding eq swarm_inv_def strict_sorted_iff by (simp add: sorted_insort distinct_insort)
  show "set (map fst (swarm_insert k v m)) = insert k (set (map fst m))"
    unfolding eq by (simp add: set_insort_key)
  show "length (swarm_insert k v m) = Suc (length m)" unfolding eq by simp
  show "all_large (swarm_insert k v m) \<longleftrightarrow> 5 \<le> length v \<and> all_large m"
    unfolding eq all_large_def by (auto simp: set_insort_key)
qed

section \<open>Creating swarms\<close>

lemma half_id: "SWARM_MAX_ID div 2 \<noteq> UNASSIGNED_SWARM_ID"
  by (simp add: SWARM_MAX_ID_def)

text \<open>The id of a new swarm is fresh unless the only swarm has the middle id.\<close>

lemma get_new_swarm_id_ok:
  assumes "swarm_inv m" "length m = 1 \<Longrightarrow> SWARM_MAX_ID div 2 \<notin> set (map fst m)"
  shows "get_new_swarm_id m \<notin> set (map fst m)" "get_new_swarm_id m \<noteq> UNASSIGNED_SWARM_ID"
proof -
  have "get_new_swarm_id m \<notin> set (map fst m) \<and> get_new_swarm_id m \<noteq> UNASSIGNED_SWARM_ID"
  proof (cases "length m = 1")
    case True
    then have "get_new_swarm_id m = SWARM_MAX_ID div 2"
      using assms(1) by (simp add: get_new_swarm_id_def swarm_inv_def)
    then show ?thesis using True assms(2) half_id by simp
  next
    case False
    have "m \<noteq> []" using assms(1) by (simp add: swarm_inv_def)
    then have "2 \<le> length m" using False by (cases m rule: remdups_adj.cases) auto
    then show ?thesis using assms(1) by (intro get_new_swarm_id_fresh) (simp_all add: swarm_inv_def)
  qed
  then show "get_new_swarm_id m \<notin> set (map fst m)" "get_new_swarm_id m \<noteq> UNASSIGNED_SWARM_ID" by simp_all
qed

lemma swarm_inv_insert:
  assumes "swarm_inv m" "length m = 1 \<Longrightarrow> SWARM_MAX_ID div 2 \<notin> set (map fst m)" "all_large m" "length v = 7"
    "mset v + mset (swarm_nodes m) = mset (swarm_nodes m0)" "swarm_inv m0"
  defines "m' \<equiv> swarm_insert (get_new_swarm_id m) v m"
  shows "swarm_inv m'" "2 \<le> length m'" "all_large m'" "mset (swarm_nodes m') = mset (swarm_nodes m0)"
proof -
  note id = get_new_swarm_id_ok [OF assms(1,2)]
  note ins = swarm_insert_ok [OF assms(1) id, of v, folded m'_def]
  show large: "all_large m'" using ins(5) assms(3,4) by simp
  show nodes: "mset (swarm_nodes m') = mset (swarm_nodes m0)" using ins(1) assms(5) by simp
  have len: "length (swarm_nodes m') = length (swarm_nodes m0)" using nodes by (metis size_mset)
  have "length m' < 2 ^ 63" using all_large_length [OF large] len assms(6) by (simp add: swarm_inv_def)
  moreover have "distinct (swarm_nodes m')" using mset_distinct_eq [OF nodes] assms(6) by (simp add: swarm_inv_def)
  moreover have "UNASSIGNED_SWARM_ID \<notin> set (map fst m')"
    using ins(3) id(2) assms(1) by (auto simp: swarm_inv_def)
  ultimately show "swarm_inv m'" using ins(2,4) len assms(6) by (auto simp: swarm_inv_def)
  have "1 \<le> length m" using assms(1) by (cases m) (auto simp: swarm_inv_def)
  then show "2 \<le> length m'" using ins(4) by simp
qed

text \<open>
  What every step keeps: the nodes, the invariant and large swarms; the ids change only when swarms
  were made, and then there are two at least and none is starving.
\<close>

definition same_or_grown :: "swarm_snode_map_t \<Rightarrow> swarm_snode_map_t \<Rightarrow> bool" where
  "same_or_grown m m' \<longleftrightarrow> map fst m' = map fst m \<or> all_large m' \<and> 2 \<le> length m'"

lemma same_or_grown_safe: "same_or_grown m m' \<Longrightarrow> half_safe n m \<Longrightarrow> half_safe n m'"
  unfolding same_or_grown_def half_safe_def by (metis length_map)

lemma same_or_grown_trans:
  "same_or_grown m m' \<Longrightarrow> same_or_grown m' m'' \<Longrightarrow> (all_large m' \<Longrightarrow> all_large m'') \<Longrightarrow> same_or_grown m m''"
  unfolding same_or_grown_def by (metis length_map)

text \<open>A swarm is made next to a single one only if that one has fourteen nodes.\<close>

lemma lone_swarm_excess:
  assumes "half_safe n m" "length (swarm_nodes m) \<le> n" "calc_threshold m \<le> calc_excess m" "length m = 1"
  shows "SWARM_MAX_ID div 2 \<notin> set (map fst m)"
proof -
  obtain e where "m = [e]" using assms(4) by (cases m) auto
  then show ?thesis using assms(1-3) by (auto simp: half_safe_def calc_threshold_def calc_excess_alt)
qed

lemma create_swarm_loop_ok:
  assumes live: "rng_live rng"
  shows "swarm_inv m \<Longrightarrow> half_safe n m \<Longrightarrow> length (swarm_nodes m) \<le> n \<Longrightarrow> all_large m \<Longrightarrow>
    \<exists>m' mt'. create_swarm_loop rng m mt = Inr (m', mt') \<and> mset (swarm_nodes m') = mset (swarm_nodes m)
      \<and> swarm_inv m' \<and> all_large m' \<and> (m' = m \<or> 2 \<le> length m')"
proof (induction "calc_excess m" arbitrary: m mt rule: less_induct)
  case less
  show ?case
  proof (cases "calc_excess m \<ge> calc_threshold m")
    case False
    then show ?thesis using less.prems by (subst create_swarm_loop.simps) simp
  next
    case True
    then have "7 \<le> calc_excess m" by (simp add: calc_threshold_def)
    then obtain ns m1 mt1 where c: "collect_excess rng NEW_SWARM_SIZE [] m mt = Inr (Some ns, m1, mt1)" "length ns = 7"
      "mset (swarm_nodes m) = mset ns + mset (swarm_nodes m1)" "map fst m1 = map fst m" "all_large m1"
      using collect_excess_ok [OF live less.prems(1), of 7 "[]" mt] less.prems(4) by auto
    have inv1: "swarm_inv m1" using c by (intro swarm_inv_transfer [OF less.prems(1)]) simp_all
    have lone: "length m1 = 1 \<Longrightarrow> SWARM_MAX_ID div 2 \<notin> set (map fst m1)"
      using lone_swarm_excess [OF less.prems(2,3) True] unfolding c(4) using map_eq_imp_length_eq [OF c(4)] by simp
    define m2 where "m2 = swarm_insert (get_new_swarm_id m1) ns m1"
    note ins = swarm_inv_insert [OF inv1 lone c(5,2) c(3) [symmetric] less.prems(1), folded m2_def]
    have "calc_excess m2 < calc_excess m" unfolding m2_def by (rule new_swarm_excess_less [OF c(1)])
    moreover have "half_safe n m2" "length (swarm_nodes m2) \<le> n"
      using ins(2) less.prems(3) mset_eq_length [OF ins(4)] by (simp_all add: half_safe_def)
    ultimately obtain m' mt' where
      r: "create_swarm_loop rng m2 mt1 = Inr (m', mt')" "mset (swarm_nodes m') = mset (swarm_nodes m2)"
        "swarm_inv m'" "all_large m'" "m' = m2 \<or> 2 \<le> length m'"
      using less.hyps [OF _ ins(1) _ _ ins(3), of mt1] by blast
    have "create_swarm_loop rng m mt = Inr (m', mt')"
      using True c(1) r(1) by (subst create_swarm_loop.simps) (simp add: m2_def)
    then show ?thesis using r ins(2,4) by auto
  qed
qed

lemma create_new_swarm_from_excess_ok:
  assumes "rng_live rng" "swarm_inv m" "half_safe n m" "length (swarm_nodes m) \<le> n"
  obtains m' mt' where "create_new_swarm_from_excess rng m mt = Inr (m', mt')"
    "mset (swarm_nodes m') = mset (swarm_nodes m)" "swarm_inv m'" "m' = m \<or> all_large m' \<and> 2 \<le> length m'"
proof (cases "all_large m")
  case True
  then have "create_new_swarm_from_excess rng m mt = create_swarm_loop rng m mt"
    by (auto simp: create_new_swarm_from_excess_def list_ex_iff all_large_def)
  then show ?thesis using create_swarm_loop_ok [OF assms True, of mt] that by auto
next
  case False
  then have "create_new_swarm_from_excess rng m mt = Inr (m, mt)"
    by (auto simp: create_new_swarm_from_excess_def list_ex_iff all_large_def)
  then show ?thesis using that [of m mt] assms by simp
qed

section \<open>Assigning nodes\<close>

lemma upper_index_less: "sizes \<noteq> [] \<Longrightarrow> upper_index sizes i v < length sizes"
  by (auto simp: upper_index_def find_Some_iff split: option.splits)

lemma length_le_nodes_or: "all_large m \<Longrightarrow> length m \<le> length (swarm_nodes m)"
  using all_large_length [of m] by simp

lemma upper_index_smallest:
  assumes "sizes \<noteq> []" "j \<le> upper_index sizes 0 (snd (sizes ! 0))"
  shows "snd (sizes ! j) \<le> snd (sizes ! 0)"
proof (cases "find (\<lambda>i. snd (sizes ! i) > snd (sizes ! 0)) [0..<length sizes]")
  case None
  then have "\<forall>i < length sizes. snd (sizes ! i) \<le> snd (sizes ! 0)" by (simp add: find_None_iff) (metis not_less)
  moreover have "j < length sizes" using upper_index_less [OF assms(1)] assms(2) by (rule le_less_trans [rotated])
  ultimately show ?thesis by blast
next
  case (Some i)
  then obtain l where l: "l < length sizes" "i = l" "snd (sizes ! 0) < snd (sizes ! l)"
    "\<forall>q < l. \<not> snd (sizes ! 0) < snd (sizes ! q)"
    by (auto simp: find_Some_iff simp del: upt_Suc)
  have "l \<noteq> 0" using l(3) by (metis less_irrefl)
  moreover have "j \<le> l - 1" using assms(2) Some l(2) by (simp add: upper_index_def)
  ultimately show ?thesis using l(4) by (simp add: not_less)
qed

text \<open>
  The swarm a node is put into; with the percentile zero, which the redistribution uses, it is a swarm
  of the smallest size.
\<close>

lemma assign_snode_pick:
  assumes live: "rng_live rng" and srt: "sorts_by_size srt" and p: "percentile \<le> 100" and inv: "swarm_inv m"
  obtains k v mt1 where "(k, v) \<in> set m" "percentile = 0 \<Longrightarrow> \<forall>e \<in> set m. length v \<le> length (snd e)"
    "assign_snode rng srt percentile pk m mt =
       create_new_swarm_from_excess rng (swarm_update k (\<lambda>v. v @ [pk]) m) mt1"
proof -
  define sizes where "sizes = calc_swarm_sizes srt m"
  have ms: "mset sizes = mset (map (\<lambda>e. (fst e, length (snd e))) m)" and sorted: "sorted (map snd sizes)"
    using srt unfolding sizes_def calc_swarm_sizes_def sorts_by_size_def by blast+
  have len: "length sizes = length m" using arg_cong [OF ms, of size] by simp
  have mem: "set sizes = (\<lambda>e. (fst e, length (snd e))) ` set m" using mset_eq_setD [OF ms] by simp
  have ne: "sizes \<noteq> []" using inv len by (auto simp: swarm_inv_def)
  define i where "i = percentile * (length sizes - 1) div 100"
  have "percentile * (length sizes - 1) \<le> 100 * (length sizes - 1)" using p by (rule mult_le_mono1)
  from div_le_mono [OF this, of 100] have "i \<le> length sizes - 1" by (simp add: i_def)
  then have i: "i < length sizes" using ne by (cases sizes) simp_all
  define u where "u = upper_index sizes i (snd (sizes ! i))"
  have u: "u < length sizes" unfolding u_def by (rule upper_index_less [OF ne])
  have "0 < u + 1" "u + 1 < 2 ^ 64" using u len inv by (simp_all add: swarm_inv_def)
  with uniform_distribution_portable_nat [OF live, of "u + 1" mt] obtain x mt1 where
    x: "uniform_distribution_portable rng mt (of_nat (u + 1)) = Inr (x, mt1)" "unat x < u + 1" by blast
  have xl: "unat x < length sizes" using x(2) u by simp
  obtain k v where kv: "(k, v) \<in> set m" "sizes ! unat x = (k, length v)" using nth_mem [OF xl] mem by auto
  have k: "k \<in> set (map fst m)" using kv(1) by force
  have "length v \<le> length (snd e)" if "percentile = 0" "e \<in> set m" for e
  proof -
    have "length v \<le> snd (sizes ! 0)"
      using upper_index_smallest [OF ne, of "unat x"] x(2) kv(2) \<open>percentile = 0\<close> by (simp add: u_def i_def)
    moreover have "(fst e, length (snd e)) \<in> set sizes" using mem \<open>e \<in> set m\<close> by simp
    then obtain j where "j < length sizes" "sizes ! j = (fst e, length (snd e))" by (metis in_set_conv_nth)
    then have "snd (sizes ! 0) \<le> length (snd e)" using sorted_nth_mono [OF sorted, of 0 j] ne by simp
    ultimately show ?thesis by simp
  qed
  moreover have "assign_snode rng srt percentile pk m mt =
      create_new_swarm_from_excess rng (swarm_update k (\<lambda>v. v @ [pk]) m) mt1"
    using i [unfolded not_le [symmetric]]
    by (simp only: assign_snode_def Let_def sizes_def [symmetric] i_def [symmetric] u_def [symmetric] if_False
        x(1) bindE.simps prod.case kv(2) fst_conv k if_True)
  ultimately show ?thesis using that [OF kv(1)] by blast
qed

lemma balanced_push:
  assumes "sorted_wrt (<) (map fst m)" "(k, v) \<in> set m" "\<forall>e \<in> set m. length v \<le> length (snd e)"
    "2 \<le> length m" "balanced m"
  shows "balanced (swarm_update k (\<lambda>v. v @ [pk]) m)"
proof (cases "2 \<le> large_count m")
  case True
  then show ?thesis using large_count_update [OF assms(1,2), of "\<lambda>v. v @ [pk]"] by (simp add: balanced_def)
next
  case False
  then have small: "\<forall>e \<in> set m. length (snd e) \<le> 8" using assms(5) by (simp add: balanced_def)
  have "\<not> all_large m" using False assms(4) all_large_count by force
  then have "length v < 5" using assms(3) by (auto simp: all_large_def not_le intro: le_less_trans)
  moreover obtain xs ys where "m = xs @ (k, v) # ys" "swarm_update k (\<lambda>v. v @ [pk]) m = xs @ (k, v @ [pk]) # ys"
    using swarm_update_split [OF assms(1,2), of "\<lambda>v. v @ [pk]"] by metis
  ultimately show ?thesis using small by (auto simp: balanced_def)
qed

lemma all_large_balanced: "all_large m \<Longrightarrow> 2 \<le> length m \<Longrightarrow> balanced m"
  by (simp add: balanced_def all_large_count)

lemma assign_snode_ok:
  assumes live: "rng_live rng" and srt: "sorts_by_size srt" and p: "percentile \<le> 100"
    and inv: "swarm_inv m" and safe: "half_safe n m"
    and new: "pk \<notin> set (swarm_nodes m)" "Suc (length (swarm_nodes m)) < 2 ^ 63" "Suc (length (swarm_nodes m)) \<le> n"
  obtains m' mt' where "assign_snode rng srt percentile pk m mt = Inr (m', mt')"
    "mset (swarm_nodes m') = add_mset pk (mset (swarm_nodes m))" "swarm_inv m'" "same_or_grown m m'"
    "all_large m \<Longrightarrow> all_large m'" "none_empty m \<Longrightarrow> none_empty m'"
    "percentile = 0 \<Longrightarrow> 2 \<le> length m \<Longrightarrow> balanced m \<Longrightarrow> balanced m'"
proof -
  obtain k v mt1 where kv: "(k, v) \<in> set m" "percentile = 0 \<Longrightarrow> \<forall>e \<in> set m. length v \<le> length (snd e)"
    and run: "assign_snode rng srt percentile pk m mt = create_new_swarm_from_excess rng (swarm_update k (\<lambda>v. v @ [pk]) m) mt1"
    using assign_snode_pick [OF live srt p inv] by blast
  have ord: "sorted_wrt (<) (map fst m)" using inv by (simp add: swarm_inv_def)
  define m1 where "m1 = swarm_update k (\<lambda>v. v @ [pk]) m"
  obtain xs ys where sp: "m = xs @ (k, v) # ys" "m1 = xs @ (k, v @ [pk]) # ys"
    using swarm_update_split [OF ord kv(1), of "\<lambda>v. v @ [pk]"] unfolding m1_def by metis
  have nodes: "mset (swarm_nodes m1) = add_mset pk (mset (swarm_nodes m))" by (simp add: sp)
  have "distinct (swarm_nodes m1)"
    using mset_distinct_eq [of "swarm_nodes m1" "pk # swarm_nodes m"] nodes new(1) inv by (simp add: swarm_inv_def)
  moreover have len: "length (swarm_nodes m1) = Suc (length (swarm_nodes m))" by (simp add: sp)
  ultimately have inv1: "swarm_inv m1" using inv new(2) by (simp add: swarm_inv_def m1_def)
  have keys: "map fst m1 = map fst m" "length m1 = length m" by (simp_all add: m1_def)
  have safe1: "half_safe n m1" using safe by (simp add: half_safe_def keys del: set_map)
  obtain m' mt' where c: "create_new_swarm_from_excess rng m1 mt1 = Inr (m', mt')"
    "mset (swarm_nodes m') = mset (swarm_nodes m1)" "swarm_inv m'" "m' = m1 \<or> all_large m' \<and> 2 \<le> length m'"
    using create_new_swarm_from_excess_ok [OF live inv1 safe1] len new(3) by (metis order_refl)
  have "same_or_grown m m'" using c(4) keys(1) by (auto simp: same_or_grown_def)
  moreover have "all_large m \<Longrightarrow> all_large m'" using c(4) by (auto simp: sp)
  moreover have "none_empty m \<Longrightarrow> none_empty m'" using c(4) all_large_none_empty by (auto simp: sp none_empty_def)
  moreover have "balanced m'" if "percentile = 0" "2 \<le> length m" "balanced m"
    using balanced_push [OF ord kv(1) kv(2) that(2,3)] that(1) c(4) all_large_balanced by (auto simp: m1_def)
  ultimately show ?thesis using that run c(1-3) nodes by (simp add: m1_def)
qed

lemma same_or_grown_length: "same_or_grown m m' \<Longrightarrow> 2 \<le> length m \<Longrightarrow> 2 \<le> length m'"
  unfolding same_or_grown_def by (metis length_map)

lemma assign_snodes_ok:
  assumes live: "rng_live rng" and srt: "sorts_by_size srt" and p: "percentile \<le> 100"
  shows "swarm_inv m \<Longrightarrow> half_safe n m \<Longrightarrow> distinct (sns @ swarm_nodes m)
    \<Longrightarrow> length sns + length (swarm_nodes m) < 2 ^ 63 \<Longrightarrow> length sns + length (swarm_nodes m) \<le> n \<Longrightarrow>
    \<exists>m' mt'. assign_snodes rng srt percentile sns m mt = Inr (m', mt')
      \<and> mset (swarm_nodes m') = mset sns + mset (swarm_nodes m) \<and> swarm_inv m' \<and> same_or_grown m m'
      \<and> (all_large m \<longrightarrow> all_large m') \<and> (none_empty m \<longrightarrow> none_empty m')
      \<and> (percentile = 0 \<longrightarrow> 2 \<le> length m \<longrightarrow> balanced m \<longrightarrow> balanced m')"
proof (induction sns arbitrary: m mt)
  case (Cons pk sns)
  have new: "pk \<notin> set (swarm_nodes m)" "Suc (length (swarm_nodes m)) < 2 ^ 63" "Suc (length (swarm_nodes m)) \<le> n"
    using Cons.prems(3-5) by auto
  obtain m1 mt1 where s: "assign_snode rng srt percentile pk m mt = Inr (m1, mt1)"
    "mset (swarm_nodes m1) = add_mset pk (mset (swarm_nodes m))" "swarm_inv m1" "same_or_grown m m1"
    "all_large m \<Longrightarrow> all_large m1" "none_empty m \<Longrightarrow> none_empty m1"
    "percentile = 0 \<Longrightarrow> 2 \<le> length m \<Longrightarrow> balanced m \<Longrightarrow> balanced m1"
    using assign_snode_ok [OF live srt p Cons.prems(1,2) new] by metis
  have "mset (sns @ swarm_nodes m1) = mset (pk # sns @ swarm_nodes m)" using s(2) by simp
  then have "distinct (sns @ swarm_nodes m1)" using mset_distinct_eq Cons.prems(3) by (metis append_Cons)
  moreover have "length (swarm_nodes m1) = Suc (length (swarm_nodes m))" using arg_cong [OF s(2), of size] by simp
  ultimately obtain m' mt' where r: "assign_snodes rng srt percentile sns m1 mt1 = Inr (m', mt')"
    "mset (swarm_nodes m') = mset sns + mset (swarm_nodes m1)" "swarm_inv m'" "same_or_grown m1 m'"
    "all_large m1 \<longrightarrow> all_large m'" "none_empty m1 \<longrightarrow> none_empty m'"
    "percentile = 0 \<longrightarrow> 2 \<le> length m1 \<longrightarrow> balanced m1 \<longrightarrow> balanced m'"
    using Cons.IH [OF s(3) same_or_grown_safe [OF s(4) Cons.prems(2)], of mt1] Cons.prems(4,5) by auto
  have "same_or_grown m m'" using same_or_grown_trans [OF s(4) r(4)] r(5) by blast
  moreover have "percentile = 0 \<longrightarrow> 2 \<le> length m \<longrightarrow> balanced m \<longrightarrow> balanced m'"
    using s(7) r(7) same_or_grown_length [OF s(4)] by blast
  ultimately show ?case using s(1,2,5,6) r(1-3,5,6) by simp
qed (simp add: same_or_grown_def)

section \<open>The Robin Hood round\<close>

lemma swarm_update_lookup:
  "j \<noteq> k \<Longrightarrow> map_of (swarm_update k f m) j = map_of m j"
  "map_of (swarm_update k f m) k = map_option f (map_of m k)"
  by (induction m) (auto simp: swarm_update_def)

lemma swarm_update_push:
  assumes "sorted_wrt (<) (map fst m)" "map_of m k = Some v"
  shows "mset (swarm_nodes (swarm_update k (\<lambda>v. v @ [x]) m)) = add_mset x (mset (swarm_nodes m))"
proof -
  obtain xs ys where "m = xs @ (k, v) # ys" "swarm_update k (\<lambda>v. v @ [x]) m = xs @ (k, v @ [x]) # ys"
    using swarm_update_split [OF assms(1) map_of_SomeD [OF assms(2)], of "\<lambda>v. v @ [x]"] by metis
  then show ?thesis by simp
qed

lemma excess_le_pool: "snd (get_excess_pool t m) \<le> length (fst (get_excess_pool t m))"
proof -
  have "sum_list (map (\<lambda>e. length (snd e) - 5) xs) \<le> sum_list (map (\<lambda>e. length (snd e)) xs)"
    for xs :: swarm_snode_map_t
    by (rule sum_list_mono) simp
  then show ?thesis by (simp add: get_excess_pool_def Let_def length_concat o_def)
qed

lemma excess_pool_bound: "e \<in> set m \<Longrightarrow> length (snd e) \<le> 5 + snd (get_excess_pool 5 m)"
proof (cases "5 < length (snd e)")
  case True
  assume "e \<in> set m"
  with True have "length (snd e) - 5 \<in> set (map (\<lambda>e. length (snd e) - 5) (filter (\<lambda>e. 5 < length (snd e)) m))" by auto
  from member_le_sum_list [OF this] show ?thesis by (simp add: get_excess_pool_def Let_def)
qed simp

lemma two_large:
  assumes "map_of m i = Some a" "map_of m j = Some b" "i \<noteq> j" "5 \<le> length a" "5 \<le> length b"
  shows "2 \<le> large_count m"
proof -
  let ?l = "filter (\<lambda>e. MIN_SWARM_SIZE \<le> length (snd e)) m"
  have "{(i, a), (j, b)} \<subseteq> set ?l" using assms by (auto dest: map_of_SomeD)
  from card_mono [OF _ this] have "2 \<le> card (set ?l)" using assms(3) by simp
  then show ?thesis using card_length [of ?l] by (simp add: large_count_def)
qed

text \<open>The size above which the round takes nodes from a swarm.\<close>

definition steal_threshold :: "(u64 \<times> nat) list \<Rightarrow> nat" where
  "steal_threshold sizes = max MIN_SWARM_SIZE
     (size_minus (snd (sizes ! (STEALING_SWARM_UPPER_PERCENTILE * (length sizes - 1) div 100))) 1)"

text \<open>
  Filling one swarm leaves every other starving swarm as it was and no large swarm starving. When every
  swarm above the minimum may give nodes, the swarm is filled or no swarm has more than eight nodes.
\<close>

lemma steal_loop_ok:
  assumes live: "rng_live rng"
  shows "swarm_inv m \<Longrightarrow> map_of m i = Some v \<Longrightarrow> length v < 5 \<Longrightarrow> 5 \<le> fuel + length v \<Longrightarrow>
    \<exists>b m' mt'. steal_loop rng fuel sizes i m mt = Inr (b, m', mt') \<and> map fst m' = map fst m
      \<and> mset (swarm_nodes m') = mset (swarm_nodes m)
      \<and> (\<forall>j w. j \<noteq> i \<longrightarrow> length w < 5 \<longrightarrow> map_of m j = Some w \<longrightarrow> map_of m' j = Some w)
      \<and> large_count m \<le> large_count m'
      \<and> (steal_threshold sizes = 5 \<longrightarrow> v \<noteq> [] \<longrightarrow> balanced m' \<and> (\<not> b \<longrightarrow> 2 \<le> large_count m'))"
proof (induction fuel arbitrary: m v mt)
  case (Suc fuel)
  define t where "t = max MIN_SWARM_SIZE
    (size_minus (snd (sizes ! (STEALING_SWARM_UPPER_PERCENTILE * (length sizes - 1) div 100))) 1)"
  have ts: "steal_threshold sizes = t" by (simp add: t_def steal_threshold_def)
  obtain pool excess where pool: "get_excess_pool t m = (pool, excess)" by fastforce
  define deficit where "deficit = size_minus MIN_SWARM_SIZE (length v)"
  note unfold = steal_loop.simps(2) Suc.prems(2) option.case Let_def t_def [symmetric] pool prod.case deficit_def [symmetric]
  show ?case
  proof (cases "excess < deficit")
    case True
    then have "steal_loop rng (Suc fuel) sizes i m mt = Inr (True, m, mt)" by (simp only: unfold if_True)
    moreover have "balanced m" if "t = 5" "v \<noteq> []"
    proof -
      have "1 \<le> length v" using \<open>v \<noteq> []\<close> by (cases v) simp_all
      then have "excess \<le> 3" using True Suc.prems(3) by (simp add: deficit_def size_minus_def)
      then have "length (snd e) \<le> 8" if "e \<in> set m" for e
        using excess_pool_bound [OF that] pool \<open>t = 5\<close> by simp
      then show ?thesis by (simp add: balanced_def)
    qed
    ultimately show ?thesis by (auto simp: ts simp del: steal_loop.simps)
  next
    case False
    have "0 < deficit" using Suc.prems(3) by (simp add: deficit_def size_minus_def)
    then have ne: "pool \<noteq> []" using False excess_le_pool [of t m] by (auto simp: pool)
    have "length pool < 2 ^ 64" using pool_length_le [of t m] Suc.prems(1) by (simp add: pool swarm_inv_def)
    then obtain k s mt1 where pick: "pick_from_excess_pool rng pool mt = Inr ((k, s), mt1)" "(k, s) \<in> set pool"
      using pick_from_excess_pool_ok [OF live ne] by (metis surj_pair)
    have mem: "(k, s) \<in> set (fst (get_excess_pool t m))" using pick(2) by (simp add: pool)
    obtain m1 where m1: "remove_excess_snode_from_swarm (k, s) m = Inr m1" "map fst m1 = map fst m"
      "mset (swarm_nodes m) = add_mset k (mset (swarm_nodes m1))"
      "\<And>j w. length w < 5 \<Longrightarrow> map_of m j = Some w \<Longrightarrow> map_of m1 j = Some w"
      "large_count m1 = large_count m" "\<exists>w. map_of m1 s = Some w \<and> 5 \<le> length w"
      by (rule remove_excess_ok [OF Suc.prems(1) mem]) blast
    define m2 where "m2 = swarm_update i (\<lambda>v. v @ [k]) m1"
    have v1: "map_of m1 i = Some v" using m1(4) Suc.prems(2,3) by blast
    have v2: "map_of m2 i = Some (v @ [k])" by (simp add: m2_def swarm_update_lookup(2) v1)
    have nodes: "mset (swarm_nodes m2) = mset (swarm_nodes m)"
      unfolding m2_def using swarm_update_push [OF _ v1] m1(2,3) Suc.prems(1) by (simp add: swarm_inv_def)
    have keys: "map fst m2 = map fst m" by (simp add: m2_def m1(2))
    have inv2: "swarm_inv m2" by (rule swarm_inv_transfer [OF Suc.prems(1) keys]) (simp add: nodes)
    have others: "map_of m2 j = Some w" if "j \<noteq> i" "length w < 5" "map_of m j = Some w" for j w
      using that m1(4) by (simp add: m2_def swarm_update_lookup(1))
    have count: "large_count m \<le> large_count m2"
      using large_count_update [of m1 i v "\<lambda>v. v @ [k]"] Suc.prems(1) map_of_SomeD [OF v1] m1(2,5)
      by (simp add: m2_def swarm_inv_def)
    have "i \<noteq> s" using m1(6) v1 Suc.prems(3) by auto
    then have two: "2 \<le> large_count m2" if "5 \<le> length (v @ [k])"
      using m1(6) two_large [OF v2 _ _ that, of s] by (auto simp: m2_def swarm_update_lookup(1))
    have step: "steal_loop rng (Suc fuel) sizes i m mt =
        (if length (v @ [k]) < MIN_SWARM_SIZE then steal_loop rng fuel sizes i m2 mt1 else Inr (False, m2, mt1))"
      using \<open>\<not> excess < deficit\<close> by (simp only: unfold if_False pick(1) bindE.simps fst_conv m1(1) m2_def [symmetric] v2 option.sel)
    show ?thesis
    proof (cases "length (v @ [k]) < MIN_SWARM_SIZE")
      case True
      have "5 \<le> fuel + length (v @ [k])" using Suc.prems(4) by simp
      then obtain b m' mt' where r: "steal_loop rng fuel sizes i m2 mt1 = Inr (b, m', mt')" "map fst m' = map fst m2"
        "mset (swarm_nodes m') = mset (swarm_nodes m2)"
        "\<forall>j w. j \<noteq> i \<longrightarrow> length w < 5 \<longrightarrow> map_of m2 j = Some w \<longrightarrow> map_of m' j = Some w"
        "large_count m2 \<le> large_count m'"
        "steal_threshold sizes = 5 \<longrightarrow> v @ [k] \<noteq> [] \<longrightarrow> balanced m' \<and> (\<not> b \<longrightarrow> 2 \<le> large_count m')"
        using Suc.IH [OF inv2 v2, of mt1] True by auto
      have "steal_loop rng (Suc fuel) sizes i m mt = Inr (b, m', mt')" using True r(1) by (simp only: step if_True)
      then show ?thesis using others nodes keys count r(2-6) by (intro exI [of _ b] exI [of _ m'] exI [of _ mt']) simp
    next
      case False
      then have "steal_loop rng (Suc fuel) sizes i m mt = Inr (False, m2, mt1)" by (simp only: step if_False)
      moreover have "2 \<le> large_count m2" using two False by simp
      ultimately show ?thesis using others nodes keys count
        by (intro exI [of _ False] exI [of _ m2] exI [of _ mt1]) (simp add: balanced_def)
    qed
  qed
qed simp

lemma robin_hood_ok:
  assumes live: "rng_live rng"
  shows "swarm_inv m \<Longrightarrow> distinct (map fst ss)
    \<Longrightarrow> \<forall>x \<in> set ss. \<exists>v. map_of m (fst x) = Some v \<and> (snd x < 5 \<longrightarrow> length v < 5) \<Longrightarrow>
    \<exists>m' mt'. robin_hood rng sizes ss m mt = Inr (m', mt') \<and> map fst m' = map fst m
      \<and> mset (swarm_nodes m') = mset (swarm_nodes m) \<and> large_count m \<le> large_count m'
      \<and> (steal_threshold sizes = 5 \<longrightarrow> none_empty m \<longrightarrow> ss \<noteq> [] \<longrightarrow> snd (hd ss) < 5 \<longrightarrow> balanced m')"
proof (induction ss arbitrary: m mt)
  case (Cons x ss)
  show ?case
  proof (cases "5 \<le> snd x")
    case False
    obtain v where v: "map_of m (fst x) = Some v" "length v < 5" using Cons.prems(3) False by auto
    have vne: "v \<noteq> []" if "none_empty m" using that map_of_SomeD [OF v(1)] by (force simp: none_empty_def)
    obtain b m1 mt1 where s: "steal_loop rng MIN_SWARM_SIZE sizes (fst x) m mt = Inr (b, m1, mt1)"
      "map fst m1 = map fst m" "mset (swarm_nodes m1) = mset (swarm_nodes m)"
      "\<And>j w. j \<noteq> fst x \<Longrightarrow> length w < 5 \<Longrightarrow> map_of m j = Some w \<Longrightarrow> map_of m1 j = Some w"
      "large_count m \<le> large_count m1"
      "steal_threshold sizes = 5 \<longrightarrow> v \<noteq> [] \<longrightarrow> balanced m1 \<and> (\<not> b \<longrightarrow> 2 \<le> large_count m1)"
      using steal_loop_ok [OF live Cons.prems(1) v, of 5 sizes mt] by auto
    show ?thesis
    proof (cases b)
      case True
      then show ?thesis using s(1-3,5,6) False vne by simp
    next
      case b: False
      have inv1: "swarm_inv m1" by (rule swarm_inv_transfer [OF Cons.prems(1) s(2)]) (simp add: s(3))
      have rest: "\<exists>v. map_of m1 (fst y) = Some v \<and> (snd y < 5 \<longrightarrow> length v < 5)" if "y \<in> set ss" for y
      proof -
        obtain w where w: "map_of m (fst y) = Some w" "snd y < 5 \<longrightarrow> length w < 5" using Cons.prems(3) \<open>y \<in> set ss\<close> by auto
        have "fst y \<noteq> fst x" using Cons.prems(2) \<open>y \<in> set ss\<close> by (metis distinct.simps(2) image_eqI list.set_map list.simps(9))
        then have "snd y < 5 \<Longrightarrow> map_of m1 (fst y) = Some w" using s(4) w by blast
        moreover have "fst y \<in> set (map fst m1)" using w(1) s(2) by (metis map_of_eq_None_iff option.distinct(1) list.set_map)
        then have "\<exists>v. map_of m1 (fst y) = Some v" by (metis map_of_eq_None_iff not_None_eq list.set_map)
        ultimately show ?thesis using w(2) by metis
      qed
      obtain m' mt' where r: "robin_hood rng sizes ss m1 mt1 = Inr (m', mt')" "map fst m' = map fst m1"
          "mset (swarm_nodes m') = mset (swarm_nodes m1)" "large_count m1 \<le> large_count m'"
        using Cons.IH [OF inv1, of mt1] Cons.prems(2) rest by auto
      have "balanced m'" if "steal_threshold sizes = 5" "none_empty m"
        using s(6) vne that b r(4) by (simp add: balanced_def)
      then show ?thesis using b False s(1-3,5) r by auto
    qed
  qed auto
qed simp

text \<open>With two swarms at the percentile or above it, either both are large or every excess may be taken.\<close>

lemma percentile_large:
  assumes "sorts_by_size srt" "2 \<le> length m" "none_empty m" "\<not> all_large m"
  defines "sizes \<equiv> calc_swarm_sizes srt m"
  shows "2 \<le> large_count m \<or> steal_threshold sizes = 5" "sizes \<noteq> []" "snd (hd sizes) < 5"
proof -
  have ms: "mset sizes = mset (map (\<lambda>e. (fst e, length (snd e))) m)" and sorted: "sorted (map snd sizes)"
    using assms(1) unfolding sizes_def calc_swarm_sizes_def sorts_by_size_def by blast+
  have len: "length sizes = length m" using arg_cong [OF ms, of size] by simp
  show ne: "sizes \<noteq> []" using len assms(2) by auto
  have mem: "set sizes = (\<lambda>e. (fst e, length (snd e))) ` set m" using mset_eq_setD [OF ms] by simp
  obtain e where "e \<in> set m" "length (snd e) < 5" using assms(4) by (auto simp: all_large_def)
  then have "(fst e, length (snd e)) \<in> set sizes" "length (snd e) < 5" using mem by auto
  then obtain j where "j < length sizes" "snd (sizes ! j) < 5" by (metis in_set_conv_nth snd_conv)
  then show "snd (hd sizes) < 5" using sorted_nth_mono [OF sorted, of 0 j] ne by (simp add: hd_conv_nth)
  define i where "i = STEALING_SWARM_UPPER_PERCENTILE * (length sizes - 1) div 100"
  have i: "Suc i < length sizes" using assms(2) len unfolding i_def by (simp add: less_diff_conv [symmetric])
  have count: "large_count m = length (filter (\<lambda>x. 5 \<le> snd x) sizes)"
    using arg_cong [OF ms, of "\<lambda>M. size (filter_mset (\<lambda>x. 5 \<le> snd x) M)"]
    by (simp add: large_count_def filter_map o_def flip: mset_filter mset_map)
  show "2 \<le> large_count m \<or> steal_threshold sizes = 5"
  proof (cases "5 \<le> snd (sizes ! i)")
    case True
    have "5 \<le> snd x" if x: "x \<in> set (drop i sizes)" for x
    proof -
      obtain j where "j < length sizes - i" "x = sizes ! (i + j)" using x i by (auto simp: in_set_conv_nth)
      then show ?thesis using True sorted_nth_mono [OF sorted, of i "i + j"] by (simp add: less_diff_conv add.commute)
    qed
    then have "filter (\<lambda>x. 5 \<le> snd x) (drop i sizes) = drop i sizes" by simp
    moreover have "filter (\<lambda>x. 5 \<le> snd x) sizes = filter (\<lambda>x. 5 \<le> snd x) (take i sizes) @ filter (\<lambda>x. 5 \<le> snd x) (drop i sizes)"
      by (metis append_take_drop_id filter_append)
    ultimately have "length (drop i sizes) \<le> large_count m" unfolding count by (metis le_add2 length_append)
    then have "2 \<le> large_count m" using i unfolding length_drop by linarith
    then show ?thesis ..
  next
    case False
    have "sizes ! i \<in> set sizes" using i by simp
    then have "1 \<le> snd (sizes ! i)" using assms(3) by (auto simp: mem none_empty_def Suc_le_eq)
    then have "steal_threshold sizes = 5" using False unfolding steal_threshold_def i_def [symmetric] by (simp add: size_minus_def)
    then show ?thesis ..
  qed
qed

lemma robin_hood_sizes_ok:
  assumes "rng_live rng" "sorts_by_size srt" "swarm_inv m"
  shows "\<exists>m' mt'. robin_hood rng (calc_swarm_sizes srt m) (calc_swarm_sizes srt m) m mt = Inr (m', mt')
    \<and> map fst m' = map fst m \<and> mset (swarm_nodes m') = mset (swarm_nodes m)
    \<and> (all_large m \<longrightarrow> all_large m') \<and> (2 \<le> length m \<longrightarrow> none_empty m \<longrightarrow> balanced m')"
proof (cases "all_large m")
  let ?s = "calc_swarm_sizes srt m"
  have ms: "mset ?s = mset (map (\<lambda>e. (fst e, length (snd e))) m)"
    using assms(2) unfolding calc_swarm_sizes_def sorts_by_size_def by blast
  case True
  have "5 \<le> snd x" if "x \<in> set ?s" for x
    using that True mset_eq_setD [OF ms] by (auto simp: all_large_def)
  then have "robin_hood rng ?s ?s m mt = Inr (m, mt)" by (cases ?s) simp_all
  then show ?thesis using True all_large_balanced by blast
next
  let ?s = "calc_swarm_sizes srt m"
  have ms: "mset ?s = mset (map (\<lambda>e. (fst e, length (snd e))) m)"
    using assms(2) unfolding calc_swarm_sizes_def sorts_by_size_def by blast
  case False
  have dk: "distinct (map fst m)" using assms(3) by (simp add: swarm_inv_def strict_sorted_iff)
  have "mset (map fst ?s) = mset (map fst m)" using arg_cong [OF ms, of "image_mset fst"] by (simp add: multiset.map_comp o_def)
  then have "distinct (map fst ?s)" using mset_distinct_eq dk by blast
  moreover have "\<forall>x \<in> set ?s. \<exists>v. map_of m (fst x) = Some v \<and> (snd x < 5 \<longrightarrow> length v < 5)"
    using mset_eq_setD [OF ms] map_of_is_SomeI [OF dk] by force
  ultimately obtain m' mt' where r: "robin_hood rng ?s ?s m mt = Inr (m', mt')" "map fst m' = map fst m"
      "mset (swarm_nodes m') = mset (swarm_nodes m)" "large_count m \<le> large_count m'"
      "steal_threshold ?s = 5 \<longrightarrow> none_empty m \<longrightarrow> ?s \<noteq> [] \<longrightarrow> snd (hd ?s) < 5 \<longrightarrow> balanced m'"
    using robin_hood_ok [OF assms(1,3)] by blast
  have "balanced m'" if "2 \<le> length m" "none_empty m"
    using percentile_large [OF assms(2) that False] r(4,5) that(2) by (auto simp: balanced_def)
  then show ?thesis using False r(1-3) by blast
qed

section \<open>Decommissioning swarms\<close>

lemma swarm_erase_split:
  assumes "swarm_inv m" "find (\<lambda>e. length (snd e) < MIN_SWARM_SIZE) m = Some (i, v)"
  obtains xs ys where "m = xs @ (i, v) # ys" "swarm_erase i m = xs @ ys" "length v < 5"
proof -
  have mem: "(i, v) \<in> set m" "length v < 5"
    using assms(2) by (auto simp: find_Some_iff) (metis snd_conv)+
  obtain xs ys where m: "m = xs @ (i, v) # ys" using mem(1) by (meson split_list)
  have "i \<notin> fst ` set xs" "i \<notin> fst ` set ys" using assms(1) by (auto simp: swarm_inv_def m sorted_wrt_append)
  then have "filter (\<lambda>e. fst e \<noteq> i) xs = xs" "filter (\<lambda>e. fst e \<noteq> i) ys = ys"
    by (force intro: filter_True)+
  then show ?thesis using that [OF m] mem(2) by (simp add: swarm_erase_def m)
qed

text \<open>
  What the loop keeps. With fourteen nodes or more it never takes the second of two swarms away, unless
  the middle id is free.
\<close>

definition decommission_safe :: "swarm_snode_map_t \<Rightarrow> bool" where
  "decommission_safe m \<longleftrightarrow> length (swarm_nodes m) < 14 \<or> SWARM_MAX_ID div 2 \<notin> set (map fst m) \<or> balanced m"

lemma small_swarms_nodes: "\<forall>e \<in> set m. length (snd e) \<le> 8 \<Longrightarrow> length (swarm_nodes m) \<le> 8 * length m"
  by (induction m) auto

lemma large_count_le: "large_count m \<le> length m"
  by (simp add: large_count_def)

lemma balanced_erase:
  assumes "balanced (xs @ (i, v) # ys)" "length v < 5" "14 \<le> length (swarm_nodes (xs @ (i, v) # ys))"
  shows "balanced (xs @ ys)" "2 \<le> length (xs @ ys)"
proof -
  show "balanced (xs @ ys)" using assms(1,2) by (auto simp: balanced_def)
  show "2 \<le> length (xs @ ys)"
  proof (cases "2 \<le> large_count (xs @ ys)")
    case True
    then show ?thesis using large_count_le [of "xs @ ys"] by simp
  next
    case False
    then have "\<forall>e \<in> set (xs @ ys). length (snd e) \<le> 8" using assms(1,2) by (auto simp: balanced_def)
    from small_swarms_nodes [OF this] show ?thesis using assms(2,3) by simp
  qed
qed

lemma decommission_loop_ok:
  assumes live: "rng_live rng" and srt: "sorts_by_size srt"
  shows "swarm_inv m \<Longrightarrow> decommission_safe m \<Longrightarrow> 5 \<le> length (swarm_nodes m)
    \<Longrightarrow> length m < fuel \<or> all_large m \<and> 0 < fuel \<Longrightarrow>
    \<exists>m' mt'. decommission_loop rng srt fuel m mt = Inr (m', mt')
      \<and> mset (swarm_nodes m') = mset (swarm_nodes m) \<and> swarm_inv m' \<and> all_large m'"
proof (induction fuel arbitrary: m mt)
  case (Suc fuel)
  show ?case
  proof (cases "find (\<lambda>e. length (snd e) < MIN_SWARM_SIZE) m")
    case None
    then have "all_large m" by (auto simp: find_None_iff all_large_def not_less)
    then show ?thesis using None Suc.prems(1) by simp
  next
    case (Some e)
    obtain i v where e: "e = (i, v)" by (cases e)
    obtain xs ys where sp: "m = xs @ (i, v) # ys" "swarm_erase i m = xs @ ys" "length v < 5"
      using swarm_erase_split [OF Suc.prems(1)] Some e by metis
    have not_large: "\<not> all_large m" using sp(1,3) by simp
    have ne: "xs @ ys \<noteq> []" using Suc.prems(3) sp(1,3) by auto
    have inv1: "swarm_inv (xs @ ys)" using Suc.prems(1) ne by (auto simp: swarm_inv_def sp(1) sorted_wrt_append)
    define n where "n = length (swarm_nodes m)"
    have bal: "balanced (xs @ ys) \<and> 2 \<le> length (xs @ ys)" if "balanced m" "14 \<le> n"
      using balanced_erase [of xs i v ys] that sp(3) by (simp add: n_def sp(1))
    have safe1: "half_safe n (xs @ ys)"
      using Suc.prems(2) bal unfolding half_safe_def decommission_safe_def n_def [symmetric] by (auto simp: sp(1))
    have "distinct (v @ swarm_nodes (xs @ ys))" "length v + length (swarm_nodes (xs @ ys)) < 2 ^ 63"
      "length v + length (swarm_nodes (xs @ ys)) \<le> n"
      using Suc.prems(1) by (auto simp: swarm_inv_def n_def sp(1))
    then obtain m1 mt1 where a: "assign_snodes rng srt DECOMMISSIONED_REDISTRIBUTION_LOWER_PERCENTILE v (xs @ ys) mt = Inr (m1, mt1)"
      "mset (swarm_nodes m1) = mset v + mset (swarm_nodes (xs @ ys))" "swarm_inv m1" "same_or_grown (xs @ ys) m1"
      "2 \<le> length (xs @ ys) \<longrightarrow> balanced (xs @ ys) \<longrightarrow> balanced m1"
      using assign_snodes_ok [OF live srt _ inv1 safe1, of 0 v mt] by auto
    have nodes: "mset (swarm_nodes m1) = mset (swarm_nodes m)" using a(2) by (simp add: sp(1))
    have len: "length (swarm_nodes m1) = n" using arg_cong [OF nodes, of size] by (simp add: n_def)
    have "SWARM_MAX_ID div 2 \<notin> set (map fst m1) \<or> balanced m1" if "SWARM_MAX_ID div 2 \<notin> set (map fst m)"
      using a(4) that all_large_balanced [of m1] unfolding same_or_grown_def by (auto simp: sp(1) simp del: set_map)
    then have safe: "decommission_safe m1"
      using Suc.prems(2) bal a(5) unfolding decommission_safe_def len n_def [symmetric] by force
    have keys: "length m1 = length (xs @ ys) \<or> all_large m1"
      using a(4) unfolding same_or_grown_def by (metis length_map)
    have "length (swarm_nodes m1) = length (swarm_nodes m)" using len by (simp add: n_def)
    moreover have "length m < Suc fuel" using Suc.prems(4) not_large by simp
    moreover have "0 < fuel" using ne \<open>length m < Suc fuel\<close> by (cases "xs @ ys") (auto simp: sp(1))
    ultimately have "\<exists>m' mt'. decommission_loop rng srt fuel m1 mt1 = Inr (m', mt')
        \<and> mset (swarm_nodes m') = mset (swarm_nodes m1) \<and> swarm_inv m' \<and> all_large m'"
      using keys Suc.prems(3) by (intro Suc.IH [OF a(3) safe]) (auto simp: sp(1))
    then show ?thesis using Some a(1) nodes by (auto simp: e sp(2))
  qed
qed simp

section \<open>Recomputing the swarms\<close>

lemma swarm_erase_nodes:
  "distinct (map fst m) \<Longrightarrow> mset (swarm_nodes m) =
     mset (case map_of m k of None \<Rightarrow> [] | Some sns \<Rightarrow> sns) + mset (swarm_nodes (swarm_erase k m))"
proof (induction m)
  case (Cons e m)
  have "k = fst e \<Longrightarrow> filter (\<lambda>x. fst x \<noteq> fst e) m = m"
    using Cons.prems by (intro filter_True) (auto simp: image_iff)
  then show ?case using Cons by (cases e) (auto simp: swarm_erase_def)
qed (simp add: swarm_erase_def)

text \<open>The map the assignment starts from: the unassigned nodes are taken out, and one swarm is made if none is left.\<close>

lemma initial_swarms_ok:
  assumes "sorted_wrt (<) (map fst m)" "distinct (swarm_nodes m)" "length (swarm_nodes m) < 2 ^ 63"
    "length m < 2 ^ 63" "half_safe n (swarm_erase UNASSIGNED_SWARM_ID m)"
  defines "m0 \<equiv> swarm_erase UNASSIGNED_SWARM_ID m"
  defines "m1 \<equiv> (if m0 = [] then swarm_insert (get_new_swarm_id []) [] m0 else m0)"
    and "sns \<equiv> (case map_of m UNASSIGNED_SWARM_ID of None \<Rightarrow> [] | Some sns \<Rightarrow> sns)"
  shows "swarm_inv m1" "half_safe n m1" "mset (swarm_nodes m) = mset sns + mset (swarm_nodes m1)"
    "length m1 = max 1 (length m0)"
proof -
  have nodes: "mset (swarm_nodes m) = mset sns + mset (swarm_nodes m0)"
    unfolding sns_def m0_def using assms(1) by (intro swarm_erase_nodes) (simp add: strict_sorted_iff)
  have init: "swarm_insert (get_new_swarm_id []) [] [] = [(0, [])]" by (simp add: swarm_insert_def get_new_swarm_id_def)
  have z: "SWARM_MAX_ID div 2 \<noteq> 0" by (simp add: SWARM_MAX_ID_def)
  have m0: "sorted_wrt (<) (map fst m0)" "UNASSIGNED_SWARM_ID \<notin> set (map fst m0)" "length m0 \<le> length m"
    using assms(1) by (auto simp: m0_def swarm_erase_def sorted_wrt_map sorted_wrt_filter)
  have "mset (swarm_nodes m0) \<subseteq># mset (swarm_nodes m)" using nodes by simp
  note sub = mset_subseteq_distinct [OF this assms(2)] size_mset_mono [OF this]
  show "swarm_inv m1" using m0 sub assms(3,4) by (auto simp: m1_def init swarm_inv_def)
  show "half_safe n m1" using assms(5) z by (auto simp: m1_def init m0_def half_safe_def)
  show "mset (swarm_nodes m) = mset sns + mset (swarm_nodes m1)" using nodes by (simp add: m1_def init)
  show "length m1 = max 1 (length m0)" by (cases m0) (auto simp: m1_def init)
qed

lemma few_nodes_not_large: "length (swarm_nodes m) < 5 \<Longrightarrow> m \<noteq> [] \<Longrightarrow> \<not> all_large m"
  using all_large_length [of m] by (cases m) auto

text \<open>
  Steps 0 to 3 of the recomputation. They leave a map from which the last step may start, if no swarm was
  empty or the middle id did not matter.
\<close>

lemma calc_swarm_changes_steps:
  assumes "rng_live rng" "sorts_by_size srt"
    "m \<noteq> []" "sorted_wrt (<) (map fst m)" "distinct (swarm_nodes m)"
    "length (swarm_nodes m) < 2 ^ 63" "length m < 2 ^ 63"
  defines "m0 \<equiv> swarm_erase UNASSIGNED_SWARM_ID m" and "n \<equiv> length (swarm_nodes m)"
  assumes safe: "half_safe n m0"
  obtains m4 mt4 where "calc_swarm_changes init rng srt m seed =
      (if length m4 > 1 then bindE (decommission_loop rng srt (Suc (length m4)) m4 mt4) (\<lambda>(m, mt). Inr m) else Inr m4)"
    "mset (swarm_nodes m4) = mset (swarm_nodes m)" "swarm_inv m4"
    "length m4 = max 1 (length m0) \<or> all_large m4"
    "map fst m4 = map fst m0 \<or> m0 = [] \<or> all_large m4 \<and> 2 \<le> length m4"
    "none_empty m0 \<Longrightarrow> 2 \<le> length m0 \<Longrightarrow> balanced m4"
proof -
  define m1 where "m1 = (if m0 = [] then swarm_insert (get_new_swarm_id []) [] m0 else m0)"
  define sns where "sns = (case map_of m UNASSIGNED_SWARM_ID of None \<Rightarrow> [] | Some sns \<Rightarrow> sns)"
  note defs = m0_def [symmetric] m1_def [symmetric] sns_def [symmetric]
  note i = initial_swarms_ok [OF assms(4-7) safe [unfolded m0_def], folded m0_def, folded m1_def sns_def]
  have split: "mset (sns @ swarm_nodes m1) = mset (swarm_nodes m)" using i(3) by simp
  have i4: "distinct (sns @ swarm_nodes m1)" "length sns + length (swarm_nodes m1) = n"
    using mset_distinct_eq [OF split] assms(5) mset_eq_length [OF split] by (simp_all add: n_def)
  obtain m2 mt2 where a: "assign_snodes rng srt FILL_SWARM_LOWER_PERCENTILE sns m1 (init seed) = Inr (m2, mt2)"
    "mset (swarm_nodes m2) = mset (swarm_nodes m)" "swarm_inv m2" "same_or_grown m1 m2" "none_empty m1 \<longrightarrow> none_empty m2"
    using assign_snodes_ok [OF assms(1,2) _ i(1,2) i4(1), of 25 "init seed"] i4(2) assms(6) i(3) by (auto simp: n_def)
  obtain m3 mt3 where r: "robin_hood rng (calc_swarm_sizes srt m2) (calc_swarm_sizes srt m2) m2 mt2 = Inr (m3, mt3)"
    "map fst m3 = map fst m2" "mset (swarm_nodes m3) = mset (swarm_nodes m2)" "all_large m2 \<longrightarrow> all_large m3"
    "2 \<le> length m2 \<longrightarrow> none_empty m2 \<longrightarrow> balanced m3"
    using robin_hood_sizes_ok [OF assms(1,2) a(3), of mt2] by blast
  have inv3: "swarm_inv m3" by (rule swarm_inv_transfer [OF a(3) r(2)]) (simp add: r(3))
  have grown3: "same_or_grown m1 m3"
    by (rule same_or_grown_trans [OF a(4)]) (use r(2,4) in \<open>auto simp: same_or_grown_def\<close>)
  have "length (swarm_nodes m3) \<le> n" using mset_eq_length [of "swarm_nodes m3" "swarm_nodes m"] a(2) r(3) by (simp add: n_def)
  then obtain m4 mt4 where c: "create_new_swarm_from_excess rng m3 mt3 = Inr (m4, mt4)"
    "mset (swarm_nodes m4) = mset (swarm_nodes m3)" "swarm_inv m4" "m4 = m3 \<or> all_large m4 \<and> 2 \<le> length m4"
    using create_new_swarm_from_excess_ok [OF assms(1) inv3 same_or_grown_safe [OF grown3 i(2)]] by blast
  have grown4: "same_or_grown m1 m4" using grown3 c(4) by (auto simp: same_or_grown_def)
  have "calc_swarm_changes init rng srt m seed =
      (if length m4 > 1 then bindE (decommission_loop rng srt (Suc (length m4)) m4 mt4) (\<lambda>(m, mt). Inr m) else Inr m4)"
    using assms(3) by (simp only: calc_swarm_changes_def Let_def defs a(1) r(1) c(1) bindE.simps prod.case if_False)
  moreover have "length m4 = max 1 (length m0) \<or> all_large m4"
    using grown4 i(4) unfolding same_or_grown_def by (metis length_map)
  moreover have "map fst m4 = map fst m0 \<or> m0 = [] \<or> all_large m4 \<and> 2 \<le> length m4"
    using grown4 by (auto simp: same_or_grown_def m1_def split: if_splits)
  moreover have "balanced m4" if "none_empty m0" "2 \<le> length m0"
  proof -
    have "m1 = m0" using that(2) by (auto simp: m1_def)
    then show ?thesis using that a(4,5) r(5) c(4) same_or_grown_length all_large_balanced by metis
  qed
  ultimately show ?thesis using that c(2,3) a(2) r(3) by simp
qed

text \<open>
  C9. Recomputing the swarms returns for every seed, loses no node, invents none and assigns
  every node, and leaves every swarm at the minimum size or above unless only one is left. It does so
  for maps with five nodes at least, or with a single swarm, in which the middle id does not belong to
  a lone swarm when there are fourteen nodes or more (with the middle id in use, no swarm may be empty;
  the caller never builds an empty one). The failures in the other maps are theorems of their own below.
\<close>

theorem calc_swarm_changes_correct:
  assumes "rng_live rng" "sorts_by_size srt"
    "m \<noteq> []" "sorted_wrt (<) (map fst m)" "distinct (swarm_nodes m)"
    "length (swarm_nodes m) < 2 ^ 63" "length m < 2 ^ 63"
  defines "swarms \<equiv> swarm_erase UNASSIGNED_SWARM_ID m"
  assumes "5 \<le> length (swarm_nodes m) \<or> length swarms \<le> 1"
    "length (swarm_nodes m) < 14 \<or> SWARM_MAX_ID div 2 \<notin> set (map fst swarms)
      \<or> 2 \<le> length swarms \<and> (\<forall>e \<in> set swarms. snd e \<noteq> [])"
  shows "\<exists>m'. calc_swarm_changes init rng srt m seed = Inr m'
    \<and> mset (swarm_nodes m') = mset (swarm_nodes m)
    \<and> sorted_wrt (<) (map fst m') \<and> UNASSIGNED_SWARM_ID \<notin> set (map fst m')
    \<and> (length m' = 1 \<or> (\<forall>e \<in> set m'. MIN_SWARM_SIZE \<le> length (snd e)))"
proof -
  have safe: "half_safe (length (swarm_nodes m)) swarms" using assms(10) by (auto simp: half_safe_def)
  obtain m4 mt4 where run: "calc_swarm_changes init rng srt m seed =
      (if length m4 > 1 then bindE (decommission_loop rng srt (Suc (length m4)) m4 mt4) (\<lambda>(m, mt). Inr m) else Inr m4)"
    and m4: "mset (swarm_nodes m4) = mset (swarm_nodes m)" "swarm_inv m4"
    and len: "length m4 = max 1 (length swarms) \<or> all_large m4"
    and keys: "map fst m4 = map fst swarms \<or> swarms = [] \<or> all_large m4 \<and> 2 \<le> length m4"
    and bal: "none_empty swarms \<Longrightarrow> 2 \<le> length swarms \<Longrightarrow> balanced m4"
    using calc_swarm_changes_steps [OF assms(1-7) safe [unfolded swarms_def], folded swarms_def] by blast
  have ne: "m4 \<noteq> []" using m4(2) by (simp add: swarm_inv_def)
  show ?thesis
  proof (cases "length m4 > 1")
    case False
    then have "length m4 = 1" using ne by (cases m4) auto
    then show ?thesis using run m4 by (simp add: swarm_inv_def)
  next
    case True
    have five: "5 \<le> length (swarm_nodes m4)"
      using few_nodes_not_large [OF _ ne] True len assms(9) mset_eq_length [OF m4(1)] by fastforce
    have "all_large m4 \<Longrightarrow> balanced m4" using True all_large_balanced by simp
    moreover have "swarms = [] \<Longrightarrow> all_large m4" using len True by auto
    ultimately have "decommission_safe m4"
      using assms(10) bal keys mset_eq_length [OF m4(1)] unfolding decommission_safe_def none_empty_def by metis
    then obtain m5 mt5 where "decommission_loop rng srt (Suc (length m4)) m4 mt4 = Inr (m5, mt5)"
      "mset (swarm_nodes m5) = mset (swarm_nodes m4)" "swarm_inv m5" "all_large m5"
      using decommission_loop_ok [OF assms(1,2) m4(2) _ five, of "Suc (length m4)" mt4] by auto
    then show ?thesis using run True m4(1) by (auto simp: swarm_inv_def all_large_def)
  qed
qed

lemma sorts_by_size_sort_key: "sorts_by_size (sort_key snd)"
  by (simp add: sorts_by_size_def)

theorem calc_swarm_changes_correct_witness:
  "\<exists>m'. calc_swarm_changes id (\<lambda>s :: u64. (s, s + 1)) (sort_key snd)
      [(0, [1, 2, 3]), (SWARM_MAX_ID div 2, [7, 8, 9, 10, 11, 12, 13, 14]), (UNASSIGNED_SWARM_ID, [4, 5, 6])] 9 = Inr m'
    \<and> mset (swarm_nodes m') = {#1, 2, 3, 4, 5, 6, 7, 8, 9, 10, 11, 12, 13, 14#} \<and> UNASSIGNED_SWARM_ID \<notin> set (map fst m')"
proof -
  define m :: swarm_snode_map_t where
    "m = [(0, [1, 2, 3]), (SWARM_MAX_ID div 2, [7, 8, 9, 10, 11, 12, 13, 14]), (UNASSIGNED_SWARM_ID, [4, 5, 6])]"
  have h: "m \<noteq> []" "length (swarm_nodes m) < 2 ^ 63" "length m < 2 ^ 63" by (simp_all add: m_def)
  have s: "sorted_wrt (<) (map fst m)" unfolding m_def by code_simp
  have d: "distinct (swarm_nodes m)" unfolding m_def by code_simp
  define sw where "sw = swarm_erase UNASSIGNED_SWARM_ID m"
  have w: "5 \<le> length (swarm_nodes m) \<or> length sw \<le> 1" by (simp add: m_def)
  have f: "2 \<le> length sw" "\<forall>e \<in> set sw. snd e \<noteq> []" unfolding sw_def m_def by code_simp+
  have "mset (swarm_nodes m) = {#1, 2, 3, 4, 5, 6, 7, 8, 9, 10, 11, 12, 13, 14#}" by (simp add: m_def)
  then show ?thesis
    using calc_swarm_changes_correct [OF rng_live_counter sorts_by_size_sort_key h(1) s d h(2,3), folded sw_def, OF w, of id 9] f
    unfolding m_def [symmetric] by auto
qed

lemma lone_middle_swarm_loop:
  assumes live: "rng_live rng"
  shows "swarm_inv [(SWARM_MAX_ID div 2, v)] \<Longrightarrow>
    \<exists>v' mt'. create_swarm_loop rng [(SWARM_MAX_ID div 2, v)] mt = Inr ([(SWARM_MAX_ID div 2, v')], mt')
      \<and> mset v' \<subseteq># mset v \<and> (14 \<le> length v \<longrightarrow> length v' + 7 \<le> length v)"
proof (induction "length v" arbitrary: v mt rule: less_induct)
  case less
  let ?m = "[(SWARM_MAX_ID div 2, v)]"
  have ex: "calc_excess ?m = length v - 5" "calc_threshold ?m = 9" by (simp_all add: calc_excess_alt calc_threshold_def)
  show ?case
  proof (cases "14 \<le> length v")
    case False
    then have "\<not> 9 \<le> length v - 5" by linarith
    then have "create_swarm_loop rng ?m mt = Inr (?m, mt)" by (subst create_swarm_loop.simps) (simp add: ex)
    then show ?thesis using False by simp
  next
    case True
    then have "7 \<le> length v - 5" "9 \<le> length v - 5" by linarith+
    note big = this
    obtain ns m1 mt1 where c: "collect_excess rng NEW_SWARM_SIZE [] ?m mt = Inr (Some ns, m1, mt1)" "length ns = 7"
      "mset (swarm_nodes ?m) = mset ns + mset (swarm_nodes m1)" "map fst m1 = map fst ?m"
      using collect_excess_ok [OF live less.prems(1), of 7 "[]" mt] ex(1) big by auto
    obtain v1 where m1: "m1 = [(SWARM_MAX_ID div 2, v1)]" using c(4) by (cases m1) (auto simp: prod_eq_iff)
    have sub: "mset v1 \<subseteq># mset v" "length v1 + 7 = length v"
      using c(2,3) mset_eq_length [of v "ns @ v1"] by (simp_all add: m1)
    have inv1: "swarm_inv [(SWARM_MAX_ID div 2, v1)]" using sub(1) by (intro swarm_inv_transfer [OF less.prems(1)]) simp_all
    have same: "swarm_insert (get_new_swarm_id m1) ns m1 = m1"
      by (simp add: m1 get_new_swarm_id_def swarm_insert_def)
    have "length v1 < length v" using sub(2) by simp
    from less.hyps [OF this inv1, of mt1] obtain v' mt' where
      r: "create_swarm_loop rng m1 mt1 = Inr ([(SWARM_MAX_ID div 2, v')], mt')" "mset v' \<subseteq># mset v1"
      by (auto simp: m1)
    have "create_swarm_loop rng ?m mt = Inr ([(SWARM_MAX_ID div 2, v')], mt')"
      using big c(1) r(1) by (subst create_swarm_loop.simps) (simp add: ex same)
    moreover have "length v' \<le> length v1" using size_mset_mono [OF r(2)] by simp
    ultimately show ?thesis using r(2) sub by (auto intro: subset_mset.order_trans)
  qed
qed

text \<open>
  C38. Why the middle id matters: a lone swarm that has this id and fourteen nodes or more makes
  a new swarm with the same id, the insertion into the map does nothing, and the nodes that were
  taken for the new swarm, at least seven, are in no swarm any more.
\<close>

theorem lone_middle_swarm_drops_nodes:
  assumes "rng_live rng" "distinct v" "14 \<le> length v" "length v < 2 ^ 63"
  shows "\<exists>v' mt'. create_new_swarm_from_excess rng [(SWARM_MAX_ID div 2, v)] mt = Inr ([(SWARM_MAX_ID div 2, v')], mt')
    \<and> mset v' \<subseteq># mset v \<and> length v' + 7 \<le> length v"
proof -
  have "swarm_inv [(SWARM_MAX_ID div 2, v)]" using assms half_id by (auto simp: swarm_inv_def)
  from lone_middle_swarm_loop [OF assms(1) this, of mt] show ?thesis
    using assms(3) by (simp add: create_new_swarm_from_excess_def)
qed

theorem lone_middle_swarm_drops_nodes_witness:
  "\<exists>v' mt'. create_new_swarm_from_excess (\<lambda>s :: u64. (s, s + 1))
      [(SWARM_MAX_ID div 2, [1, 2, 3, 4, 5, 6, 7, 8, 9, 10, 11, 12, 13, 14])] 9 = Inr ([(SWARM_MAX_ID div 2, v')], mt')
    \<and> length v' \<le> 7"
proof -
  have "distinct [1 :: pod32, 2, 3, 4, 5, 6, 7, 8, 9, 10, 11, 12, 13, 14]" by code_simp
  from lone_middle_swarm_drops_nodes [OF rng_live_counter this, of 9] show ?thesis by auto
qed

lemma assign_snodes_empty_map:
  assumes "sorts_by_size srt" "sns \<noteq> []"
  shows "assign_snodes rng srt percentile sns [] mt = Inl OutOfRange"
proof -
  have "srt [] = []" using assms(1) by (metis mset_zero_iff sorts_by_size_def mset.simps(1))
  then show ?thesis using assms(2) by (cases sns) (simp_all add: assign_snode_def calc_swarm_sizes_def)
qed

lemma decommission_loop_throws:
  assumes live: "rng_live rng" and srt: "sorts_by_size srt"
  shows "swarm_inv m \<Longrightarrow> swarm_nodes m \<noteq> [] \<Longrightarrow> length (swarm_nodes m) < 5
    \<Longrightarrow> length m \<le> fuel \<Longrightarrow> decommission_loop rng srt fuel m mt = Inl OutOfRange"
proof (induction fuel arbitrary: m mt)
  case 0
  then show ?case by (simp add: swarm_inv_def)
next
  case (Suc fuel)
  have ne: "m \<noteq> []" using Suc.prems(1) by (simp add: swarm_inv_def)
  then have "find (\<lambda>e. length (snd e) < MIN_SWARM_SIZE) m \<noteq> None"
    using few_nodes_not_large [OF Suc.prems(3)] unfolding find_None_iff all_large_def by (meson not_less)
  then obtain i v where Some: "find (\<lambda>e. length (snd e) < MIN_SWARM_SIZE) m = Some (i, v)" by auto
  obtain xs ys where sp: "m = xs @ (i, v) # ys" "swarm_erase i m = xs @ ys" "length v < 5"
    using swarm_erase_split [OF Suc.prems(1) Some] by metis
  show ?case
  proof (cases "xs @ ys = []")
    case True
    then show ?thesis
      using Some sp Suc.prems(2) assign_snodes_empty_map [OF srt, of v rng 0 mt] by simp
  next
    case False
    have inv1: "swarm_inv (xs @ ys)" using Suc.prems(1) False by (auto simp: swarm_inv_def sp(1) sorted_wrt_append)
    have safe1: "half_safe 13 (xs @ ys)" by (simp add: half_safe_def)
    have "distinct (v @ swarm_nodes (xs @ ys))" "length v + length (swarm_nodes (xs @ ys)) < 2 ^ 63"
      "length v + length (swarm_nodes (xs @ ys)) \<le> 13"
      using Suc.prems(1,3) by (auto simp: swarm_inv_def sp(1))
    then obtain m1 mt1 where a: "assign_snodes rng srt DECOMMISSIONED_REDISTRIBUTION_LOWER_PERCENTILE v (xs @ ys) mt = Inr (m1, mt1)"
      "mset (swarm_nodes m1) = mset v + mset (swarm_nodes (xs @ ys))" "swarm_inv m1" "same_or_grown (xs @ ys) m1"
      using assign_snodes_ok [OF live srt _ inv1 safe1, of 0 v mt] by auto
    have nodes: "mset (swarm_nodes m1) = mset (swarm_nodes m)" using a(2) by (simp add: sp(1))
    have few: "length (swarm_nodes m1) < 5" "swarm_nodes m1 \<noteq> []"
      using Suc.prems(2,3) mset_eq_length [OF nodes] by auto
    then have "\<not> all_large m1" using few_nodes_not_large a(3) by (simp add: swarm_inv_def)
    then have "length m1 = length (xs @ ys)" using a(4) unfolding same_or_grown_def by (metis length_map)
    then have "decommission_loop rng srt fuel m1 mt1 = Inl OutOfRange"
      using Suc.prems(4) few by (intro Suc.IH [OF a(3)]) (auto simp: sp(1))
    then show ?thesis using Some a(1) by (simp add: sp(2))
  qed
qed

text \<open>
  C39. Why five nodes matter: with two swarms or more and fewer than five nodes, but at least one, the
  loop that decommissions swarms removes the last swarm too, and reassigning its nodes reads the
  sizes of an empty map: the code throws \<^verbatim>\<open>std::out_of_range\<close>, whatever the ids and the seed.
\<close>

theorem calc_swarm_changes_throws:
  assumes "rng_live rng" "sorts_by_size srt" "sorted_wrt (<) (map fst m)" "distinct (swarm_nodes m)"
    "length m < 2 ^ 63" "swarm_nodes m \<noteq> []" "length (swarm_nodes m) < 5"
    "2 \<le> length (swarm_erase UNASSIGNED_SWARM_ID m)"
  shows "calc_swarm_changes init rng srt m seed = Inl OutOfRange"
proof -
  have m: "m \<noteq> []" "length (swarm_nodes m) < 2 ^ 63" "half_safe (length (swarm_nodes m)) (swarm_erase UNASSIGNED_SWARM_ID m)"
    using assms(6,7) by (auto simp: half_safe_def)
  obtain m4 mt4 where run: "calc_swarm_changes init rng srt m seed =
      (if length m4 > 1 then bindE (decommission_loop rng srt (Suc (length m4)) m4 mt4) (\<lambda>(m, mt). Inr m) else Inr m4)"
    and m4: "mset (swarm_nodes m4) = mset (swarm_nodes m)" "swarm_inv m4"
    and len: "length m4 = max 1 (length (swarm_erase UNASSIGNED_SWARM_ID m)) \<or> all_large m4"
    using calc_swarm_changes_steps [OF assms(1,2) m(1) assms(3,4) m(2) assms(5) m(3)] by blast
  have few: "swarm_nodes m4 \<noteq> []" "length (swarm_nodes m4) < 5" using assms(6,7) mset_eq_length [OF m4(1)] by auto
  then have "length m4 > 1" using len assms(8) few_nodes_not_large m4(2) by (auto simp: swarm_inv_def)
  then show ?thesis using run decommission_loop_throws [OF assms(1,2) m4(2) few, of "Suc (length m4)" mt4] by simp
qed

theorem calc_swarm_changes_throws_witness:
  "calc_swarm_changes id (\<lambda>s :: u64. (s, s + 1)) (sort_key snd) [(0, [1, 2]), (SWARM_MAX_ID div 2, [3, 4])] 9 = Inl OutOfRange"
proof -
  define m :: swarm_snode_map_t where "m = [(0, [1, 2]), (SWARM_MAX_ID div 2, [3, 4])]"
  have s: "sorted_wrt (<) (map fst m)" unfolding m_def by code_simp
  have d: "distinct (swarm_nodes m)" unfolding m_def by code_simp
  have l: "2 \<le> length (swarm_erase UNASSIGNED_SWARM_ID m)" unfolding m_def by code_simp
  show ?thesis
    using calc_swarm_changes_throws [OF rng_live_counter sorts_by_size_sort_key s d _ _ _ l, of id 9]
    by (simp add: m_def)
qed

end
