(* ===== verification/Framepix_Voting.thy ===== *)
theory Framepix_Voting
  imports Framepix_Rules
begin

text \<open>
  Votes of the quorums, \<^verbatim>\<open>src/src/cryptonote_core/frame_pix_voting.cpp\<close>: making a vote, checking the
  votes of a state change transaction, of a checkpoint and of a single message, and the fixed
  120-byte form of a vote. Enumerations that arrive as bytes keep their numeric value, because the
  code compares values that need not name a constructor. The hash and the signature scheme are a
  record of functions; what a theorem needs of them is a hypothesis.
\<close>

section \<open>Data\<close>

type_synonym signature = "pod32 \<times> pod32"

abbreviation (input) null_pod :: pod32 where "null_pod \<equiv> 0"

record crypto_ops =
  cn_fast_hash :: "byte list \<Rightarrow> pod32"
  check_signature :: "pod32 \<Rightarrow> pod32 \<Rightarrow> signature \<Rightarrow> bool"
  generate_signature :: "pod32 \<Rightarrow> pod32 \<Rightarrow> pod32 \<Rightarrow> signature"

record quorum =
  validators :: "pod32 list"
  workers :: "pod32 list"

abbreviation (input) NS_DEREGISTER :: u16 where "NS_DEREGISTER \<equiv> 0"
abbreviation (input) NS_DECOMMISSION :: u16 where "NS_DECOMMISSION \<equiv> 1"
abbreviation (input) NS_RECOMMISSION :: u16 where "NS_RECOMMISSION \<equiv> 2"
abbreviation (input) NS_IP_CHANGE_PENALTY :: u16 where "NS_IP_CHANGE_PENALTY \<equiv> 3"
abbreviation (input) NS_COUNT :: u16 where "NS_COUNT \<equiv> 4"

abbreviation (input) QT_OBLIGATIONS :: u8 where "QT_OBLIGATIONS \<equiv> 0"
abbreviation (input) QT_CHECKPOINTING :: u8 where "QT_CHECKPOINTING \<equiv> 1"
abbreviation (input) QT_TOP :: u8 where "QT_TOP \<equiv> 2"

abbreviation (input) QG_VALIDATOR :: u8 where "QG_VALIDATOR \<equiv> 1"
abbreviation (input) QG_WORKER :: u8 where "QG_WORKER \<equiv> 2"

text \<open>
  The last three fields are the members of the union: the worker index and the state of a state change
  vote, the block hash of a checkpoint vote.
\<close>

record quorum_vote_t =
  version :: u8
  type_of_vote :: u8
  block_height :: u64
  group_of_vote :: u8
  index_in_group :: u16
  signature_of_vote :: signature
  worker_index :: u16
  state_of_vote :: u16
  block_hash :: pod32

record vote_verification_context =
  m_verification_failed :: bool
  m_invalid_block_height :: bool
  m_duplicate_voters :: bool
  m_validator_index_out_of_bounds :: bool
  m_worker_index_out_of_bounds :: bool
  m_signature_not_valid :: bool
  m_added_to_pool :: bool
  m_not_enough_votes :: bool
  m_incorrect_voting_group :: bool
  m_invalid_vote_type :: bool
  m_votes_not_sorted :: bool

record tx_verification_context =
  m_should_be_relayed :: bool
  m_verifivation_failed :: bool
  m_verifivation_impossible :: bool
  m_tx_added_to_pool :: bool
  m_low_mixin :: bool
  m_double_spend :: bool
  m_invalid_input :: bool
  m_invalid_output :: bool
  m_too_big :: bool
  m_overspend :: bool
  m_fee_too_low :: bool
  m_not_rct :: bool
  m_invalid_version :: bool
  m_invalid_type :: bool
  m_key_image_locked_by_snode :: bool
  m_key_image_blacklisted :: bool
  m_tx_extra_too_big :: bool
  m_verbose_error :: string
  m_vote_ctx :: vote_verification_context

record state_change_vote =
  scv_signature :: signature
  validator_index :: u32

record tx_extra_frame_pix_state_change =
  sc_state :: u16
  sc_block_height :: u64
  frame_pix_index :: u32
  sc_votes :: "state_change_vote list"

datatype checkpoint_type = hardcoded | frame_pix

record voter_to_signature =
  voter_index :: u16
  voter_signature :: signature

record checkpoint_t =
  cp_version :: u8
  cp_type :: checkpoint_type
  cp_height :: u64
  cp_block_hash :: pod32
  cp_signatures :: "voter_to_signature list"
  cp_prev_height :: u64

record frame_pix_keys =
  key_sec :: pod32
  key_pub :: pod32

section \<open>Hashes and signatures of votes\<close>

definition make_state_change_vote_hash :: "crypto_ops \<Rightarrow> u64 \<Rightarrow> u32 \<Rightarrow> u16 \<Rightarrow> pod32" where
  "make_state_change_vote_hash cr height index state =
     (let buf = le_bytes 8 height @ le_bytes 4 index @ le_bytes 2 state;
          size = length buf - (if state = NS_DEREGISTER then 2 else 0)
      in cn_fast_hash cr (take size buf))"

definition make_signature_from_vote :: "crypto_ops \<Rightarrow> quorum_vote_t \<Rightarrow> frame_pix_keys \<Rightarrow> signature" where
  "make_signature_from_vote cr vote keys =
     (if type_of_vote vote = QT_OBLIGATIONS then
        generate_signature cr
          (make_state_change_vote_hash cr (block_height vote) (ucast (worker_index vote)) (state_of_vote vote))
          (key_pub keys) (key_sec keys)
      else if type_of_vote vote = QT_CHECKPOINTING then
        generate_signature cr (block_hash vote) (key_pub keys) (key_sec keys)
      else (0, 0))"

definition make_signature_from_tx_state_change ::
    "crypto_ops \<Rightarrow> tx_extra_frame_pix_state_change \<Rightarrow> frame_pix_keys \<Rightarrow> signature" where
  "make_signature_from_tx_state_change cr state_change keys =
     generate_signature cr
       (make_state_change_vote_hash cr (sc_block_height state_change) (frame_pix_index state_change) (sc_state state_change))
       (key_pub keys) (key_sec keys)"

definition make_state_change_vote ::
    "crypto_ops \<Rightarrow> u64 \<Rightarrow> u16 \<Rightarrow> u16 \<Rightarrow> u16 \<Rightarrow> frame_pix_keys \<Rightarrow> quorum_vote_t" where
  "make_state_change_vote cr height validator worker state keys =
     (let result = \<lparr>version = 0, type_of_vote = QT_OBLIGATIONS, block_height = height, group_of_vote = QG_VALIDATOR,
            index_in_group = validator, signature_of_vote = (0, 0), worker_index = worker, state_of_vote = state,
            block_hash = null_pod\<rparr>
      in result\<lparr>signature_of_vote := make_signature_from_vote cr result keys\<rparr>)"

definition make_checkpointing_vote ::
    "crypto_ops \<Rightarrow> u8 \<Rightarrow> pod32 \<Rightarrow> u64 \<Rightarrow> u16 \<Rightarrow> frame_pix_keys \<Rightarrow> quorum_vote_t" where
  "make_checkpointing_vote cr hf_version hash height index_in_quorum keys =
     (let result = \<lparr>version = 0, type_of_vote = QT_CHECKPOINTING, block_height = height, group_of_vote = QG_VALIDATOR,
            index_in_group = index_in_quorum, signature_of_vote = (0, 0), worker_index = 0, state_of_vote = 0,
            block_hash = hash\<rparr>
      in result\<lparr>signature_of_vote := make_signature_from_vote cr result keys\<rparr>)"

definition make_empty_frame_pix_checkpoint :: "pod32 \<Rightarrow> u64 \<Rightarrow> checkpoint_t" where
  "make_empty_frame_pix_checkpoint hash height =
     \<lparr>cp_version = 0, cp_type = frame_pix, cp_height = height, cp_block_hash = hash, cp_signatures = [], cp_prev_height = 0\<rparr>"

section \<open>Verification\<close>

text \<open>The context is returned with the flags that were set.\<close>

definition bounds_check_worker_index ::
    "quorum \<Rightarrow> u32 \<Rightarrow> vote_verification_context \<Rightarrow> bool \<times> vote_verification_context" where
  "bounds_check_worker_index q index vvc =
     (if unat index \<ge> length (workers q) then (False, vvc\<lparr>m_worker_index_out_of_bounds := True\<rparr>) else (True, vvc))"

definition bounds_check_validator_index ::
    "quorum \<Rightarrow> u32 \<Rightarrow> vote_verification_context \<Rightarrow> bool \<times> vote_verification_context" where
  "bounds_check_validator_index q index vvc =
     (if unat index \<ge> length (validators q) then (False, vvc\<lparr>m_validator_index_out_of_bounds := True\<rparr>) else (True, vvc))"

definition bad_tx :: "tx_verification_context \<Rightarrow> bool \<times> tx_verification_context" where
  "bad_tx tvc = (False, tvc\<lparr>m_verifivation_failed := True\<rparr>)"

text \<open>
  The loop over the votes: the last index seen and the counters of the validators, one for each
  of the five seats of the quorum.
\<close>

fun check_votes_loop :: "crypto_ops \<Rightarrow> quorum \<Rightarrow> u8 \<Rightarrow> pod32 \<Rightarrow> state_change_vote list \<Rightarrow> int \<Rightarrow> nat list
    \<Rightarrow> tx_verification_context \<Rightarrow> bool \<times> tx_verification_context" where
  "check_votes_loop cr q hf_version hash [] tracker validator_set tvc = (True, tvc)"
| "check_votes_loop cr q hf_version hash (vote # votes) tracker validator_set tvc =
     (if hf_version \<ge> 13 \<and> tracker \<ge> sint (validator_index vote)
      then bad_tx (tvc\<lparr>m_vote_ctx := (m_vote_ctx tvc)\<lparr>m_votes_not_sorted := True\<rparr>\<rparr>)
      else
        let tracker' = (if hf_version \<ge> 13 then sint (validator_index vote) else tracker);
            (ok, vvc) = bounds_check_validator_index q (validator_index vote) (m_vote_ctx tvc);
            tvc' = tvc\<lparr>m_vote_ctx := vvc\<rparr>;
            i = unat (validator_index vote)
        in if \<not> ok then bad_tx tvc'
           else if validator_set ! i + 1 > 1
           then bad_tx (tvc'\<lparr>m_vote_ctx := (m_vote_ctx tvc')\<lparr>m_duplicate_voters := True\<rparr>\<rparr>)
           else if \<not> check_signature cr hash (validators q ! i) (scv_signature vote)
           then bad_tx (tvc'\<lparr>m_vote_ctx := (m_vote_ctx tvc')\<lparr>m_signature_not_valid := True\<rparr>\<rparr>)
           else check_votes_loop cr q hf_version hash votes tracker' (validator_set[i := validator_set ! i + 1]) tvc')"

definition verify_tx_state_change :: "crypto_ops \<Rightarrow> tx_extra_frame_pix_state_change \<Rightarrow> u64 \<Rightarrow> tx_verification_context
    \<Rightarrow> quorum \<Rightarrow> u8 \<Rightarrow> bool \<times> tx_verification_context" where
  "verify_tx_state_change cr state_change latest_height tvc q hf_version =
     (let vvc = m_vote_ctx tvc
      in if sc_state state_change \<noteq> NS_DEREGISTER \<and> hf_version < 12 then bad_tx tvc
      else if sc_state state_change \<ge> NS_COUNT then bad_tx tvc
      else if length (sc_votes state_change) < STATE_CHANGE_MIN_VOTES_TO_CHANGE_STATE
      then bad_tx (tvc\<lparr>m_vote_ctx := vvc\<lparr>m_not_enough_votes := True\<rparr>\<rparr>)
      else if length (sc_votes state_change) > STATE_CHANGE_QUORUM_SIZE then bad_tx tvc
      else
        let (ok, vvc1) = bounds_check_worker_index q (frame_pix_index state_change) vvc;
            tvc1 = tvc\<lparr>m_vote_ctx := vvc1\<rparr>
        in if \<not> ok then bad_tx tvc1
        else if sc_block_height state_change \<ge> latest_height
        then (False, tvc1\<lparr>m_vote_ctx := vvc1\<lparr>m_invalid_block_height := True\<rparr>,
                m_verifivation_failed := m_verifivation_failed tvc1
                  \<or> sc_block_height state_change \<ge> latest_height + VOTE_OR_TX_VERIFY_HEIGHT_BUFFER\<rparr>)
        else if latest_height \<ge> sc_block_height state_change + STATE_CHANGE_TX_LIFETIME_IN_BLOCKS
        then (False, tvc1\<lparr>m_vote_ctx := vvc1\<lparr>m_invalid_block_height := True\<rparr>,
                m_verifivation_failed := m_verifivation_failed tvc1
                  \<or> latest_height \<ge> sc_block_height state_change
                      + (STATE_CHANGE_TX_LIFETIME_IN_BLOCKS + VOTE_OR_TX_VERIFY_HEIGHT_BUFFER)\<rparr>)
        else
          let hash = make_state_change_vote_hash cr (sc_block_height state_change) (frame_pix_index state_change) (sc_state state_change)
          in check_votes_loop cr q hf_version hash (sc_votes state_change) (- 1) (replicate STATE_CHANGE_QUORUM_SIZE 0) tvc1)"

text \<open>The loop of \<^verbatim>\<open>verify_checkpoint\<close>; the tail of the list is what is left of the signatures.\<close>

fun check_signatures_loop :: "crypto_ops \<Rightarrow> quorum \<Rightarrow> u8 \<Rightarrow> pod32 \<Rightarrow> voter_to_signature list \<Rightarrow> nat list \<Rightarrow> bool" where
  "check_signatures_loop cr q hf_version hash [] unique_vote_set = True"
| "check_signatures_loop cr q hf_version hash (v # vs) unique_vote_set =
     (if hf_version \<ge> 13 \<and> vs \<noteq> [] \<and> voter_index v \<ge> voter_index (hd vs) then False
      else
        let i = unat (voter_index v)
        in if i \<ge> length (validators q) then False
           else if unique_vote_set ! i \<noteq> 0 then False
           else if \<not> check_signature cr hash (validators q ! i) (voter_signature v) then False
           else check_signatures_loop cr q hf_version hash vs (unique_vote_set[i := unique_vote_set ! i + 1]))"

definition verify_checkpoint :: "crypto_ops \<Rightarrow> u8 \<Rightarrow> checkpoint_t \<Rightarrow> quorum \<Rightarrow> bool" where
  "verify_checkpoint cr hf_version checkpoint q =
     (case cp_type checkpoint of
        frame_pix \<Rightarrow>
          if cp_height checkpoint mod CHECKPOINT_INTERVAL \<noteq> 0 then False
          else if length (cp_signatures checkpoint) < CHECKPOINT_MIN_VOTES then False
          else if length (cp_signatures checkpoint) > CHECKPOINT_QUORUM_SIZE then False
          else check_signatures_loop cr q hf_version (cp_block_hash checkpoint) (cp_signatures checkpoint)
                 (replicate CHECKPOINT_QUORUM_SIZE 0)
      | hardcoded \<Rightarrow> cp_signatures checkpoint = [])"

definition verify_vote_age :: "quorum_vote_t \<Rightarrow> u64 \<Rightarrow> vote_verification_context \<Rightarrow> bool \<times> vote_verification_context" where
  "verify_vote_age vote latest_height vvc =
     (let (height_in_buffer, vvc1) =
        (if latest_height > block_height vote + VOTE_LIFETIME
         then (latest_height \<le> block_height vote + (VOTE_LIFETIME + VOTE_OR_TX_VERIFY_HEIGHT_BUFFER),
               vvc\<lparr>m_invalid_block_height := True\<rparr>)
         else if block_height vote > latest_height
         then (block_height vote \<le> latest_height + VOTE_OR_TX_VERIFY_HEIGHT_BUFFER, vvc\<lparr>m_invalid_block_height := True\<rparr>)
         else (False, vvc))
      in if m_invalid_block_height vvc1 then (False, vvc1\<lparr>m_verification_failed := \<not> height_in_buffer\<rparr>)
         else (True, vvc1))"

definition verify_vote_signature :: "crypto_ops \<Rightarrow> u8 \<Rightarrow> quorum_vote_t \<Rightarrow> vote_verification_context \<Rightarrow> quorum
    \<Rightarrow> bool \<times> vote_verification_context" where
  "verify_vote_signature cr hf_version vote vvc q =
     (let bad_type = (type_of_vote vote > QT_TOP);
          bad_group = (group_of_vote vote > QG_WORKER \<or> group_of_vote vote < QG_VALIDATOR);
          vvc1 = (if bad_type then vvc\<lparr>m_invalid_vote_type := True\<rparr> else vvc);
          vvc2 = (if bad_group then vvc1\<lparr>m_incorrect_voting_group := True\<rparr> else vvc1)
      in if bad_type \<or> bad_group then (False, vvc2)
      else
        let (ok, vvc3) =
          (if group_of_vote vote = QG_VALIDATOR
           then bounds_check_validator_index q (ucast (index_in_group vote)) vvc2
           else bounds_check_worker_index q (ucast (index_in_group vote)) vvc2)
        in if \<not> ok then (False, vvc3)
        else if type_of_vote vote \<noteq> QT_OBLIGATIONS \<and> type_of_vote vote \<noteq> QT_CHECKPOINTING then (False, vvc3)
        else if group_of_vote vote \<noteq> QG_VALIDATOR then (False, vvc3\<lparr>m_incorrect_voting_group := True\<rparr>)
        else
          let key = validators q ! unat (index_in_group vote);
              hash = (if type_of_vote vote = QT_OBLIGATIONS
                then make_state_change_vote_hash cr (block_height vote) (ucast (worker_index vote)) (state_of_vote vote)
                else block_hash vote);
              (ok2, vvc4) = (if type_of_vote vote = QT_OBLIGATIONS
                then bounds_check_worker_index q (ucast (worker_index vote)) vvc3 else (True, vvc3))
          in if \<not> ok2 then (False, vvc4)
             else if check_signature cr hash key (signature_of_vote vote) then (True, vvc4)
             else (False, vvc4\<lparr>m_signature_not_valid := True\<rparr>))"

section \<open>The byte form of a vote\<close>

definition bytes_of_signature :: "signature \<Rightarrow> byte list" where
  "bytes_of_signature s = bytes_of_pod (fst s) @ bytes_of_pod (snd s)"

definition signature_of_bytes :: "byte list \<Rightarrow> signature" where
  "signature_of_bytes bs = (pod_of_bytes (take 32 bs), pod_of_bytes (drop 32 bs))"

definition vote_to_blob :: "quorum_vote_t \<Rightarrow> byte list" where
  "vote_to_blob vote =
     [version vote, type_of_vote vote] @ replicate 6 0 @ le_bytes 8 (block_height vote)
     @ [group_of_vote vote, 0] @ le_bytes 2 (index_in_group vote) @ bytes_of_signature (signature_of_vote vote)
     @ (if type_of_vote vote = QT_CHECKPOINTING
        then bytes_of_pod (block_hash vote) @ replicate 4 0
        else le_bytes 2 (worker_index vote) @ le_bytes 2 (state_of_vote vote) @ replicate 32 0)"

definition slice :: "nat \<Rightarrow> nat \<Rightarrow> byte list \<Rightarrow> byte list" where
  "slice i n bs = take n (drop i bs)"

text \<open>Reading a vote writes into an existing object: the member of the union that is not read keeps its value.\<close>

definition blob_to_vote :: "byte list \<Rightarrow> quorum_vote_t \<Rightarrow> quorum_vote_t" where
  "blob_to_vote blob vote =
     (let vote1 = vote\<lparr>version := blob ! 0, type_of_vote := blob ! 1, block_height := word_of_le (slice 8 8 blob),
            group_of_vote := blob ! 16, index_in_group := word_of_le (slice 18 2 blob),
            signature_of_vote := signature_of_bytes (slice 20 64 blob)\<rparr>
      in if type_of_vote vote1 = QT_CHECKPOINTING
         then vote1\<lparr>block_hash := pod_of_bytes (slice 84 32 blob)\<rparr>
         else vote1\<lparr>worker_index := word_of_le (slice 84 2 blob), state_of_vote := word_of_le (slice 86 2 blob)\<rparr>)"

section \<open>Heights\<close>

lemma VOTE_LIFETIME_60: "VOTE_LIFETIME = 60"
  by (simp add: VOTE_LIFETIME_def BLOCKS_EXPECTED_IN_HOURS_def)

lemma u64_add_le_iff:
  fixes a b c :: u64
  assumes "unat a + unat b < 2 ^ 64"
  shows "a + b \<le> c \<longleftrightarrow> unat a + unat b \<le> unat c"
  using unat_add_u64_no_wrap [of a b] assms by (simp add: word_le_nat_alt)

section \<open>The votes of a state change\<close>

definition voter :: "state_change_vote \<Rightarrow> nat" where
  "voter v = unat (validator_index v)"

lemma sint_small_u32: "unat (w :: u32) < 5 \<Longrightarrow> sint w = int (unat w)"
proof -
  assume "unat w < 5"
  then have "w < 5" by (simp add: word_less_nat_alt)
  then have "uint w < 5" by (simp add: word_less_def)
  then have "signed_take_bit 31 (uint w) = uint w"
    by (intro signed_take_bit_int_eq_self order_trans [OF _ uint_nonnegative]) simp_all
  then show ?thesis by (simp add: sint_uint)
qed

lemma counter_update:
  fixes vs :: "nat list"
  assumes "i < length vs" "j < length vs"
  shows "vs[i := Suc (vs ! i)] ! j = 0 \<longleftrightarrow> j \<noteq> i \<and> vs ! j = 0"
  using assms by (simp add: nth_list_update)

lemma bad_tx_fst [simp]: "fst (bad_tx tvc) = False"
  by (simp add: bad_tx_def)

text \<open>What the loop over the votes accepts, for every position of the loop.\<close>

lemma check_votes_loop_iff:
  assumes "length (validators q) \<le> 5"
  shows "length vs = 5 \<Longrightarrow> fst (check_votes_loop cr q hf hash votes tr vs tvc) \<longleftrightarrow>
    (\<forall>v \<in> set votes. voter v < length (validators q) \<and> vs ! voter v = 0
      \<and> check_signature cr hash (validators q ! voter v) (scv_signature v))
    \<and> distinct (map voter votes)
    \<and> (13 \<le> hf \<longrightarrow> sorted_wrt (<) (tr # map (\<lambda>v. sint (validator_index v)) votes))"
proof (induction votes arbitrary: tr vs tvc)
  case (Cons v votes)
  show ?case
  proof (cases "voter v < length (validators q)")
    case False
    then show ?thesis
      by (auto simp: bounds_check_validator_index_def voter_def Let_def)
  next
    case True
    define vs' where "vs' = vs[voter v := Suc (vs ! voter v)]"
    have len: "length vs' = 5" using Cons.prems by (simp add: vs'_def)
    have upd: "vs' ! voter w = 0 \<longleftrightarrow> voter w \<noteq> voter v \<and> vs ! voter w = 0" if "voter w < length (validators q)" for w
      unfolding vs'_def using that True assms Cons.prems by (intro counter_update) auto
    have step: "fst (check_votes_loop cr q hf hash (v # votes) tr vs tvc) \<longleftrightarrow>
        (13 \<le> hf \<longrightarrow> tr < sint (validator_index v)) \<and> vs ! voter v = 0
        \<and> check_signature cr hash (validators q ! voter v) (scv_signature v)
        \<and> fst (check_votes_loop cr q hf hash votes (if 13 \<le> hf then sint (validator_index v) else tr) vs' tvc)"
      using True by (auto simp: bounds_check_validator_index_def voter_def Let_def vs'_def)
    show ?thesis
      unfolding step Cons.IH [OF len] using True upd by (auto simp: image_iff)
  qed
qed simp

lemma voters_sorted_iff:
  assumes "length (validators q) \<le> 5" "\<forall>v \<in> set votes. voter v < length (validators q)"
  shows "sorted_wrt (<) ((- 1) # map (\<lambda>v. sint (validator_index v)) votes) \<longleftrightarrow> sorted_wrt (<) (map voter votes)"
proof -
  have eq: "map (\<lambda>v. sint (validator_index v)) votes = map (\<lambda>v. int (voter v)) votes"
    using assms by (auto simp: voter_def sint_small_u32)
  show ?thesis unfolding eq by (simp add: sorted_wrt_map)
qed

text \<open>
  C3. The check of a state change transaction accepts exactly the transactions with a known new state
  (only deregistration before hard fork 12), between one and five votes, a worker of the quorum, a
  height below the current one and less than the lifetime of a vote old, from distinct validators
  of the quorum, in ascending order from hard fork 13 on, each with a valid signature on the change.
\<close>

theorem verify_tx_state_change_iff:
  fixes cr :: crypto_ops and sc :: tx_extra_frame_pix_state_change
  assumes "length (validators q) \<le> STATE_CHANGE_QUORUM_SIZE" "unat latest + 60 < 2 ^ 64"
  defines "hash \<equiv> make_state_change_vote_hash cr (sc_block_height sc) (frame_pix_index sc) (sc_state sc)"
  shows "fst (verify_tx_state_change cr sc latest tvc q hf) \<longleftrightarrow>
    (hf < 12 \<longrightarrow> sc_state sc = NS_DEREGISTER) \<and> sc_state sc < NS_COUNT
    \<and> length (sc_votes sc) \<in> {1..5} \<and> unat (frame_pix_index sc) < length (workers q)
    \<and> unat (sc_block_height sc) < unat latest \<and> unat latest < unat (sc_block_height sc) + 60
    \<and> distinct (map voter (sc_votes sc)) \<and> (13 \<le> hf \<longrightarrow> sorted_wrt (<) (map voter (sc_votes sc)))
    \<and> (\<forall>v \<in> set (sc_votes sc). voter v < length (validators q)
        \<and> check_signature cr hash (validators q ! voter v) (scv_signature v))"
proof -
  have v5: "length (validators q) \<le> 5" using assms(1) by simp
  have zero: "voter v < length (validators q) \<Longrightarrow> replicate 5 (0 :: nat) ! voter v = 0" for v
    using v5 by simp
  have loop: "fst (check_votes_loop cr q hf hash (sc_votes sc) (- 1) (replicate 5 0) t) \<longleftrightarrow>
      (\<forall>v \<in> set (sc_votes sc). voter v < length (validators q)
        \<and> check_signature cr hash (validators q ! voter v) (scv_signature v))
      \<and> distinct (map voter (sc_votes sc)) \<and> (13 \<le> hf \<longrightarrow> sorted_wrt (<) (map voter (sc_votes sc)))" for t
    using check_votes_loop_iff [OF v5, of "replicate 5 0" cr hf hash "sc_votes sc" "- 1" t] voters_sorted_iff [OF v5] zero by auto
  have newer: "\<not> sc_block_height sc \<ge> latest \<longleftrightarrow> unat (sc_block_height sc) < unat latest"
    by (simp add: word_less_nat_alt not_le)
  have older: "unat (sc_block_height sc) < unat latest \<Longrightarrow>
      \<not> latest \<ge> sc_block_height sc + VOTE_LIFETIME \<longleftrightarrow> unat latest < unat (sc_block_height sc) + 60"
    using u64_add_le_iff [of "sc_block_height sc" 60 latest] assms(2) by (simp add: VOTE_LIFETIME_60 not_le)
  have guards: "fst (verify_tx_state_change cr sc latest tvc q hf) \<longleftrightarrow>
      \<not> (sc_state sc \<noteq> NS_DEREGISTER \<and> hf < 12) \<and> \<not> sc_state sc \<ge> NS_COUNT
      \<and> \<not> length (sc_votes sc) < 1 \<and> \<not> length (sc_votes sc) > 5 \<and> \<not> unat (frame_pix_index sc) \<ge> length (workers q)
      \<and> \<not> sc_block_height sc \<ge> latest \<and> \<not> latest \<ge> sc_block_height sc + VOTE_LIFETIME
      \<and> fst (check_votes_loop cr q hf hash (sc_votes sc) (- 1) (replicate 5 0) (tvc\<lparr>m_vote_ctx := m_vote_ctx tvc\<rparr>))"
    unfolding verify_tx_state_change_def hash_def bounds_check_worker_index_def Let_def
    by (simp only: if_distrib [of fst] bad_tx_fst fst_conv prod.case if_distribR split: if_split) (simp only: prod.case simp_thms split: if_split, blast?)
  show ?thesis
  proof (cases "unat (sc_block_height sc) < unat latest")
    case True
    show ?thesis unfolding guards loop newer older [OF True] by (auto simp: Suc_le_eq)
  qed (simp add: guards newer)
qed

text \<open>An abstract scheme for the witnesses: a signature is valid when its first half is the hash and its second half the key.\<close>

definition toy_crypto :: crypto_ops where
  "toy_crypto = \<lparr>cn_fast_hash = (\<lambda>bs. word_of_le bs), check_signature = (\<lambda>h k s. s = (h, k)),
     generate_signature = (\<lambda>h pub sec. (h, pub))\<rparr>"

theorem verify_tx_state_change_iff_witness:
  "\<forall>tvc. fst (verify_tx_state_change toy_crypto
      \<lparr>sc_state = NS_DECOMMISSION, sc_block_height = 100, frame_pix_index = 0,
       sc_votes = [\<lparr>scv_signature = (word_of_le (le_bytes 8 (100 :: u64) @ le_bytes 4 (0 :: u32) @ le_bytes 2 (1 :: u16)), 7),
                    validator_index = 1\<rparr>]\<rparr>
      110 tvc \<lparr>validators = [6, 7], workers = [8]\<rparr> 16)"
  by (intro allI, subst verify_tx_state_change_iff) (simp_all add: toy_crypto_def make_state_change_vote_hash_def voter_def)

section \<open>The signatures of a checkpoint\<close>

lemma check_signatures_loop_iff:
  assumes "length (validators q) \<le> 2"
  shows "length us = 2 \<Longrightarrow> check_signatures_loop cr q hf hash vs us \<longleftrightarrow>
    (\<forall>v \<in> set vs. unat (voter_index v) < length (validators q) \<and> us ! unat (voter_index v) = 0
      \<and> check_signature cr hash (validators q ! unat (voter_index v)) (voter_signature v))
    \<and> distinct (map voter_index vs) \<and> (13 \<le> hf \<longrightarrow> sorted_wrt (<) (map voter_index vs))"
proof (induction vs arbitrary: us)
  case (Cons v vs)
  define i where "i = unat (voter_index v)"
  define us' where "us' = us[i := Suc (us ! i)]"
  have len: "length us' = 2" using Cons.prems by (simp add: us'_def)
  have step: "check_signatures_loop cr q hf hash (v # vs) us \<longleftrightarrow>
      (13 \<le> hf \<longrightarrow> vs \<noteq> [] \<longrightarrow> voter_index v < voter_index (hd vs)) \<and> i < length (validators q) \<and> us ! i = 0
      \<and> check_signature cr hash (validators q ! i) (voter_signature v) \<and> check_signatures_loop cr q hf hash vs us'"
    by (auto simp: i_def us'_def Let_def)
  have upd: "us' ! unat (voter_index w) = 0 \<longleftrightarrow> voter_index w \<noteq> voter_index v \<and> us ! unat (voter_index w) = 0"
    if "i < length (validators q)" "unat (voter_index w) < length (validators q)" for w
    using that assms Cons.prems counter_update [of i us "unat (voter_index w)"]
    by (auto simp: us'_def i_def word_unat_eq_iff)
  have sorted: "sorted_wrt (<) (map voter_index vs) \<Longrightarrow>
      (vs \<noteq> [] \<longrightarrow> voter_index v < voter_index (hd vs)) \<longleftrightarrow> (\<forall>w \<in> set vs. voter_index v < voter_index w)"
    by (cases vs) (auto intro: less_trans)
  show ?case
    unfolding step Cons.IH [OF len] using upd sorted by (auto simp: i_def [symmetric] image_iff)
qed simp

text \<open>
  C11. The check of a checkpoint accepts a service node checkpoint exactly when it is at a checkpoint
  height and carries one or two valid signatures of distinct validators of the quorum, in
  ascending order from hard fork 13 on, and a hardcoded checkpoint exactly when it carries none.
\<close>

theorem verify_checkpoint_iff:
  assumes "length (validators q) \<le> CHECKPOINT_QUORUM_SIZE"
  shows "verify_checkpoint cr hf cp q \<longleftrightarrow>
    (case cp_type cp of
       hardcoded \<Rightarrow> cp_signatures cp = []
     | frame_pix \<Rightarrow> cp_height cp mod 4 = 0 \<and> length (cp_signatures cp) \<in> {1, 2}
         \<and> distinct (map voter_index (cp_signatures cp))
         \<and> (13 \<le> hf \<longrightarrow> sorted_wrt (<) (map voter_index (cp_signatures cp)))
         \<and> (\<forall>v \<in> set (cp_signatures cp). unat (voter_index v) < length (validators q)
             \<and> check_signature cr (cp_block_hash cp) (validators q ! unat (voter_index v)) (voter_signature v)))"
proof (cases "cp_type cp")
  case frame_pix
  have q: "length (validators q) \<le> 2" using assms by simp
  have zero: "i < length (validators q) \<Longrightarrow> replicate 2 (0 :: nat) ! i = 0" for i using q by simp
  have size: "\<not> n < CHECKPOINT_MIN_VOTES \<and> \<not> n > CHECKPOINT_QUORUM_SIZE \<longleftrightarrow> n \<in> {1, 2}" for n by auto
  have guards: "verify_checkpoint cr hf cp q \<longleftrightarrow> cp_height cp mod 4 = 0 \<and> length (cp_signatures cp) \<in> {1, 2}
      \<and> check_signatures_loop cr q hf (cp_block_hash cp) (cp_signatures cp) (replicate 2 0)"
    unfolding size [symmetric] by (simp add: verify_checkpoint_def frame_pix)
  show ?thesis
    unfolding guards frame_pix check_signatures_loop_iff [OF q length_replicate] checkpoint_type.case using zero by blast
qed (simp add: verify_checkpoint_def)

theorem verify_checkpoint_iff_witness:
  "verify_checkpoint toy_crypto 16
     \<lparr>cp_version = 0, cp_type = frame_pix, cp_height = 40, cp_block_hash = 5,
      cp_signatures = [\<lparr>voter_index = 0, voter_signature = (5, 6)\<rparr>, \<lparr>voter_index = 1, voter_signature = (5, 7)\<rparr>],
      cp_prev_height = 0\<rparr> \<lparr>validators = [6, 7], workers = []\<rparr>"
  by (subst verify_checkpoint_iff) (simp_all add: toy_crypto_def)

section \<open>A single vote\<close>

lemma ucast_u16_u32: "unat (ucast (x :: u16) :: u32) = unat x"
  using unsigned_less [of x, where ?'a = nat] by (simp add: unsigned_ucast_eq take_bit_nat_eq_self)

lemma verify_vote_signature_iff:
  "fst (verify_vote_signature cr hf vote vvc q) \<longleftrightarrow>
    (type_of_vote vote = QT_OBLIGATIONS \<or> type_of_vote vote = QT_CHECKPOINTING)
    \<and> group_of_vote vote = QG_VALIDATOR \<and> unat (index_in_group vote) < length (validators q)
    \<and> (type_of_vote vote = QT_OBLIGATIONS \<longrightarrow> unat (worker_index vote) < length (workers q))
    \<and> check_signature cr
        (if type_of_vote vote = QT_OBLIGATIONS
         then make_state_change_vote_hash cr (block_height vote) (ucast (worker_index vote)) (state_of_vote vote)
         else block_hash vote)
        (validators q ! unat (index_in_group vote)) (signature_of_vote vote)"
proof -
  show ?thesis
  proof (cases "group_of_vote vote = QG_VALIDATOR")
    case True
    then show ?thesis
      by (auto simp: verify_vote_signature_def Let_def bounds_check_worker_index_def bounds_check_validator_index_def
          ucast_u16_u32 not_le)
  next
    case False
    then show ?thesis
      by (auto simp: verify_vote_signature_def Let_def bounds_check_worker_index_def ucast_u16_u32 not_le)
  qed
qed

lemma verify_vote_age_iff:
  assumes "unat (block_height vote) + 60 < 2 ^ 64" "\<not> m_invalid_block_height vvc"
  shows "fst (verify_vote_age vote latest vvc) \<longleftrightarrow>
    unat (block_height vote) \<le> unat latest \<and> unat latest \<le> unat (block_height vote) + 60"
proof -
  have "unat (block_height vote + 60) = unat (block_height vote) + 60"
    using unat_add_u64_no_wrap [of "block_height vote" 60] assms(1) by simp
  then show ?thesis
    using assms(2) by (auto simp: verify_vote_age_def VOTE_LIFETIME_60 word_less_nat_alt not_less)
qed

text \<open>
  C28. A vote that a validator of the quorum makes with its own key, for a worker of the quorum or for
  a block, passes the checks every other node applies to it: the signature check for as long as the
  quorum exists, the age check from its height until its lifetime is over. Only the vote on a worker
  needs the worker to be in the quorum; a checkpointing quorum has no workers. The hypothesis on
  the signature scheme is its correctness.
\<close>

theorem made_votes_are_accepted:
  fixes cr :: crypto_ops and i w state :: u16 and hf :: u8 and hash :: pod32
  assumes "\<forall>h. check_signature cr h (key_pub keys) (generate_signature cr h (key_pub keys) (key_sec keys))"
    "unat i < length (validators q)" "validators q ! unat i = key_pub keys"
    "unat height + 60 < 2 ^ 64" "\<not> m_invalid_block_height vvc"
    "unat height \<le> unat latest" "unat latest \<le> unat height + 60"
  defines "sc \<equiv> make_state_change_vote cr height i w state keys"
    and "cp \<equiv> make_checkpointing_vote cr hf hash height i keys"
  shows "(unat w < length (workers q) \<longrightarrow> fst (verify_vote_signature cr hf sc vvc q)) \<and> fst (verify_vote_age sc latest vvc)
    \<and> fst (verify_vote_signature cr hf cp vvc q) \<and> fst (verify_vote_age cp latest vvc)"
proof -
  have h: "block_height sc = height" "block_height cp = height"
    by (simp_all add: sc_def cp_def make_state_change_vote_def make_checkpointing_vote_def)
  have "unat w < length (workers q) \<longrightarrow> fst (verify_vote_signature cr hf sc vvc q)"
    using assms(1-3) unfolding verify_vote_signature_iff
    by (simp add: sc_def make_state_change_vote_def make_signature_from_vote_def)
  moreover have "fst (verify_vote_signature cr hf cp vvc q)"
    using assms(1-3) unfolding verify_vote_signature_iff
    by (simp add: cp_def make_checkpointing_vote_def make_signature_from_vote_def)
  ultimately show ?thesis using assms(4-7) by (simp add: verify_vote_age_iff h)
qed

theorem made_votes_are_accepted_witness:
  "\<exists>vvc. fst (verify_vote_signature toy_crypto 16
      (make_state_change_vote toy_crypto 100 1 0 NS_DECOMMISSION \<lparr>key_sec = 3, key_pub = 7\<rparr>) vvc
      \<lparr>validators = [6, 7], workers = [8]\<rparr>)
    \<and> fst (verify_vote_signature toy_crypto 16
      (make_checkpointing_vote toy_crypto 16 5 100 1 \<lparr>key_sec = 3, key_pub = 7\<rparr>) vvc
      \<lparr>validators = [6, 7], workers = []\<rparr>)"
proof -
  define vvc where "vvc = vote_verification_context.make False False False False False False False False False False False"
  have v: "\<not> m_invalid_block_height vvc" by (simp add: vvc_def vote_verification_context.defs)
  have "fst (verify_vote_signature toy_crypto 16
      (make_state_change_vote toy_crypto 100 1 0 NS_DECOMMISSION \<lparr>key_sec = 3, key_pub = 7\<rparr>) vvc
      \<lparr>validators = [6, 7], workers = [8]\<rparr>)"
    using v made_votes_are_accepted [where cr = toy_crypto and keys = "\<lparr>key_sec = 3, key_pub = 7\<rparr>" and i = 1
        and q = "\<lparr>validators = [6, 7], workers = [8]\<rparr>" and w = 0 and height = 100 and vvc = vvc and latest = 110
        and state = NS_DECOMMISSION and hf = 16]
    by (auto simp: toy_crypto_def)
  moreover have "fst (verify_vote_signature toy_crypto 16
      (make_checkpointing_vote toy_crypto 16 5 100 1 \<lparr>key_sec = 3, key_pub = 7\<rparr>) vvc
      \<lparr>validators = [6, 7], workers = []\<rparr>)"
    using v made_votes_are_accepted [where cr = toy_crypto and keys = "\<lparr>key_sec = 3, key_pub = 7\<rparr>" and i = 1
        and q = "\<lparr>validators = [6, 7], workers = []\<rparr>" and hash = 5 and height = 100 and vvc = vvc and latest = 110
        and hf = 16]
    by (auto simp: toy_crypto_def)
  ultimately show ?thesis by blast
qed

section \<open>The byte form of a vote\<close>

lemma signature_of_bytes_of_signature [simp]: "signature_of_bytes (bytes_of_signature s) = s"
  by (simp add: signature_of_bytes_def bytes_of_signature_def)

lemma length_bytes_of_signature [simp]: "length (bytes_of_signature s) = 64"
  by (simp add: bytes_of_signature_def)

lemma slice_append: "length xs = i \<Longrightarrow> length ys = n \<Longrightarrow> slice i n (xs @ ys @ zs) = ys"
  by (simp add: slice_def)

text \<open>
  The byte form of a vote has the 120 bytes of the old memory layout, and reading it back gives
  the vote: every field is read, and of the union the member the type selects; the other member is
  left as it was in the object that is read into.
\<close>

lemma vote_blob_roundtrip:
  "length (vote_to_blob v) = 120 \<and>
   blob_to_vote (vote_to_blob v) v0 =
     (if type_of_vote v = QT_CHECKPOINTING
      then v\<lparr>worker_index := worker_index v0, state_of_vote := state_of_vote v0\<rparr>
      else v\<lparr>block_hash := block_hash v0\<rparr>)"
proof -
  define tl where "tl = (if type_of_vote v = QT_CHECKPOINTING then bytes_of_pod (block_hash v) @ replicate 4 0
    else le_bytes 2 (worker_index v) @ le_bytes 2 (state_of_vote v) @ replicate 32 0)"
  define sg where "sg = bytes_of_signature (signature_of_vote v)"
  define p where "p = [version v, type_of_vote v] @ replicate 6 (0 :: byte)"
  define bh where "bh = le_bytes 8 (block_height v)"
  define gi where "gi = le_bytes 2 (index_in_group v)"
  have blob: "vote_to_blob v = p @ bh @ [group_of_vote v, 0] @ gi @ sg @ tl"
    by (simp add: vote_to_blob_def p_def bh_def gi_def sg_def tl_def)
  have len: "length p = 8" "length bh = 8" "length gi = 2" "length sg = 64"
    by (simp_all add: p_def bh_def gi_def sg_def)
  have s: "slice 8 8 (vote_to_blob v) = bh" "slice 18 2 (vote_to_blob v) = gi" "slice 20 64 (vote_to_blob v) = sg"
    by (simp_all add: blob slice_def len)
  have "vote_to_blob v = (p @ bh @ [group_of_vote v, 0] @ gi @ sg) @ tl" "length (p @ bh @ [group_of_vote v, 0] @ gi @ sg) = 84"
    by (simp_all add: blob len)
  then have d: "drop (84 + i) (vote_to_blob v) = drop i tl" for i by (simp only: drop_append) simp
  have n: "vote_to_blob v ! 0 = version v" "vote_to_blob v ! Suc 0 = type_of_vote v" "vote_to_blob v ! 16 = group_of_vote v"
    by (simp_all add: blob p_def nth_append len)
  have t: "slice 84 32 (vote_to_blob v) = take 32 tl" "slice 84 2 (vote_to_blob v) = take 2 tl"
    "slice 86 2 (vote_to_blob v) = take 2 (drop 2 tl)"
    using d [of 0] d [of 2] by (simp_all add: slice_def)
  have "length (vote_to_blob v) = 120" by (simp add: blob len tl_def)
  moreover have "blob_to_vote (vote_to_blob v) v0 =
     (if type_of_vote v = QT_CHECKPOINTING
      then v\<lparr>worker_index := worker_index v0, state_of_vote := state_of_vote v0\<rparr>
      else v\<lparr>block_hash := block_hash v0\<rparr>)"
    by (rule quorum_vote_t.equality) (simp_all add: blob_to_vote_def s n t Let_def tl_def bh_def gi_def sg_def)
  ultimately show ?thesis ..
qed

end
