(* ===== verification/Varint.thy ===== *)
theory Varint
  imports Bytes
begin

text \<open>
  The variable-length integers of \<^verbatim>\<open>src/src/common/varint.h\<close>: seven bits to a byte, least significant
  first, the top bit set on every byte but the last. The reader is the code's loop over the input with
  its return value: the number of bytes read, or one of the two error codes. Reaching the end of the
  input is not an error of the loop, and the theory shows what that means.
\<close>

section \<open>Definitions\<close>

abbreviation (input) EVARINT_OVERFLOW :: int where "EVARINT_OVERFLOW \<equiv> - 1"
abbreviation (input) EVARINT_REPRESENT :: int where "EVARINT_REPRESENT \<equiv> - 2"

function write_varint :: "'a :: len word \<Rightarrow> byte list" where
  "write_varint i =
     (if unat i \<ge> 0x80 then ((ucast i AND 0x7f) OR 0x80) # write_varint (drop_bit 7 i) else [ucast i])"
  by pat_completeness auto

termination write_varint
  by (relation "measure unat") (auto simp: unat_drop_bit_div)

declare write_varint.simps [simp del]

text \<open>The result is the return value, what was written to the variable, and the input that is left.\<close>

fun read_varint_loop :: "nat \<Rightarrow> nat \<Rightarrow> int \<Rightarrow> 'a :: len word \<Rightarrow> byte list \<Rightarrow> int \<times> 'a word \<times> byte list" where
  "read_varint_loop bits shift rd w [] = (rd, w, [])"
| "read_varint_loop bits shift rd w (b # bs) =
     (if shift + 7 \<ge> bits \<and> unat b \<ge> 2 ^ (bits - shift) then (EVARINT_OVERFLOW, w, bs)
      else if b = 0 \<and> shift \<noteq> 0 then (EVARINT_REPRESENT, w, bs)
      else
        let w' = w OR push_bit shift (ucast (b AND 0x7f))
        in if b AND 0x80 = 0 then (rd + 1, w', bs)
           else read_varint_loop bits (shift + 7) (rd + 1) w' bs)"

definition read_varint :: "byte list \<Rightarrow> int \<times> 'a :: len word \<times> byte list" where
  "read_varint bs = read_varint_loop LENGTH('a) 0 0 0 bs"

section \<open>Seven bits at a time\<close>

lemma byte_and_0x80: "(b :: byte) AND 0x80 = 0 \<longleftrightarrow> unat b < 0x80"
proof -
  have "b AND 0x80 = 0 \<longleftrightarrow> \<not> bit b 7" using and_exp_eq_0_iff_not_bit [of b 7] by simp
  also have "\<dots> \<longleftrightarrow> even (unat b div 128)"
    using bit_unsigned_iff [of b 7, where ?'a = nat] bit_iff_odd [of "unat b" 7] by auto
  also have "\<dots> \<longleftrightarrow> unat b < 0x80"
  proof -
    have "unat b < 256" using unsigned_less [of b, where ?'a = nat] by simp
    then have "unat b div 128 < 2" by auto
    then show ?thesis by (auto simp: less_2_cases_iff)
  qed
  finally show ?thesis .
qed

lemma unat_byte_and_0x7f: "unat ((b :: byte) AND 0x7f) = unat b mod 128"
  using unat_and_mask_mod [of b 7] by (simp add: mask_eq_exp_minus_1)

lemma unat_cont_byte: "unat ((ucast (i :: 'a :: len word) AND 0x7f) OR 0x80 :: byte) = unat i mod 128 + 128"
proof -
  have masks: "(0x7f :: byte) = mask 7" "(0x80 :: byte) = 2 ^ 7" by (simp_all add: mask_eq_exp_minus_1)
  let ?a = "ucast i AND 0x7f :: byte"
  have "?a OR 0x80 = ?a + 0x80" by (rule disjunctive_add [symmetric]) (simp only: bit_and_iff masks bit_mask_iff bit_exp_iff, auto)
  moreover have "unat ?a = unat i mod 128"
    by (simp only: unat_byte_and_0x7f) (simp add: unsigned_ucast_eq take_bit_eq_mod mod_mod_cancel)
  moreover have "unat i mod 128 < 128" by simp
  ultimately show ?thesis by (simp add: unat_word_ariths)
qed

lemma ucast_low7: "ucast (((ucast (i :: 'a :: len word) AND 0x7f) OR 0x80) AND 0x7f :: byte) = take_bit 7 i"
proof -
  have lt: "unat i mod 128 < 2 ^ LENGTH('a)"
    using unsigned_less [of i, where ?'a = nat] by (rule le_less_trans [OF mod_less_eq_dividend])
  have "unat (((ucast i AND 0x7f) OR 0x80) AND 0x7f :: byte) = unat i mod 128"
    by (simp only: unat_byte_and_0x7f unat_cont_byte) simp
  then have "unat (ucast (((ucast i AND 0x7f) OR 0x80) AND 0x7f :: byte) :: 'a word) = unat i mod 128"
    using lt by (simp only: unsigned_ucast_eq take_bit_nat_eq_self)
  moreover have "unat (take_bit 7 i) = unat i mod 128"
    by (simp only: unsigned_take_bit_eq take_bit_eq_mod [of 7 "unat i"]) simp
  ultimately show ?thesis by (simp only: word_unat_eq_iff)
qed

lemma or_push_bit_split:
  "w OR push_bit s (take_bit 7 i) OR push_bit (s + 7) (drop_bit 7 i) = w OR push_bit s (i :: 'a :: len word)"
proof (rule bit_word_eqI)
  fix n
  show "bit (w OR push_bit s (take_bit 7 i) OR push_bit (s + 7) (drop_bit 7 i)) n = bit (w OR push_bit s i) n"
  proof (cases "s + 7 \<le> n")
    case True
    then have "7 + (n - (s + 7)) = n - s" by simp
    then show ?thesis using True by (auto simp: bit_simps)
  qed (auto simp: bit_simps)
qed

section \<open>Reading back what was written\<close>

lemma read_write_varint_loop:
  fixes i w :: "'a :: len word"
  assumes "unat i < 2 ^ (LENGTH('a) - shift)" "shift = 0 \<or> i \<noteq> 0"
  shows "read_varint_loop LENGTH('a) shift rd w (write_varint i @ rest) =
    (rd + int (length (write_varint i)), w OR push_bit shift i, rest)"
  using assms
proof (induction i arbitrary: shift rd w rule: write_varint.induct)
  case (1 i)
  show ?case
  proof (cases "unat i \<ge> 0x80")
    case True
    have "shift + 7 < LENGTH('a)"
    proof (rule ccontr)
      assume "\<not> ?thesis"
      then have "2 ^ (LENGTH('a) - shift) \<le> (2 :: nat) ^ 7" by (intro power_increasing) auto
      then show False using "1.prems"(1) True by simp
    qed
    moreover have "(2 :: nat) ^ (LENGTH('a) - shift) = 2 ^ (LENGTH('a) - (shift + 7)) * 128"
      using calculation power_add [of "2 :: nat" "LENGTH('a) - (shift + 7)" 7] by simp
    ultimately have small: "unat (drop_bit 7 i) < 2 ^ (LENGTH('a) - (shift + 7))"
      using "1.prems"(1) by (simp add: unat_drop_bit_div less_mult_imp_div_less)
    have nz: "drop_bit 7 i \<noteq> 0" using True by (auto simp: word_unat_eq_iff unat_drop_bit_div)
    note IH = "1.IH" [OF True small, of "rd + 1" "w OR push_bit shift (take_bit 7 i)"]
    define b :: byte where "b = (ucast i AND 0x7f) OR 0x80"
    have b: "unat b \<ge> 128" "ucast (b AND 0x7f) = take_bit 7 i"
      unfolding b_def by (simp_all only: unat_cont_byte ucast_low7)
    then have "b \<noteq> 0" "b AND 0x80 \<noteq> 0" by (auto simp: byte_and_0x80)
    moreover have "write_varint i = b # write_varint (drop_bit 7 i)"
      using True by (subst write_varint.simps) (simp add: b_def)
    ultimately show ?thesis
      using \<open>shift + 7 < LENGTH('a)\<close> b(2) IH nz or_push_bit_split [of w shift i] by (simp add: Let_def ac_simps)
  next
    case False
    define b :: byte where "b = ucast i"
    have "unat b = unat i" using False by (simp add: b_def unsigned_ucast_eq take_bit_eq_mod)
    then have b: "unat b < 0x80" "unat b < 2 ^ (LENGTH('a) - shift)" "b = 0 \<longleftrightarrow> i = 0"
      using False "1.prems" by (simp_all add: word_unat_eq_iff)
    have "unat (ucast (b AND 0x7f) :: 'a word) = unat i"
      using \<open>unat b = unat i\<close> b(1) unsigned_less [of i, where ?'a = nat]
      by (simp add: unsigned_ucast_eq take_bit_eq_mod unat_byte_and_0x7f)
    then have "ucast (b AND 0x7f) = i" by (simp add: word_unat_eq_iff)
    moreover have "write_varint i = [b]" using False by (subst write_varint.simps) (simp add: b_def)
    ultimately show ?thesis using b "1.prems"(2) by (auto simp: byte_and_0x80 Let_def)
  qed
qed

lemma read_write_varint:
  "read_varint (write_varint (i :: 'a :: len word) @ rest) = (int (length (write_varint i)), i, rest)"
  using read_write_varint_loop [of i 0 0 0 rest] by (simp add: read_varint_def)

lemma write_varint_not_Nil [simp]: "write_varint i \<noteq> []"
  by (subst write_varint.simps) simp

lemma unat_ucast_low7:
  assumes "128 \<le> (2 :: nat) ^ LENGTH('a)"
  shows "unat (ucast (b AND 0x7f :: byte) :: 'a :: len word) = unat b mod 128"
proof -
  have "unat b mod 128 < 2 ^ LENGTH('a)" using assms mod_less_divisor [of 128 "unat b"] by linarith
  then show ?thesis by (simp add: unsigned_ucast_eq take_bit_nat_eq_self unat_byte_and_0x7f)
qed

lemma unat_append_low7:
  fixes i' :: "'a :: len word"
  assumes "i' \<noteq> 0" "unat i' * 128 < 2 ^ LENGTH('a)"
  shows "unat (ucast (b AND 0x7f :: byte) OR push_bit 7 i') = unat b mod 128 + unat i' * 128"
proof -
  have pos: "128 \<le> unat i' * 128" using assms(1) by (simp add: unat_gt_0 Suc_le_eq)
  then have lt: "(2 :: nat) ^ 7 < 2 ^ LENGTH('a)" using assms(2) unfolding le_eq_less_or_eq by auto
  have lo: "unat (ucast (b AND 0x7f) :: 'a word) = unat b mod 128" using lt by (intro unat_ucast_low7) simp
  have hi: "unat (push_bit 7 i') = unat i' * 128"
    using assms(2) by (simp only: unsigned_push_bit_eq push_bit_eq_mult [of 7 "unat i'"]) (simp add: take_bit_nat_eq_self)
  have "ucast (b AND 0x7f) OR push_bit 7 i' = ucast (b AND 0x7f) + push_bit 7 i'"
  proof (rule disjunctive_add [symmetric])
    fix n
    have "take_bit 7 (ucast (b AND 0x7f) :: 'a word) = ucast (b AND 0x7f)"
      by (simp only: word_unat_eq_iff unsigned_take_bit_eq lo) (simp add: take_bit_eq_mod)
    then have "bit (ucast (b AND 0x7f) :: 'a word) n \<Longrightarrow> n < 7" by (metis bit_take_bit_iff)
    then show "\<not> bit (ucast (b AND 0x7f) :: 'a word) n \<or> \<not> bit (push_bit 7 i') n" by (auto simp: bit_push_bit_iff)
  qed
  moreover have "unat b mod 128 + unat i' * 128 < 2 ^ LENGTH('a)"
  proof -
    have "7 < LENGTH('a)" using lt by (rule power_less_imp_less_exp [rotated]) simp
    then obtain k where k: "LENGTH('a) = k + 7" using less_imp_add_positive by (metis add.commute)
    then have "unat i' < 2 ^ k" using assms(2) by (simp add: power_add)
    then have "unat i' * 128 + 128 \<le> 2 ^ k * 128" by simp
    moreover have "unat b mod 128 < 128" by simp
    ultimately show ?thesis unfolding k power_add by simp
  qed
  ultimately show ?thesis using lo hi by (simp add: unat_word_ariths)
qed

lemma write_varint_step:
  fixes i' :: "'a :: len word"
  assumes "unat b \<ge> 0x80" "i' \<noteq> 0" "unat i' * 128 < 2 ^ LENGTH('a)"
  shows "write_varint (ucast (b AND 0x7f :: byte) OR push_bit 7 i') = b # write_varint i'"
proof -
  define i where "i = ucast (b AND 0x7f :: byte) OR push_bit 7 i'"
  have u: "unat i = unat b mod 128 + unat i' * 128" unfolding i_def by (rule unat_append_low7 [OF assms(2,3)])
  have pos: "128 \<le> unat i' * 128" using assms(2) by (simp add: unat_gt_0 Suc_le_eq)
  have "drop_bit 7 i = i'" by (simp add: word_unat_eq_iff unat_drop_bit_div u)
  moreover have "unat b < 256" using unsigned_less [of b, where ?'a = nat] by simp
  then have "unat b mod 128 + 128 = unat b" using assms(1) mod_if [of "unat b" 128] by simp
  then have "(ucast i AND 0x7f) OR 0x80 = b" by (simp add: word_unat_eq_iff [of _ b] unat_cont_byte u)
  ultimately show ?thesis using u pos unfolding i_def [symmetric] by (subst write_varint.simps) simp
qed

text \<open>
  What the loop accepts is either the encoding of a number, or input that ends while the last byte still
  announces another one.
\<close>

lemma read_varint_loop_inv:
  fixes w w' :: "'a :: len word"
  assumes "read_varint_loop LENGTH('a) shift rd w bs = (n, w', rest)" "0 \<le> n" "0 \<le> rd"
  shows "(rest = [] \<and> (\<forall>b \<in> set bs. 0x80 \<le> unat b)) \<or>
    (\<exists>i. bs = write_varint i @ rest \<and> w' = w OR push_bit shift i \<and> unat i < 2 ^ (LENGTH('a) - shift) \<and> (shift = 0 \<or> i \<noteq> 0))"
  using assms
proof (induction bs arbitrary: shift rd w)
  case (Cons b bs)
  have no: "\<not> (shift + 7 \<ge> LENGTH('a) \<and> unat b \<ge> 2 ^ (LENGTH('a) - shift))" "\<not> (b = 0 \<and> shift \<noteq> 0)"
    using Cons.prems by (auto split: if_splits)
  show ?case
  proof (cases "unat b < 0x80")
    case True
    have small: "unat b < 2 ^ (LENGTH('a) - shift)"
    proof (cases "shift + 7 \<ge> LENGTH('a)")
      case False
      then have "(2 :: nat) ^ 7 \<le> 2 ^ (LENGTH('a) - shift)" by (intro power_increasing) auto
      then show ?thesis using True by simp
    qed (use no in simp)
    then have "unat b < 2 ^ LENGTH('a)" by (rule less_le_trans) simp
    then have i: "unat (ucast b :: 'a word) = unat b" by (simp add: unsigned_ucast_eq take_bit_nat_eq_self)
    have and7: "b AND 0x7f = b" using True by (simp add: word_unat_eq_iff unat_byte_and_0x7f)
    have "ucast (ucast b :: 'a word) = b"
      by (simp only: word_unat_eq_iff unsigned_ucast_eq [of "ucast b :: 'a word"] i) (use True in \<open>simp add: take_bit_nat_eq_self\<close>)
    then have "write_varint (ucast b :: 'a word) = [b]" using True i by (subst write_varint.simps) simp
    moreover have "w' = w OR push_bit shift (ucast b)" "rest = bs"
      using Cons.prems(1) no True by (auto simp: byte_and_0x80 and7 Let_def split: if_splits)
    moreover have "shift = 0 \<or> (ucast b :: 'a word) \<noteq> 0" using no(2) i by (auto simp: word_unat_eq_iff)
    ultimately show ?thesis using small i by (intro disjI2 exI [of _ "ucast b"]) simp
  next
    case False
    have run: "read_varint_loop LENGTH('a) (shift + 7) (rd + 1) (w OR push_bit shift (ucast (b AND 0x7f))) bs = (n, w', rest)"
      using Cons.prems(1) no False by (auto simp: byte_and_0x80 Let_def split: if_splits)
    consider "rest = []" "\<forall>b \<in> set bs. 0x80 \<le> unat b"
      | i' where "bs = write_varint i' @ rest" "w' = w OR push_bit shift (ucast (b AND 0x7f)) OR push_bit (shift + 7) i'"
        "unat i' < 2 ^ (LENGTH('a) - (shift + 7))" "i' \<noteq> 0"
      using Cons.IH [OF run Cons.prems(2)] Cons.prems(3) by (auto simp: or.assoc)
    then show ?thesis
    proof cases
      case 2
      let ?i = "ucast (b AND 0x7f) OR push_bit 7 i'"
      have "shift + 7 < LENGTH('a)" using 2(3,4) by (cases "LENGTH('a) - (shift + 7)") (auto simp: word_unat_eq_iff)
      then have p: "(2 :: nat) ^ (LENGTH('a) - shift) = 2 ^ (LENGTH('a) - (shift + 7)) * 128"
        using power_add [of "2 :: nat" "LENGTH('a) - (shift + 7)" 7] by simp
      have "unat i' * 128 + 128 \<le> 2 ^ (LENGTH('a) - shift)" using 2(3) by (simp add: p)
      moreover have "(2 :: nat) ^ (LENGTH('a) - shift) \<le> 2 ^ LENGTH('a)" by simp
      ultimately have lt: "unat i' * 128 < 2 ^ LENGTH('a)" "unat b mod 128 + unat i' * 128 < 2 ^ (LENGTH('a) - shift)"
        using mod_less_divisor [of 128 "unat b"] by linarith+
      have "b # bs = write_varint ?i @ rest" using write_varint_step [OF _ 2(4) lt(1), of b] False 2(1) by simp
      moreover have "w' = w OR push_bit shift ?i"
        using 2(2) by (simp add: push_bit_or push_bit_push_bit or.assoc)
      moreover have "unat ?i < 2 ^ (LENGTH('a) - shift)" "?i \<noteq> 0"
        using lt 2(4) unat_append_low7 [OF 2(4) lt(1), of b] by (auto simp: word_unat_eq_iff)
      ultimately show ?thesis by (intro disjI2 exI [of _ ?i]) simp
    qed (use False in simp)
  qed
qed simp

text \<open>
  C21. Variable-length integers have exactly one encoding. Reading what was written gives the number and
  leaves the rest of the input; and whatever the reader accepts is the encoding of the number it
  returns, unless the input ended inside the number, in which case every byte announced another one.
  (The comment at the head of \<^verbatim>\<open>varint.h\<close> gives other values for two encodings: ff 02 reads as 0x17f,
  not 0x027f, and 80 02 as 0x100, not 0x200, since each byte carries seven bits.)
\<close>

theorem varint_canonical:
  fixes i :: "'a :: len word"
  shows "read_varint (write_varint i @ rest) = (int (length (write_varint i)), i, rest)
    \<and> (read_varint bs = (n, i, rest) \<and> 0 \<le> n \<longrightarrow>
        bs = write_varint i @ rest \<or> rest = [] \<and> (\<forall>b \<in> set bs. 0x80 \<le> unat b))"
  using read_write_varint [of i rest] read_varint_loop_inv [of 0 0 0 bs n i rest]
  by (auto simp: read_varint_def)

theorem varint_canonical_witness:
  "read_varint [0xAC, 0x02, 0x07] = (2, 300 :: u64, [0x07]) \<and> [0xAC, 0x02, 0x07] = write_varint (300 :: u64) @ [0x07]"
proof -
  have r: "read_varint [0xAC, 0x02, 0x07] = (2, 300 :: u64, [0x07])" by code_simp
  moreover have "[0xAC, 0x02, 0x07] = write_varint (300 :: u64) @ [0x07]"
    using varint_canonical [of "300 :: u64" "[0x07]" "[0xAC, 0x02, 0x07]" 2] r by simp
  ultimately show ?thesis by blast
qed

lemma write_varint_length_le: "length (write_varint i) = 1 \<or> 2 ^ (7 * (length (write_varint i) - 1)) \<le> unat i"
proof (induction i rule: write_varint.induct)
  case (1 i)
  show ?case
  proof (cases "unat i \<ge> 0x80")
    case True
    define k where "k = length (write_varint (drop_bit 7 i)) - 1"
    have len: "length (write_varint i) = Suc (Suc k)"
      using True by (subst write_varint.simps) (simp add: k_def)
    have "k = 0 \<or> 2 ^ (7 * k) \<le> unat i div 128"
      using "1.IH" [OF True] by (auto simp: k_def unat_drop_bit_div)
    then have "2 ^ (7 * k) * 128 \<le> unat i" using True by (auto simp: less_eq_div_iff_mult_less_eq)
    then show ?thesis by (simp add: len power_add)
  qed (subst write_varint.simps, simp)
qed

lemma length_write_varint_u64: "length (write_varint (i :: u64)) \<le> 10"
proof (rule ccontr)
  define n where "n = length (write_varint i) - 1"
  assume "\<not> ?thesis"
  then have "10 \<le> n" "2 ^ (7 * n) \<le> unat i" using write_varint_length_le [of i] by (auto simp: n_def)
  moreover from this(1) have "(2 :: nat) ^ 70 \<le> 2 ^ (7 * n)" by (intro power_increasing) simp_all
  ultimately show False using unat_lt_u64 [of i] by simp
qed

lemma read_varint_loop_cut:
  fixes i w :: "'a :: len word"
  assumes "unat i < 2 ^ (LENGTH('a) - shift)"
  shows "read_varint_loop LENGTH('a) shift rd w (butlast (write_varint i)) =
    (rd + (int (length (write_varint i)) - 1), w OR push_bit shift (take_bit (7 * (length (write_varint i) - 1)) i), [])"
  using assms
proof (induction i arbitrary: shift rd w rule: write_varint.induct)
  case (1 i)
  show ?case
  proof (cases "unat i \<ge> 0x80")
    case True
    define b :: byte where "b = (ucast i AND 0x7f) OR 0x80"
    have b: "unat b \<ge> 128" "ucast (b AND 0x7f) = take_bit 7 i"
      unfolding b_def by (simp_all only: unat_cont_byte ucast_low7)
    have w: "write_varint i = b # write_varint (drop_bit 7 i)"
      using True by (subst write_varint.simps) (simp add: b_def)
    have "shift + 7 < LENGTH('a)"
    proof (rule ccontr)
      assume "\<not> ?thesis"
      then have "2 ^ (LENGTH('a) - shift) \<le> (2 :: nat) ^ 7" by (intro power_increasing) auto
      then show False using "1.prems"(1) True by simp
    qed
    then have small: "unat (drop_bit 7 i) < 2 ^ (LENGTH('a) - (shift + 7))"
      using "1.prems" power_add [of "2 :: nat" "LENGTH('a) - (shift + 7)" 7]
      by (simp add: unat_drop_bit_div less_mult_imp_div_less)
    define k where "k = length (write_varint (drop_bit 7 i)) - 1"
    have len: "length (write_varint (drop_bit 7 i)) = Suc k" by (simp add: k_def)
    have "take_bit 7 i OR push_bit 7 (take_bit (7 * k) (drop_bit 7 i)) = take_bit (7 * Suc k) i"
      by (rule bit_word_eqI) (auto simp: bit_simps)
    then have "push_bit shift (take_bit 7 i) OR push_bit (shift + 7) (take_bit (7 * k) (drop_bit 7 i))
        = push_bit shift (take_bit (7 * Suc k) i)"
      by (simp only: push_bit_or [symmetric] push_bit_push_bit [symmetric])
    then show ?thesis
      using "1.IH" [OF True small, of "rd + 1" "w OR push_bit shift (take_bit 7 i)"] b \<open>shift + 7 < LENGTH('a)\<close>
      by (auto simp: w len byte_and_0x80 Let_def or.assoc)
  qed (subst (1 2 3) write_varint.simps, simp)
qed

text \<open>
  C36. The reader takes the end of the input for the end of the number: a number whose last byte is cut off
  is accepted without an error code, and so is an empty input, which reads as zero.
\<close>

theorem read_varint_truncated:
  fixes i :: "'a :: len word"
  assumes "128 \<le> unat i"
  shows "\<exists>j. read_varint (butlast (write_varint i)) = (int (length (write_varint i)) - 1, j, []) \<and> j \<noteq> i
    \<and> read_varint [] = (0, 0 :: 'a word, [])"
proof -
  define k where "k = length (write_varint i) - 1"
  have len: "length (write_varint i) = Suc k" by (simp add: k_def)
  have "k \<noteq> 0" using assms len by (subst (asm) write_varint.simps) auto
  then have "2 ^ (7 * k) \<le> unat i" using write_varint_length_le [of i] len by simp
  then have "unat (take_bit (7 * k) i) < unat i"
    by (simp only: unsigned_take_bit_eq take_bit_eq_mod [of "7 * k" "unat i"]) (rule less_le_trans [OF mod_less_divisor], simp_all)
  then have "take_bit (7 * k) i \<noteq> i" by auto
  then show ?thesis using read_varint_loop_cut [of i 0 0 0] by (simp add: read_varint_def len)
qed

theorem read_varint_truncated_witness: "\<exists>j :: u64. read_varint (butlast (write_varint (300 :: u64))) = (1, j, []) \<and> j \<noteq> 300"
proof -
  have "length (write_varint (300 :: u64)) = 2" by code_simp
  then show ?thesis using read_varint_truncated [of "300 :: u64"] by auto
qed

end
