(* ===== verification/Binary_Archive.thy ===== *)
theory Binary_Archive
  imports Varint "HOL-Library.Monad_Syntax"
begin

text \<open>
  The binary archive of \<^verbatim>\<open>src/src/serialization\<close>. A loading archive is a function from the bytes that
  are left to a value and the bytes after it; \<^const>\<open>None\<close> is a serializer that returns false or leaves the
  stream in a failed state, which every caller checks before it uses the value. A saving archive gives
  the bytes it appends. The contract of a pair of the two is the locale \<open>codec\<close>.
\<close>

section \<open>Loading and saving\<close>

type_synonym 'a reader = "byte list \<Rightarrow> ('a \<times> byte list) option"

definition serialize_uint :: "nat \<Rightarrow> 'a :: len word reader" where
  "serialize_uint width bs = (if length bs < width then None else Some (word_of_le (take width bs), drop width bs))"

definition serialize_blob :: "nat \<Rightarrow> byte list reader" where
  "serialize_blob len bs = (if length bs < len then None else Some (take len bs, drop len bs))"

definition serialize_varint :: "'a :: len word reader" where
  "serialize_varint bs = (case read_varint bs of (n, v, rest) \<Rightarrow> if n < 0 then None else Some (v, rest))"

definition get_pod :: "pod32 reader" where
  "get_pod bs = do { (b, bs) \<leftarrow> serialize_blob 32 bs; Some (pod_of_bytes b, bs) }"

primrec get_elements :: "'a reader \<Rightarrow> nat \<Rightarrow> 'a list reader" where
  "get_elements g 0 bs = Some ([], bs)"
| "get_elements g (Suc cnt) bs = do { (e, bs) \<leftarrow> g bs; (v, bs) \<leftarrow> get_elements g cnt bs; Some (e # v, bs) }"

definition get_container :: "'a reader \<Rightarrow> 'a list reader" where
  "get_container g bs = do {
     (cnt, bs) \<leftarrow> (serialize_varint :: u64 reader) bs;
     if length bs < unat cnt then None else get_elements g (unat cnt) bs }"

definition put_container :: "('a \<Rightarrow> byte list) \<Rightarrow> 'a list \<Rightarrow> byte list" where
  "put_container p v = write_varint (of_nat (length v) :: u64) @ concat (map p v)"

definition get_string :: "byte list reader" where
  "get_string bs = do {
     (size, bs) \<leftarrow> (serialize_varint :: u64 reader) bs;
     if length bs < unat size then None else serialize_blob (unat size) bs }"

definition put_string :: "byte list \<Rightarrow> byte list" where
  "put_string str = write_varint (of_nat (length str) :: u64) @ str"

text \<open>\<^verbatim>\<open>ENUM_FIELD\<close>: a variable-length integer that has to pass a test when it is loaded.\<close>

definition enum_field :: "('a :: len word \<Rightarrow> bool) \<Rightarrow> 'a word reader" where
  "enum_field test bs = do { (v, bs) \<leftarrow> serialize_varint bs; if test v then Some (v, bs) else None }"

text \<open>\<^verbatim>\<open>parse_binary\<close> is a load that has to reach the end of the blob.\<close>

definition parse_binary :: "'a reader \<Rightarrow> byte list \<Rightarrow> 'a option" where
  "parse_binary g blob = (case g blob of Some (v, []) \<Rightarrow> Some v | _ \<Rightarrow> None)"

section \<open>The contract of a serializer\<close>

locale codec =
  fixes put :: "'a \<Rightarrow> byte list" and get :: "'a reader" and wf :: "'a \<Rightarrow> bool"
  assumes get_put: "wf x \<Longrightarrow> get (put x @ rest) = Some (x, rest)"
    and get_wf: "get bs = Some (x, rest) \<Longrightarrow> wf x"
    and get_consumes: "get bs = Some (x, rest) \<Longrightarrow> length rest \<le> length bs"
begin

lemma get_ok: "get bs = Some (x, rest) \<Longrightarrow> wf x \<and> length rest \<le> length bs"
  by (simp add: get_wf get_consumes)

lemma parse_binary_put: "wf x \<Longrightarrow> parse_binary get (put x) = Some x"
  using get_put [of x "[]"] by (simp add: parse_binary_def)

lemma put_prefix_free:
  assumes "wf x" "wf y" "put x @ r = put y @ s"
  shows "x = y" "r = s"
  using get_put [OF assms(1), of r] get_put [OF assms(2), of s] unfolding assms(3) by simp_all

lemma put_inj: "wf x \<Longrightarrow> wf y \<Longrightarrow> put x = put y \<Longrightarrow> x = y"
  using put_prefix_free [of x y "[]" "[]"] by simp

lemma get_elements_put:
  "list_all wf v \<Longrightarrow> get_elements get (length v) (concat (map put v) @ rest) = Some (v, rest)"
  by (induction v) (auto simp: get_put)

lemma get_elements_ok:
  "get_elements get n bs = Some (v, rest) \<Longrightarrow> length v = n \<and> list_all wf v \<and> length rest \<le> length bs"
proof (induction n arbitrary: bs v)
  case (Suc n)
  then obtain e bs1 v1 where e: "get bs = Some (e, bs1)" "get_elements get n bs1 = Some (v1, rest)" "v = e # v1"
    by (auto simp: bind_eq_Some_conv)
  then show ?case using Suc.IH [OF e(2)] get_wf [OF e(1)] get_consumes [OF e(1)] by auto
qed simp

end

text \<open>A codec whose encodings are never empty; the count check of the containers relies on it.\<close>

locale codec_pos = codec +
  assumes put_pos: "wf x \<Longrightarrow> put x \<noteq> []"
begin

lemma length_le_concat: "list_all wf v \<Longrightarrow> length v \<le> length (concat (map put v))"
proof (induction v)
  case (Cons x v)
  then show ?case using put_pos [of x] by (cases "put x") auto
qed simp

end

section \<open>The basic types\<close>

lemma serialize_uint_put: "serialize_uint n (le_bytes n w @ rest) = Some (word_of_le (le_bytes n w), rest)"
  by (simp add: serialize_uint_def)

lemma le_bytes_not_Nil: "0 < n \<Longrightarrow> le_bytes n w \<noteq> []"
  by (metis length_le_bytes length_0_conv less_not_refl)

interpretation c_u8: codec_pos "le_bytes 1 :: u8 \<Rightarrow> _" "serialize_uint 1" "\<lambda>_. True"
  by unfold_locales (auto simp: serialize_uint_put serialize_uint_def le_bytes_not_Nil split: if_splits)

interpretation c_u32: codec_pos "le_bytes 4 :: u32 \<Rightarrow> _" "serialize_uint 4" "\<lambda>_. True"
  by unfold_locales (auto simp: serialize_uint_put serialize_uint_def le_bytes_not_Nil split: if_splits)

interpretation c_u64: codec_pos "le_bytes 8 :: u64 \<Rightarrow> _" "serialize_uint 8" "\<lambda>_. True"
  by unfold_locales (auto simp: serialize_uint_put serialize_uint_def le_bytes_not_Nil split: if_splits)

interpretation c_pod: codec_pos bytes_of_pod get_pod "\<lambda>_. True"
proof unfold_locales
  show "bytes_of_pod x \<noteq> []" for x by (metis length_bytes_of_pod list.size(3) zero_neq_numeral)
qed (auto simp: get_pod_def serialize_blob_def split: if_splits)

lemma read_varint_loop_consumes:
  "read_varint_loop bits shift rd w bs = (n, v, rest) \<Longrightarrow> length rest \<le> length bs"
proof (induction bs arbitrary: shift rd w)
  case (Cons b bs)
  show ?case using Cons.prems by (auto simp: Let_def split: if_splits dest!: Cons.IH)
qed simp

lemma serialize_varint_consumes: "serialize_varint bs = Some (v, rest) \<Longrightarrow> length rest \<le> length bs"
  by (auto simp: serialize_varint_def read_varint_def split: prod.splits if_splits dest: read_varint_loop_consumes)

lemma serialize_write_varint: "serialize_varint (write_varint v @ rest) = Some (v, rest)"
  by (simp add: serialize_varint_def read_write_varint)

interpretation c_varint: codec_pos write_varint serialize_varint "\<lambda>_. True"
  by unfold_locales (simp_all add: serialize_write_varint serialize_varint_consumes)

lemma unat_of_nat_u64: "n < 2 ^ 64 \<Longrightarrow> unat (of_nat n :: u64) = n"
  by (simp add: unat_of_nat take_bit_nat_eq_self)

interpretation c_string: codec_pos put_string get_string "\<lambda>str. length str < 2 ^ 64"
proof unfold_locales
  fix x rest :: "byte list"
  assume "length x < 2 ^ 64"
  then show "get_string (put_string x @ rest) = Some (x, rest)"
    by (simp add: get_string_def put_string_def c_varint.get_put unat_of_nat_u64 serialize_blob_def)
next
  fix bs x rest
  assume "get_string bs = Some (x, rest)"
  then obtain size :: u64 and bs1 where s: "serialize_varint bs = Some (size, bs1)"
    "\<not> length bs1 < unat size" "x = take (unat size) bs1" "rest = drop (unat size) bs1"
    by (auto simp: get_string_def serialize_blob_def bind_eq_Some_conv split: if_splits)
  then show "length x < 2 ^ 64" using unat_lt_u64 [of size] by simp
  show "length rest \<le> length bs" using s c_varint.get_consumes [OF s(1)] by simp
qed (simp add: put_string_def)

context codec_pos
begin

lemma codec_container:
  "codec_pos (put_container put) (get_container get) (\<lambda>v. length v < 2 ^ 64 \<and> list_all wf v)"
proof unfold_locales
  fix x rest
  assume a: "length x < 2 ^ 64 \<and> list_all wf x"
  then have "length x \<le> length (concat (map put x) @ rest)" using length_le_concat [of x] by simp
  then show "get_container get (put_container put x @ rest) = Some (x, rest)"
    using a get_elements_put [of x rest]
    by (simp add: get_container_def put_container_def c_varint.get_put unat_of_nat_u64 not_less)
next
  fix bs x rest
  assume "get_container get bs = Some (x, rest)"
  then obtain cnt :: u64 and bs1 where s: "serialize_varint bs = Some (cnt, bs1)"
    "get_elements get (unat cnt) bs1 = Some (x, rest)"
    by (auto simp: get_container_def bind_eq_Some_conv split: if_splits)
  note e = get_elements_ok [OF s(2)]
  show "length x < 2 ^ 64 \<and> list_all wf x" using e unat_lt_u64 [of cnt] by simp
  show "length rest \<le> length bs" using e c_varint.get_consumes [OF s(1)] by simp
qed (simp add: put_container_def)

end

interpretation c_enum: codec_pos write_varint "enum_field test" test for test
  by unfold_locales (auto simp: enum_field_def c_varint.get_put bind_eq_Some_conv dest: c_varint.get_consumes split: if_splits)

interpretation c_pods: codec_pos "put_container bytes_of_pod" "get_container get_pod"
    "\<lambda>v. length v < 2 ^ 64 \<and> list_all (\<lambda>_. True) v"
  by (rule c_pod.codec_container)

interpretation c_varints: codec_pos "put_container write_varint" "get_container serialize_varint"
    "\<lambda>v. length v < 2 ^ 64 \<and> list_all (\<lambda>_. True) v"
  by (rule c_varint.codec_container)

end
