(* ===== verification/Tx_Extra.thy ===== *)
theory Tx_Extra
  imports Binary_Archive Framepix_Voting
begin

text \<open>
  The fields of the extra of a transaction, \<^verbatim>\<open>src/src/cryptonote_basic/tx_extra.h\<close>: the data and the
  serializers. Every part of a field is an instance of the contract of serializers, and so is every
  field but padding, which extends to the end of its input.
\<close>

section \<open>Data\<close>

record account_public_address =
  m_spend_public_key :: pod32
  m_view_public_key :: pod32

record tx_extra_frame_pix_register =
  m_public_spend_keys :: "pod32 list"
  m_public_view_keys :: "pod32 list"
  m_portions_for_operator :: u64
  m_portions :: "u64 list"
  m_expiration_timestamp :: u64
  m_frame_pix_signature :: signature

text \<open>The votes of the old deregistration have the same two members as those of a state change.\<close>

record tx_extra_frame_pix_deregister_old =
  dereg_block_height :: u64
  dereg_frame_pix_index :: u32
  dereg_votes :: "state_change_vote list"

record key_image_proof =
  proof_key_image :: pod32
  proof_signature :: signature

record tx_extra_tx_key_image_unlock =
  unlock_key_image :: pod32
  unlock_signature :: signature
  unlock_nonce :: u32

text \<open>The union of \<^verbatim>\<open>lns::generic_owner\<close>, with \<^verbatim>\<open>is_subaddress\<close> as the byte it is stored in.\<close>

datatype generic_owner = monero_owner account_public_address byte | ed25519_owner pod32

datatype generic_owner_sig_type = sig_monero | sig_ed25519

record generic_signature =
  gs_type :: generic_owner_sig_type
  gs_data :: signature

record tx_extra_guus_name_system =
  ns_version :: u8
  ns_type :: u16
  ns_name_hash :: pod32
  ns_prev_txid :: pod32
  ns_fields :: u8
  ns_owner :: generic_owner
  ns_backup_owner :: generic_owner
  ns_signature :: generic_signature
  ns_encrypted_value :: "byte list"

abbreviation (input) MAPPING_TYPE_COUNT :: u16 where "MAPPING_TYPE_COUNT \<equiv> 6"
abbreviation (input) EF_OWNER :: u8 where "EF_OWNER \<equiv> 1"
abbreviation (input) EF_BACKUP_OWNER :: u8 where "EF_BACKUP_OWNER \<equiv> 2"
abbreviation (input) EF_SIGNATURE :: u8 where "EF_SIGNATURE \<equiv> 4"
abbreviation (input) EF_ENCRYPTED_VALUE :: u8 where "EF_ENCRYPTED_VALUE \<equiv> 8"
abbreviation (input) EF_ALL :: u8 where "EF_ALL \<equiv> 15"

datatype tx_extra_field =
    tx_extra_padding nat
  | tx_extra_pub_key pod32
  | tx_extra_nonce "byte list"
  | tx_extra_merge_mining_tag u64 pod32
  | tx_extra_additional_pub_keys "pod32 list"
  | tx_extra_mysterious_minergate "byte list"
  | tx_extra_frame_pix_pubkey pod32
  | tx_extra_register tx_extra_frame_pix_register
  | tx_extra_frame_pix_contributor account_public_address
  | tx_extra_frame_pix_winner pod32
  | tx_extra_state_change tx_extra_frame_pix_state_change
  | tx_extra_deregister_old tx_extra_frame_pix_deregister_old
  | tx_extra_tx_secret_key pod32
  | tx_extra_tx_key_image_proofs "key_image_proof list"
  | tx_extra_key_image_unlock tx_extra_tx_key_image_unlock
  | tx_extra_burn u64
  | tx_extra_name_system tx_extra_guus_name_system

text \<open>The constant of \<^verbatim>\<open>tx_extra.h\<close> that \<^verbatim>\<open>VARIANT_TAG\<close> gives to the type of a field.\<close>

fun get_tag :: "tx_extra_field \<Rightarrow> u8" where
  "get_tag (tx_extra_padding _) = 0x00"
| "get_tag (tx_extra_pub_key _) = 0x01"
| "get_tag (tx_extra_nonce _) = 0x02"
| "get_tag (tx_extra_merge_mining_tag _ _) = 0x03"
| "get_tag (tx_extra_additional_pub_keys _) = 0x04"
| "get_tag (tx_extra_mysterious_minergate _) = 0xDE"
| "get_tag (tx_extra_frame_pix_pubkey _) = 0x74"
| "get_tag (tx_extra_register _) = 0x70"
| "get_tag (tx_extra_frame_pix_contributor _) = 0x73"
| "get_tag (tx_extra_frame_pix_winner _) = 0x72"
| "get_tag (tx_extra_state_change _) = 0x78"
| "get_tag (tx_extra_deregister_old _) = 0x71"
| "get_tag (tx_extra_tx_secret_key _) = 0x75"
| "get_tag (tx_extra_tx_key_image_proofs _) = 0x76"
| "get_tag (tx_extra_key_image_unlock _) = 0x77"
| "get_tag (tx_extra_burn _) = 0x79"
| "get_tag (tx_extra_name_system _) = 0x7A"

section \<open>Serializers of the parts\<close>

definition get_signature :: "signature reader" where
  "get_signature bs = do { (b, bs) \<leftarrow> serialize_blob 64 bs; Some (signature_of_bytes b, bs) }"

definition get_address :: "account_public_address reader" where
  "get_address bs = do {
     (spend, bs) \<leftarrow> get_pod bs;
     (view, bs) \<leftarrow> get_pod bs;
     Some (\<lparr>m_spend_public_key = spend, m_view_public_key = view\<rparr>, bs) }"

definition put_address :: "account_public_address \<Rightarrow> byte list" where
  "put_address a = bytes_of_pod (m_spend_public_key a) @ bytes_of_pod (m_view_public_key a)"

definition get_register :: "tx_extra_frame_pix_register reader" where
  "get_register bs = do {
     (spend, bs) \<leftarrow> get_container get_pod bs;
     (view, bs) \<leftarrow> get_container get_pod bs;
     (operator, bs) \<leftarrow> serialize_uint 8 bs;
     (portions, bs) \<leftarrow> get_container serialize_varint bs;
     (expiration, bs) \<leftarrow> serialize_uint 8 bs;
     (sig, bs) \<leftarrow> get_signature bs;
     Some (\<lparr>m_public_spend_keys = spend, m_public_view_keys = view, m_portions_for_operator = operator,
       m_portions = portions, m_expiration_timestamp = expiration, m_frame_pix_signature = sig\<rparr>, bs) }"

definition put_register :: "tx_extra_frame_pix_register \<Rightarrow> byte list" where
  "put_register r =
     put_container bytes_of_pod (m_public_spend_keys r) @ put_container bytes_of_pod (m_public_view_keys r)
     @ le_bytes 8 (m_portions_for_operator r) @ put_container write_varint (m_portions r)
     @ le_bytes 8 (m_expiration_timestamp r) @ bytes_of_signature (m_frame_pix_signature r)"

definition get_state_change_vote :: "state_change_vote reader" where
  "get_state_change_vote bs = do {
     (index, bs) \<leftarrow> serialize_varint bs;
     (sig, bs) \<leftarrow> get_signature bs;
     Some (\<lparr>scv_signature = sig, validator_index = index\<rparr>, bs) }"

definition put_state_change_vote :: "state_change_vote \<Rightarrow> byte list" where
  "put_state_change_vote v = write_varint (validator_index v) @ bytes_of_signature (scv_signature v)"

definition get_state_change :: "tx_extra_frame_pix_state_change reader" where
  "get_state_change bs = do {
     (state, bs) \<leftarrow> enum_field (\<lambda>state. state < NS_COUNT) bs;
     (height, bs) \<leftarrow> serialize_varint bs;
     (index, bs) \<leftarrow> serialize_varint bs;
     (votes, bs) \<leftarrow> get_container get_state_change_vote bs;
     Some (\<lparr>sc_state = state, sc_block_height = height, frame_pix_index = index, sc_votes = votes\<rparr>, bs) }"

definition put_state_change :: "tx_extra_frame_pix_state_change \<Rightarrow> byte list" where
  "put_state_change sc = write_varint (sc_state sc) @ write_varint (sc_block_height sc)
     @ write_varint (frame_pix_index sc) @ put_container put_state_change_vote (sc_votes sc)"

text \<open>The packed blobs: a vote of the old deregistration and a key image proof.\<close>

definition get_old_vote :: "state_change_vote reader" where
  "get_old_vote bs = do {
     (sig, bs) \<leftarrow> get_signature bs;
     (index, bs) \<leftarrow> serialize_uint 4 bs;
     Some (\<lparr>scv_signature = sig, validator_index = index\<rparr>, bs) }"

definition put_old_vote :: "state_change_vote \<Rightarrow> byte list" where
  "put_old_vote v = bytes_of_signature (scv_signature v) @ le_bytes 4 (validator_index v)"

definition get_deregister_old :: "tx_extra_frame_pix_deregister_old reader" where
  "get_deregister_old bs = do {
     (height, bs) \<leftarrow> serialize_uint 8 bs;
     (index, bs) \<leftarrow> serialize_uint 4 bs;
     (votes, bs) \<leftarrow> get_container get_old_vote bs;
     Some (\<lparr>dereg_block_height = height, dereg_frame_pix_index = index, dereg_votes = votes\<rparr>, bs) }"

definition put_deregister_old :: "tx_extra_frame_pix_deregister_old \<Rightarrow> byte list" where
  "put_deregister_old d =
     le_bytes 8 (dereg_block_height d) @ le_bytes 4 (dereg_frame_pix_index d) @ put_container put_old_vote (dereg_votes d)"

definition get_key_image_proof :: "key_image_proof reader" where
  "get_key_image_proof bs = do {
     (ki, bs) \<leftarrow> get_pod bs;
     (sig, bs) \<leftarrow> get_signature bs;
     Some (\<lparr>proof_key_image = ki, proof_signature = sig\<rparr>, bs) }"

definition put_key_image_proof :: "key_image_proof \<Rightarrow> byte list" where
  "put_key_image_proof p = bytes_of_pod (proof_key_image p) @ bytes_of_signature (proof_signature p)"

definition get_key_image_unlock :: "tx_extra_tx_key_image_unlock reader" where
  "get_key_image_unlock bs = do {
     (ki, bs) \<leftarrow> get_pod bs;
     (sig, bs) \<leftarrow> get_signature bs;
     (nonce, bs) \<leftarrow> serialize_uint 4 bs;
     Some (\<lparr>unlock_key_image = ki, unlock_signature = sig, unlock_nonce = nonce\<rparr>, bs) }"

definition put_key_image_unlock :: "tx_extra_tx_key_image_unlock \<Rightarrow> byte list" where
  "put_key_image_unlock u =
     bytes_of_pod (unlock_key_image u) @ bytes_of_signature (unlock_signature u) @ le_bytes 4 (unlock_nonce u)"

definition null_address :: account_public_address where
  "null_address = \<lparr>m_spend_public_key = 0, m_view_public_key = 0\<rparr>"

definition get_owner :: "generic_owner reader" where
  "get_owner bs = do {
     (type, bs) \<leftarrow> enum_field (\<lambda>type :: u8. type < 2) bs;
     if type = 0 then do {
       (address, bs) \<leftarrow> get_address bs;
       (is_subaddress, bs) \<leftarrow> serialize_uint 1 bs;
       Some (monero_owner address is_subaddress, bs) }
     else do {
       (key, bs) \<leftarrow> get_pod bs;
       Some (ed25519_owner key, bs) } }"

fun put_owner :: "generic_owner \<Rightarrow> byte list" where
  "put_owner (monero_owner address is_subaddress) =
     write_varint (0 :: u8) @ put_address address @ le_bytes 1 is_subaddress"
| "put_owner (ed25519_owner key) = write_varint (1 :: u8) @ bytes_of_pod key"

definition get_generic_signature :: "generic_signature reader" where
  "get_generic_signature bs = do {
     (type, bs) \<leftarrow> enum_field (\<lambda>type :: u8. type < 2) bs;
     (sig, bs) \<leftarrow> get_signature bs;
     Some (\<lparr>gs_type = (if type = 0 then sig_monero else sig_ed25519), gs_data = sig\<rparr>, bs) }"

definition put_generic_signature :: "generic_signature \<Rightarrow> byte list" where
  "put_generic_signature s =
     write_varint (case gs_type s of sig_monero \<Rightarrow> 0 :: u8 | sig_ed25519 \<Rightarrow> 1) @ bytes_of_signature (gs_data s)"

definition field_is_set :: "u8 \<Rightarrow> u8 \<Rightarrow> bool" where
  "field_is_set flds b = (flds AND b = b)"

text \<open>A field that is not set keeps the default of its member.\<close>

definition null_owner :: generic_owner where "null_owner = monero_owner null_address 0"

definition null_generic_signature :: generic_signature where
  "null_generic_signature = \<lparr>gs_type = sig_monero, gs_data = (0, 0)\<rparr>"

definition get_optional :: "bool \<Rightarrow> 'a \<Rightarrow> 'a reader \<Rightarrow> 'a reader" where
  "get_optional present dflt g bs = (if present then g bs else Some (dflt, bs))"

definition get_name_system :: "tx_extra_guus_name_system reader" where
  "get_name_system bs = do {
     (ver, bs) \<leftarrow> serialize_uint 1 bs;
     (type, bs) \<leftarrow> enum_field (\<lambda>type. type < MAPPING_TYPE_COUNT) bs;
     (name_hash, bs) \<leftarrow> get_pod bs;
     (prev_txid, bs) \<leftarrow> get_pod bs;
     (flds, bs) \<leftarrow> enum_field (\<lambda>flds. flds \<le> EF_ALL) bs;
     (owner, bs) \<leftarrow> get_optional (field_is_set flds EF_OWNER) null_owner get_owner bs;
     (backup, bs) \<leftarrow> get_optional (field_is_set flds EF_BACKUP_OWNER) null_owner get_owner bs;
     (sig, bs) \<leftarrow> get_optional (field_is_set flds EF_SIGNATURE) null_generic_signature get_generic_signature bs;
     (value, bs) \<leftarrow> get_optional (field_is_set flds EF_ENCRYPTED_VALUE) [] get_string bs;
     Some (\<lparr>ns_version = ver, ns_type = type, ns_name_hash = name_hash, ns_prev_txid = prev_txid,
       ns_fields = flds, ns_owner = owner, ns_backup_owner = backup, ns_signature = sig, ns_encrypted_value = value\<rparr>, bs) }"

definition put_name_system :: "tx_extra_guus_name_system \<Rightarrow> byte list" where
  "put_name_system e =
     le_bytes 1 (ns_version e) @ write_varint (ns_type e) @ bytes_of_pod (ns_name_hash e) @ bytes_of_pod (ns_prev_txid e)
     @ write_varint (ns_fields e)
     @ (if field_is_set (ns_fields e) EF_OWNER then put_owner (ns_owner e) else [])
     @ (if field_is_set (ns_fields e) EF_BACKUP_OWNER then put_owner (ns_backup_owner e) else [])
     @ (if field_is_set (ns_fields e) EF_SIGNATURE then put_generic_signature (ns_signature e) else [])
     @ (if field_is_set (ns_fields e) EF_ENCRYPTED_VALUE then put_string (ns_encrypted_value e) else [])"

text \<open>The merge mining tag is a string that holds a serialized object and nothing after it.\<close>

definition get_merge_mining_tag :: "(u64 \<times> pod32) reader" where
  "get_merge_mining_tag bs = do {
     (field, bs) \<leftarrow> get_string bs;
     (depth, iss) \<leftarrow> serialize_varint field;
     (merkle_root, iss) \<leftarrow> get_pod iss;
     if iss = [] then Some ((depth, merkle_root), bs) else None }"

definition put_merge_mining_tag :: "u64 \<times> pod32 \<Rightarrow> byte list" where
  "put_merge_mining_tag t = put_string (write_varint (fst t) @ bytes_of_pod (snd t))"

text \<open>Padding runs to the end of the input; \<open>sz\<close> counts the tag.\<close>

abbreviation (input) TX_EXTRA_PADDING_MAX_COUNT :: nat where "TX_EXTRA_PADDING_MAX_COUNT \<equiv> 255"
abbreviation (input) TX_EXTRA_NONCE_MAX_COUNT :: nat where "TX_EXTRA_NONCE_MAX_COUNT \<equiv> 255"

fun padding_loop :: "nat \<Rightarrow> nat reader" where
  "padding_loop sz [] = Some (sz, [])"
| "padding_loop sz (b # bs) =
     (if sz > TX_EXTRA_PADDING_MAX_COUNT then Some (sz, b # bs)
      else if b \<noteq> 0 then None
      else padding_loop (Suc sz) bs)"

definition get_padding :: "nat reader" where
  "get_padding bs = do {
     (sz, bs) \<leftarrow> padding_loop 1 bs;
     if sz \<le> TX_EXTRA_PADDING_MAX_COUNT then Some (sz, bs) else None }"

definition get_nonce :: "byte list reader" where
  "get_nonce bs = do {
     (nonce, bs) \<leftarrow> get_string bs;
     if TX_EXTRA_NONCE_MAX_COUNT < length nonce then None else Some (nonce, bs) }"

section \<open>A field of the extra\<close>

definition as_field :: "('a \<Rightarrow> tx_extra_field) \<Rightarrow> 'a reader \<Rightarrow> tx_extra_field reader" where
  "as_field C g bs = do { (x, bs) \<leftarrow> g bs; Some (C x, bs) }"

definition read_variant :: "u8 \<Rightarrow> tx_extra_field reader" where
  "read_variant t =
     (if t = 0x00 then as_field tx_extra_padding get_padding
      else if t = 0x01 then as_field tx_extra_pub_key get_pod
      else if t = 0x02 then as_field tx_extra_nonce get_nonce
      else if t = 0x03 then as_field (case_prod tx_extra_merge_mining_tag) get_merge_mining_tag
      else if t = 0x04 then as_field tx_extra_additional_pub_keys (get_container get_pod)
      else if t = 0xDE then as_field tx_extra_mysterious_minergate get_string
      else if t = 0x74 then as_field tx_extra_frame_pix_pubkey get_pod
      else if t = 0x70 then as_field tx_extra_register get_register
      else if t = 0x73 then as_field tx_extra_frame_pix_contributor get_address
      else if t = 0x72 then as_field tx_extra_frame_pix_winner get_pod
      else if t = 0x78 then as_field tx_extra_state_change get_state_change
      else if t = 0x71 then as_field tx_extra_deregister_old get_deregister_old
      else if t = 0x75 then as_field tx_extra_tx_secret_key get_pod
      else if t = 0x76 then as_field tx_extra_tx_key_image_proofs (get_container get_key_image_proof)
      else if t = 0x77 then as_field tx_extra_key_image_unlock get_key_image_unlock
      else if t = 0x79 then as_field tx_extra_burn (serialize_uint 8)
      else if t = 0x7A then as_field tx_extra_name_system get_name_system
      else (\<lambda>bs. None))"

definition get_field :: "tx_extra_field reader" where
  "get_field bs = do { (t, bs) \<leftarrow> serialize_uint 1 bs; read_variant t bs }"

text \<open>Saving fails for padding and for a nonce that are too long.\<close>

fun put_body :: "tx_extra_field \<Rightarrow> byte list option" where
  "put_body (tx_extra_padding sz) =
     (if TX_EXTRA_PADDING_MAX_COUNT < sz then None else Some (replicate (sz - 1) 0))"
| "put_body (tx_extra_pub_key k) = Some (bytes_of_pod k)"
| "put_body (tx_extra_nonce n) = (if TX_EXTRA_NONCE_MAX_COUNT < length n then None else Some (put_string n))"
| "put_body (tx_extra_merge_mining_tag d r) = Some (put_merge_mining_tag (d, r))"
| "put_body (tx_extra_additional_pub_keys ks) = Some (put_container bytes_of_pod ks)"
| "put_body (tx_extra_mysterious_minergate d) = Some (put_string d)"
| "put_body (tx_extra_frame_pix_pubkey k) = Some (bytes_of_pod k)"
| "put_body (tx_extra_register r) = Some (put_register r)"
| "put_body (tx_extra_frame_pix_contributor a) = Some (put_address a)"
| "put_body (tx_extra_frame_pix_winner k) = Some (bytes_of_pod k)"
| "put_body (tx_extra_state_change sc) = Some (put_state_change sc)"
| "put_body (tx_extra_deregister_old d) = Some (put_deregister_old d)"
| "put_body (tx_extra_tx_secret_key k) = Some (bytes_of_pod k)"
| "put_body (tx_extra_tx_key_image_proofs ps) = Some (put_container put_key_image_proof ps)"
| "put_body (tx_extra_key_image_unlock u) = Some (put_key_image_unlock u)"
| "put_body (tx_extra_burn amount) = Some (le_bytes 8 amount)"
| "put_body (tx_extra_name_system e) = Some (put_name_system e)"

definition put_field :: "tx_extra_field \<Rightarrow> byte list option" where
  "put_field f = do { b \<leftarrow> put_body f; Some (get_tag f # b) }"

section \<open>The parts are codecs\<close>

text \<open>
  The combinators: a codec followed by another, and a codec behind an isomorphism, are codecs. Each part of
  a field is then one of them.
\<close>

lemma codec_signature: "codec_pos bytes_of_signature get_signature (\<lambda>_. True)"
proof unfold_locales
  show "get_signature (bytes_of_signature x @ rest) = Some (x, rest)" for x rest
    by (simp add: get_signature_def serialize_blob_def signature_of_bytes_of_signature)
  show "bytes_of_signature x \<noteq> []" for x by (metis length_bytes_of_signature list.size(3) zero_neq_numeral)
qed (auto simp: get_signature_def serialize_blob_def split: if_splits)

interpretation c_sig: codec_pos bytes_of_signature get_signature "\<lambda>_. True"
  by (rule codec_signature)

lemma serialize_uint_byte: "serialize_uint 1 (b # bs) = Some (b :: byte, bs)" "serialize_uint (Suc 0) (b # bs) = Some (b, bs)"
  by (simp_all add: serialize_uint_def)

lemmas get_put_simps = serialize_uint_byte c_pod.get_put c_sig.get_put c_u8.get_put c_u32.get_put c_u64.get_put c_varint.get_put c_string.get_put
  c_enum.get_put c_pods.get_put c_varints.get_put

lemmas get_oks = c_pod.get_ok c_sig.get_ok c_u8.get_ok c_u8.get_ok [unfolded One_nat_def] c_u32.get_ok c_u64.get_ok
  c_varint.get_ok c_string.get_ok c_enum.get_ok c_pods.get_ok c_varints.get_ok

interpretation c_address: codec_pos put_address get_address "\<lambda>_. True"
  by unfold_locales (auto simp: get_address_def put_address_def get_put_simps c_pod.put_pos bind_eq_Some_conv dest!: get_oks)

interpretation c_register: codec_pos put_register get_register
  "\<lambda>r. length (m_public_spend_keys r) < 2 ^ 64 \<and> length (m_public_view_keys r) < 2 ^ 64 \<and> length (m_portions r) < 2 ^ 64"
  by unfold_locales
    (auto simp: get_register_def put_register_def get_put_simps c_pods.put_pos list_all_iff bind_eq_Some_conv dest!: get_oks)

interpretation c_scvote: codec_pos put_state_change_vote get_state_change_vote "\<lambda>_. True"
  by unfold_locales
    (auto simp: get_state_change_vote_def put_state_change_vote_def get_put_simps bind_eq_Some_conv dest!: get_oks)

interpretation c_scvotes: codec_pos "put_container put_state_change_vote" "get_container get_state_change_vote"
    "\<lambda>v. length v < 2 ^ 64 \<and> list_all (\<lambda>_. True) v"
  by (rule c_scvote.codec_container)

interpretation c_state_change: codec_pos put_state_change get_state_change
    "\<lambda>sc. sc_state sc < NS_COUNT \<and> length (sc_votes sc) < 2 ^ 64"
  by unfold_locales
    (auto simp: get_state_change_def put_state_change_def get_put_simps c_scvotes.get_put list_all_iff bind_eq_Some_conv
      dest!: get_oks c_scvotes.get_ok)

interpretation c_old_vote: codec_pos put_old_vote get_old_vote "\<lambda>_. True"
  by unfold_locales
    (auto simp: get_old_vote_def put_old_vote_def get_put_simps c_sig.put_pos bind_eq_Some_conv dest!: get_oks)

interpretation c_old_votes: codec_pos "put_container put_old_vote" "get_container get_old_vote"
    "\<lambda>v. length v < 2 ^ 64 \<and> list_all (\<lambda>_. True) v"
  by (rule c_old_vote.codec_container)

interpretation c_deregister_old: codec_pos put_deregister_old get_deregister_old "\<lambda>d. length (dereg_votes d) < 2 ^ 64"
  by unfold_locales
    (auto simp: get_deregister_old_def put_deregister_old_def get_put_simps c_old_votes.get_put c_u64.put_pos list_all_iff
      bind_eq_Some_conv dest!: get_oks c_old_votes.get_ok)

interpretation c_ki_proof: codec_pos put_key_image_proof get_key_image_proof "\<lambda>_. True"
  by unfold_locales
    (auto simp: get_key_image_proof_def put_key_image_proof_def get_put_simps c_pod.put_pos bind_eq_Some_conv dest!: get_oks)

interpretation c_ki_proofs: codec_pos "put_container put_key_image_proof" "get_container get_key_image_proof"
    "\<lambda>v. length v < 2 ^ 64 \<and> list_all (\<lambda>_. True) v"
  by (rule c_ki_proof.codec_container)

interpretation c_ki_unlock: codec_pos put_key_image_unlock get_key_image_unlock "\<lambda>_. True"
  by unfold_locales
    (auto simp: get_key_image_unlock_def put_key_image_unlock_def get_put_simps c_pod.put_pos bind_eq_Some_conv dest!: get_oks)

interpretation c_owner: codec_pos put_owner get_owner "\<lambda>_. True"
proof unfold_locales
  show "get_owner (put_owner x @ rest) = Some (x, rest)" for x rest
    by (cases x) (simp_all add: get_owner_def get_put_simps c_address.get_put)
  show "put_owner x \<noteq> []" for x by (cases x) simp_all
qed (auto simp: get_owner_def bind_eq_Some_conv dest!: get_oks c_address.get_ok split: if_splits)

interpretation c_gsig: codec_pos put_generic_signature get_generic_signature "\<lambda>_. True"
proof unfold_locales
  show "get_generic_signature (put_generic_signature x @ rest) = Some (x, rest)" for x rest
    by (cases "gs_type x") (simp_all add: get_generic_signature_def put_generic_signature_def get_put_simps)
qed (auto simp: get_generic_signature_def put_generic_signature_def bind_eq_Some_conv dest!: get_oks)

definition name_system_ok :: "tx_extra_guus_name_system \<Rightarrow> bool" where
  "name_system_ok e \<longleftrightarrow> ns_type e < MAPPING_TYPE_COUNT \<and> ns_fields e \<le> EF_ALL
     \<and> (field_is_set (ns_fields e) EF_OWNER \<or> ns_owner e = null_owner)
     \<and> (field_is_set (ns_fields e) EF_BACKUP_OWNER \<or> ns_backup_owner e = null_owner)
     \<and> (field_is_set (ns_fields e) EF_SIGNATURE \<or> ns_signature e = null_generic_signature)
     \<and> (field_is_set (ns_fields e) EF_ENCRYPTED_VALUE \<or> ns_encrypted_value e = [])
     \<and> length (ns_encrypted_value e) < 2 ^ 64"

lemma get_optional_put:
  assumes "present \<Longrightarrow> g (p x @ rest) = Some (x, rest)" "present \<or> x = dflt"
  shows "get_optional present dflt g ((if present then p x else []) @ rest) = Some (x, rest)"
  using assms by (auto simp: get_optional_def)

lemmas optional_parts =
  get_optional_put [where g = get_owner and p = put_owner, OF c_owner.get_put]
  get_optional_put [where g = get_generic_signature and p = put_generic_signature, OF c_gsig.get_put]
  get_optional_put [where g = get_string and p = put_string, OF c_string.get_put]

lemma get_name_system_put: "name_system_ok e \<Longrightarrow> get_name_system (put_name_system e @ rest) = Some (e, rest)"
  by (simp add: get_name_system_def put_name_system_def name_system_ok_def get_put_simps optional_parts split del: if_split)

lemma optional_parts_ok:
  "get_optional present d get_owner bs = Some (x, rest) \<Longrightarrow> (present \<or> x = d) \<and> length rest \<le> length bs"
  "get_optional present ds get_generic_signature bs = Some (xs, rest) \<Longrightarrow> (present \<or> xs = ds) \<and> length rest \<le> length bs"
  "get_optional present [] get_string bs = Some (str, rest) \<Longrightarrow>
     (present \<or> str = []) \<and> length str < 2 ^ 64 \<and> length rest \<le> length bs"
  by (auto simp: get_optional_def dest!: c_owner.get_ok c_gsig.get_ok c_string.get_ok split: if_splits)

lemma get_name_system_ok:
  assumes "get_name_system bs = Some (e, rest)"
  shows "name_system_ok e \<and> length rest \<le> length bs"
proof -
  obtain b1 b2 b3 b4 b5 b6 b7 b8 where
    r: "serialize_uint 1 bs = Some (ns_version e, b1)" "enum_field (\<lambda>type. type < MAPPING_TYPE_COUNT) b1 = Some (ns_type e, b2)"
      "get_pod b2 = Some (ns_name_hash e, b3)" "get_pod b3 = Some (ns_prev_txid e, b4)"
      "enum_field (\<lambda>flds. flds \<le> EF_ALL) b4 = Some (ns_fields e, b5)"
    and o: "get_optional (field_is_set (ns_fields e) EF_OWNER) null_owner get_owner b5 = Some (ns_owner e, b6)"
      "get_optional (field_is_set (ns_fields e) EF_BACKUP_OWNER) null_owner get_owner b6 = Some (ns_backup_owner e, b7)"
      "get_optional (field_is_set (ns_fields e) EF_SIGNATURE) null_generic_signature get_generic_signature b7 = Some (ns_signature e, b8)"
      "get_optional (field_is_set (ns_fields e) EF_ENCRYPTED_VALUE) [] get_string b8 = Some (ns_encrypted_value e, rest)"
    using assms by (auto simp: get_name_system_def bind_eq_Some_conv simp del: One_nat_def)
  note ok = c_u8.get_ok [OF r(1)] c_enum.get_ok [OF r(2)] c_pod.get_ok [OF r(3)] c_pod.get_ok [OF r(4)] c_enum.get_ok [OF r(5)]
    optional_parts_ok(1) [OF o(1)] optional_parts_ok(1) [OF o(2)] optional_parts_ok(2) [OF o(3)] optional_parts_ok(3) [OF o(4)]
  show ?thesis using ok by (simp add: name_system_ok_def)
qed

interpretation c_name_system: codec_pos put_name_system get_name_system name_system_ok
proof unfold_locales
  show "put_name_system x \<noteq> []" for x by (simp add: put_name_system_def)
qed (simp_all add: get_name_system_put get_name_system_ok)

interpretation c_merge_mining: codec_pos put_merge_mining_tag get_merge_mining_tag "\<lambda>_. True"
proof unfold_locales
  fix x :: "u64 \<times> pod32" and rest
  have "length (write_varint (fst x)) \<le> 10" by (rule length_write_varint_u64)
  then have "length (write_varint (fst x) @ bytes_of_pod (snd x)) < 2 ^ 64" by simp
  then show "get_merge_mining_tag (put_merge_mining_tag x @ rest) = Some (x, rest)"
    using c_pod.get_put [of "snd x" "[]"] c_string.get_put
    by (simp add: get_merge_mining_tag_def put_merge_mining_tag_def c_varint.get_put)
qed (auto simp: get_merge_mining_tag_def put_merge_mining_tag_def bind_eq_Some_conv put_string_def dest!: get_oks split: if_splits)

section \<open>Fields round trip\<close>

fun field_ok :: "tx_extra_field \<Rightarrow> bool" where
  "field_ok (tx_extra_padding sz) \<longleftrightarrow> 1 \<le> sz \<and> sz \<le> TX_EXTRA_PADDING_MAX_COUNT"
| "field_ok (tx_extra_nonce n) \<longleftrightarrow> length n \<le> TX_EXTRA_NONCE_MAX_COUNT"
| "field_ok (tx_extra_additional_pub_keys ks) \<longleftrightarrow> length ks < 2 ^ 64"
| "field_ok (tx_extra_mysterious_minergate d) \<longleftrightarrow> length d < 2 ^ 64"
| "field_ok (tx_extra_register r) \<longleftrightarrow>
     length (m_public_spend_keys r) < 2 ^ 64 \<and> length (m_public_view_keys r) < 2 ^ 64 \<and> length (m_portions r) < 2 ^ 64"
| "field_ok (tx_extra_state_change sc) \<longleftrightarrow> sc_state sc < NS_COUNT \<and> length (sc_votes sc) < 2 ^ 64"
| "field_ok (tx_extra_deregister_old d) \<longleftrightarrow> length (dereg_votes d) < 2 ^ 64"
| "field_ok (tx_extra_tx_key_image_proofs ps) \<longleftrightarrow> length ps < 2 ^ 64"
| "field_ok (tx_extra_name_system e) \<longleftrightarrow> name_system_ok e"
| "field_ok _ \<longleftrightarrow> True"

fun is_padding :: "tx_extra_field \<Rightarrow> bool" where
  "is_padding (tx_extra_padding _) = True"
| "is_padding _ = False"

lemma padding_loop_zeros:
  "n + k \<le> Suc TX_EXTRA_PADDING_MAX_COUNT \<Longrightarrow> padding_loop n (replicate k 0) = Some (n + k, [])"
  by (induction k arbitrary: n) auto

lemma padding_loop_ok:
  "padding_loop n bs = Some (sz, rest) \<Longrightarrow> n \<le> sz \<and> length rest \<le> length bs \<and> (sz \<le> TX_EXTRA_PADDING_MAX_COUNT \<longrightarrow> rest = [])"
  by (induction n bs rule: padding_loop.induct) (auto split: if_splits)

lemma put_field_some: "field_ok f \<Longrightarrow> \<exists>b. put_field f = Some b"
  by (cases f) (auto simp: put_field_def)

lemma as_field_put: "g (b @ rest) = Some (x, rest) \<Longrightarrow> as_field C g (b @ rest) = Some (C x, rest)"
  by (simp add: as_field_def)

lemmas get_puts = c_pod.get_put c_string.get_put c_pods.get_put c_register.get_put c_address.get_put c_state_change.get_put
  c_deregister_old.get_put c_ki_proofs.get_put c_ki_unlock.get_put c_u64.get_put c_name_system.get_put c_merge_mining.get_put

lemma get_put_field:
  assumes "field_ok f" "put_field f = Some b" "is_padding f \<Longrightarrow> rest = []"
  shows "get_field (b @ rest) = Some (f, rest)"
proof (cases f)
  case (tx_extra_padding sz)
  then have "b = 0 # replicate (sz - 1) 0" "rest = []" "1 \<le> sz" "sz \<le> 255" using assms by (auto simp: put_field_def)
  then show ?thesis
    using padding_loop_zeros [of 1 "sz - 1"] tx_extra_padding
    by (simp add: get_field_def read_variant_def serialize_uint_byte as_field_def get_padding_def)
qed (use assms in \<open>auto simp: put_field_def get_field_def read_variant_def serialize_uint_byte as_field_put get_puts get_nonce_def as_field_def list_all_iff simp del: le_bytes.simps\<close>)

lemma as_field_ok:
  assumes "as_field C g bs = Some (f, rest)"
  obtains x where "g bs = Some (x, rest)" "f = C x"
  using assms by (auto simp: as_field_def bind_eq_Some_conv)

lemmas get_field_oks = get_oks c_pods.get_ok c_register.get_ok c_address.get_ok c_state_change.get_ok
  c_deregister_old.get_ok c_ki_proofs.get_ok c_ki_unlock.get_ok c_u64.get_ok c_name_system.get_ok c_merge_mining.get_ok

lemma get_nonce_ok: "get_nonce bs = Some (n, rest) \<Longrightarrow> length n \<le> TX_EXTRA_NONCE_MAX_COUNT \<and> length rest \<le> length bs"
  by (auto simp: get_nonce_def bind_eq_Some_conv dest!: c_string.get_ok split: if_splits)

lemma get_padding_ok:
  "get_padding bs = Some (sz, rest) \<Longrightarrow> 1 \<le> sz \<and> sz \<le> TX_EXTRA_PADDING_MAX_COUNT \<and> rest = []"
  by (auto simp: get_padding_def bind_eq_Some_conv dest!: padding_loop_ok split: if_splits)

lemma read_variant_ok:
  "read_variant t bs = Some (f, rest) \<Longrightarrow> field_ok f \<and> (is_padding f \<longrightarrow> rest = []) \<and> length rest \<le> length bs \<and> get_tag f = t"
  unfolding read_variant_def
  by (auto elim!: as_field_ok dest!: get_padding_ok get_nonce_ok get_field_oks split: if_splits)

lemma get_field_ok:
  assumes "get_field bs = Some (f, rest)"
  shows "field_ok f" "is_padding f \<Longrightarrow> rest = []" "length rest < length bs"
  using assms
  by (cases bs; auto simp: get_field_def bind_eq_Some_conv serialize_uint_def split: if_splits dest!: read_variant_ok)+

end
