(* ===== verification/Format_Utils.thy ===== *)
theory Format_Utils
  imports Tx_Extra
begin

text \<open>
  The functions of \<^verbatim>\<open>src/src/cryptonote_basic/cryptonote_format_utils.cpp\<close> on the extra field: parsing,
  sorting, removing, adding and getting. The extra is a byte vector that the sender chooses freely, so the
  parser is total and keeps the fields it read before a failure: its callers ignore the result and
  look among those.
\<close>

section \<open>Parsing the extra\<close>

text \<open>
  The result tells whether the whole input was parsed, the fields that were read, and the input from
  the first field that was not.
\<close>

function parse_fields :: "byte list \<Rightarrow> bool \<times> tx_extra_field list \<times> byte list" where
  "parse_fields bs =
     (case get_field bs of
        None \<Rightarrow> (False, [], bs)
      | Some (field, bs') \<Rightarrow>
          if bs' = [] then (True, [field], [])
          else case parse_fields bs' of (r, fs, rest) \<Rightarrow> (r, field # fs, rest))"
  by pat_completeness auto

termination parse_fields
  by (relation "measure length") (auto dest: get_field_ok)

declare parse_fields.simps [simp del]

definition parse_tx_extra :: "byte list \<Rightarrow> bool \<times> tx_extra_field list" where
  "parse_tx_extra tx_extra =
     (if tx_extra = [] then (True, []) else case parse_fields tx_extra of (r, fs, _) \<Rightarrow> (r, fs))"

fun find_field_loop :: "(tx_extra_field \<Rightarrow> 'a option) \<Rightarrow> nat \<Rightarrow> tx_extra_field list \<Rightarrow> 'a option" where
  "find_field_loop sel skip_fields [] = None"
| "find_field_loop sel skip_fields (check_field # fs) =
     (case sel check_field of
        None \<Rightarrow> find_field_loop sel skip_fields fs
      | Some x \<Rightarrow> if skip_fields = 0 then Some x else find_field_loop sel (skip_fields - 1) fs)"

text \<open>The type that is looked for is given by its projection from a field.\<close>

definition find_tx_extra_field_by_type ::
    "(tx_extra_field \<Rightarrow> 'a option) \<Rightarrow> tx_extra_field list \<Rightarrow> nat \<Rightarrow> 'a option" where
  "find_tx_extra_field_by_type sel fs skip_fields =
     (if skip_fields \<ge> length fs then None else find_field_loop sel skip_fields fs)"

text \<open>Writing the fields of one type, and what is left.\<close>

fun pick :: "u8 \<Rightarrow> tx_extra_field list \<Rightarrow> (byte list \<times> tx_extra_field list) option" where
  "pick tag [] = Some ([], [])"
| "pick tag (f # fs) =
     (if get_tag f = tag
      then do { b \<leftarrow> put_body f; (out, rest) \<leftarrow> pick tag fs; Some (tag # b @ out, rest) }
      else do { (out, rest) \<leftarrow> pick tag fs; Some (out, f # rest) })"

fun pick_all :: "u8 list \<Rightarrow> tx_extra_field list \<Rightarrow> (byte list \<times> tx_extra_field list) option" where
  "pick_all [] fs = Some ([], fs)"
| "pick_all (tag # tags) fs = do { (out, fs) \<leftarrow> pick tag fs; (out', fs) \<leftarrow> pick_all tags fs; Some (out @ out', fs) }"

definition sort_order :: "u8 list" where
  "sort_order = [0x01, 0x72, 0x04, 0x02, 0x70, 0x71, 0x78, 0x73, 0x74, 0x75, 0x7A, 0x76, 0x77, 0x79, 0x03, 0xDE, 0x00]"

definition sort_tx_extra :: "byte list \<Rightarrow> bool \<Rightarrow> byte list option" where
  "sort_tx_extra tx_extra allow_partial =
     (if tx_extra = [] then Some []
      else case parse_fields tx_extra of (r, fs, unparsed) \<Rightarrow>
        if \<not> r \<and> \<not> allow_partial then None
        else do {
          (oss, left) \<leftarrow> pick_all sort_order fs;
          if left \<noteq> [] then None
          else Some (if allow_partial \<and> unparsed \<noteq> [] then oss @ unparsed else oss) })"

text \<open>
  A field that cannot be saved stops the stream. Padding leaves its tag only; a nonce is checked after
  it was written and leaves all its bytes.
\<close>

fun save_fields :: "tx_extra_field list \<Rightarrow> byte list" where
  "save_fields [] = []"
| "save_fields (f # fs) = (case put_field f of
     None \<Rightarrow> get_tag f # (case f of tx_extra_nonce n \<Rightarrow> put_string n | _ \<Rightarrow> [])
   | Some b \<Rightarrow> b @ save_fields fs)"

definition remove_field_from_tx_extra :: "byte list \<Rightarrow> u8 \<Rightarrow> bool \<times> byte list" where
  "remove_field_from_tx_extra tx_extra tag =
     (if tx_extra = [] then (True, tx_extra)
      else case parse_fields tx_extra of (r, fs, _) \<Rightarrow>
        if \<not> r then (False, tx_extra)
        else (True, save_fields (filter (\<lambda>field. get_tag field \<noteq> tag) fs)))"

section \<open>Adding and getting\<close>

definition add_data_to_tx_extra :: "byte list \<Rightarrow> byte list \<Rightarrow> u8 \<Rightarrow> byte list" where
  "add_data_to_tx_extra tx_extra data tag = tx_extra @ tag # data"

definition add_tx_extra_field_to_tx_extra :: "byte list \<Rightarrow> tx_extra_field \<Rightarrow> byte list option" where
  "add_tx_extra_field_to_tx_extra tx_extra field = do { b \<leftarrow> put_field field; Some (tx_extra @ b) }"

definition add_tx_pub_key_to_extra :: "byte list \<Rightarrow> pod32 \<Rightarrow> byte list" where
  "add_tx_pub_key_to_extra tx_extra tx_pub_key = add_data_to_tx_extra tx_extra (bytes_of_pod tx_pub_key) 0x01"

definition add_additional_tx_pub_keys_to_extra :: "byte list \<Rightarrow> pod32 list \<Rightarrow> byte list option" where
  "add_additional_tx_pub_keys_to_extra tx_extra ks = add_tx_extra_field_to_tx_extra tx_extra (tx_extra_additional_pub_keys ks)"

definition add_extra_nonce_to_tx_extra :: "byte list \<Rightarrow> byte list \<Rightarrow> byte list option" where
  "add_extra_nonce_to_tx_extra tx_extra extra_nonce =
     (if length extra_nonce > TX_EXTRA_NONCE_MAX_COUNT then None
      else Some (tx_extra @ [0x02, of_nat (length extra_nonce)] @ extra_nonce))"

definition add_frame_pix_state_change_to_tx_extra ::
    "byte list \<Rightarrow> tx_extra_frame_pix_state_change \<Rightarrow> u8 \<Rightarrow> byte list option" where
  "add_frame_pix_state_change_to_tx_extra tx_extra sc hf_version =
     (if hf_version < 12 then
        (if sc_state sc \<noteq> NS_DEREGISTER then None
         else add_tx_extra_field_to_tx_extra tx_extra
           (tx_extra_deregister_old \<lparr>dereg_block_height = sc_block_height sc,
              dereg_frame_pix_index = frame_pix_index sc, dereg_votes = sc_votes sc\<rparr>))
      else add_tx_extra_field_to_tx_extra tx_extra (tx_extra_state_change sc))"

definition add_frame_pix_pubkey_to_tx_extra :: "byte list \<Rightarrow> pod32 \<Rightarrow> byte list" where
  "add_frame_pix_pubkey_to_tx_extra tx_extra pubkey = add_data_to_tx_extra tx_extra (bytes_of_pod pubkey) 0x74"

definition add_frame_pix_contributor_to_tx_extra :: "byte list \<Rightarrow> account_public_address \<Rightarrow> byte list" where
  "add_frame_pix_contributor_to_tx_extra tx_extra address = add_data_to_tx_extra tx_extra (put_address address) 0x73"

definition add_tx_secret_key_to_tx_extra :: "byte list \<Rightarrow> pod32 \<Rightarrow> byte list" where
  "add_tx_secret_key_to_tx_extra tx_extra key = add_data_to_tx_extra tx_extra (bytes_of_pod key) 0x75"

definition add_tx_key_image_proofs_to_tx_extra :: "byte list \<Rightarrow> key_image_proof list \<Rightarrow> byte list option" where
  "add_tx_key_image_proofs_to_tx_extra tx_extra proofs = add_tx_extra_field_to_tx_extra tx_extra (tx_extra_tx_key_image_proofs proofs)"

definition add_tx_key_image_unlock_to_tx_extra :: "byte list \<Rightarrow> tx_extra_tx_key_image_unlock \<Rightarrow> byte list option" where
  "add_tx_key_image_unlock_to_tx_extra tx_extra unlock = add_tx_extra_field_to_tx_extra tx_extra (tx_extra_key_image_unlock unlock)"

definition add_frame_pix_register_to_tx_extra ::
    "byte list \<Rightarrow> account_public_address list \<Rightarrow> u64 \<Rightarrow> u64 list \<Rightarrow> u64 \<Rightarrow> signature \<Rightarrow> byte list option" where
  "add_frame_pix_register_to_tx_extra tx_extra addresses portions_for_operator portions expiration_timestamp sig =
     (if length addresses \<noteq> length portions then None
      else add_tx_extra_field_to_tx_extra tx_extra
        (tx_extra_register \<lparr>m_public_spend_keys = map m_spend_public_key addresses,
           m_public_view_keys = map m_view_public_key addresses, m_portions_for_operator = portions_for_operator,
           m_portions = portions, m_expiration_timestamp = expiration_timestamp, m_frame_pix_signature = sig\<rparr>))"

definition add_frame_pix_winner_to_tx_extra :: "byte list \<Rightarrow> pod32 \<Rightarrow> byte list" where
  "add_frame_pix_winner_to_tx_extra tx_extra winner = add_data_to_tx_extra tx_extra (bytes_of_pod winner) 0x72"

definition add_guus_name_system_to_tx_extra :: "byte list \<Rightarrow> tx_extra_guus_name_system \<Rightarrow> byte list option" where
  "add_guus_name_system_to_tx_extra tx_extra e = add_tx_extra_field_to_tx_extra tx_extra (tx_extra_name_system e)"

definition add_burned_amount_to_tx_extra :: "byte list \<Rightarrow> u64 \<Rightarrow> byte list option" where
  "add_burned_amount_to_tx_extra tx_extra burn = add_tx_extra_field_to_tx_extra tx_extra (tx_extra_burn burn)"

text \<open>The getters parse the extra, ignore whether all of it was parsed, and take the first field of the type.\<close>

definition first_of_type :: "(tx_extra_field \<Rightarrow> 'a option) \<Rightarrow> byte list \<Rightarrow> 'a option" where
  "first_of_type sel tx_extra = find_tx_extra_field_by_type sel (snd (parse_tx_extra tx_extra)) 0"

definition get_tx_pub_key_from_extra :: "byte list \<Rightarrow> nat \<Rightarrow> pod32" where
  "get_tx_pub_key_from_extra tx_extra pk_index =
     (case find_tx_extra_field_by_type (\<lambda>f. case f of tx_extra_pub_key k \<Rightarrow> Some k | _ \<Rightarrow> None)
             (snd (parse_tx_extra tx_extra)) pk_index of
        None \<Rightarrow> null_pod | Some k \<Rightarrow> k)"

definition get_additional_tx_pub_keys_from_extra :: "byte list \<Rightarrow> pod32 list" where
  "get_additional_tx_pub_keys_from_extra tx_extra =
     (case first_of_type (\<lambda>f. case f of tx_extra_additional_pub_keys ks \<Rightarrow> Some ks | _ \<Rightarrow> None) tx_extra of
        None \<Rightarrow> [] | Some ks \<Rightarrow> ks)"

definition get_frame_pix_pubkey_from_tx_extra :: "byte list \<Rightarrow> pod32 option" where
  "get_frame_pix_pubkey_from_tx_extra = first_of_type (\<lambda>f. case f of tx_extra_frame_pix_pubkey k \<Rightarrow> Some k | _ \<Rightarrow> None)"

definition get_tx_secret_key_from_tx_extra :: "byte list \<Rightarrow> pod32 option" where
  "get_tx_secret_key_from_tx_extra = first_of_type (\<lambda>f. case f of tx_extra_tx_secret_key k \<Rightarrow> Some k | _ \<Rightarrow> None)"

definition get_tx_key_image_proofs_from_tx_extra :: "byte list \<Rightarrow> key_image_proof list option" where
  "get_tx_key_image_proofs_from_tx_extra = first_of_type (\<lambda>f. case f of tx_extra_tx_key_image_proofs ps \<Rightarrow> Some ps | _ \<Rightarrow> None)"

definition get_tx_key_image_unlock_from_tx_extra :: "byte list \<Rightarrow> tx_extra_tx_key_image_unlock option" where
  "get_tx_key_image_unlock_from_tx_extra = first_of_type (\<lambda>f. case f of tx_extra_key_image_unlock u \<Rightarrow> Some u | _ \<Rightarrow> None)"

definition get_frame_pix_contributor_from_tx_extra :: "byte list \<Rightarrow> account_public_address option" where
  "get_frame_pix_contributor_from_tx_extra = first_of_type (\<lambda>f. case f of tx_extra_frame_pix_contributor a \<Rightarrow> Some a | _ \<Rightarrow> None)"

definition get_frame_pix_register_from_tx_extra :: "byte list \<Rightarrow> tx_extra_frame_pix_register option" where
  "get_frame_pix_register_from_tx_extra tx_extra =
     (case first_of_type (\<lambda>f. case f of tx_extra_register r \<Rightarrow> Some r | _ \<Rightarrow> None) tx_extra of
        None \<Rightarrow> None
      | Some r \<Rightarrow> if length (m_public_spend_keys r) = length (m_public_view_keys r) then Some r else None)"

definition get_frame_pix_state_change_from_tx_extra :: "byte list \<Rightarrow> u8 \<Rightarrow> tx_extra_frame_pix_state_change option" where
  "get_frame_pix_state_change_from_tx_extra tx_extra hf_version =
     (if hf_version \<ge> 12 then first_of_type (\<lambda>f. case f of tx_extra_state_change sc \<Rightarrow> Some sc | _ \<Rightarrow> None) tx_extra
      else map_option (\<lambda>d. \<lparr>sc_state = NS_DEREGISTER, sc_block_height = dereg_block_height d,
               frame_pix_index = dereg_frame_pix_index d, sc_votes = dereg_votes d\<rparr>)
             (first_of_type (\<lambda>f. case f of tx_extra_deregister_old d \<Rightarrow> Some d | _ \<Rightarrow> None) tx_extra))"

definition get_frame_pix_winner_from_tx_extra :: "byte list \<Rightarrow> pod32" where
  "get_frame_pix_winner_from_tx_extra tx_extra =
     (case first_of_type (\<lambda>f. case f of tx_extra_frame_pix_winner k \<Rightarrow> Some k | _ \<Rightarrow> None) tx_extra of
        None \<Rightarrow> null_pod | Some k \<Rightarrow> k)"

definition get_guus_name_system_from_tx_extra :: "byte list \<Rightarrow> tx_extra_guus_name_system option" where
  "get_guus_name_system_from_tx_extra = first_of_type (\<lambda>f. case f of tx_extra_name_system e \<Rightarrow> Some e | _ \<Rightarrow> None)"

definition get_burned_amount_from_tx_extra :: "byte list \<Rightarrow> u64" where
  "get_burned_amount_from_tx_extra tx_extra =
     (case first_of_type (\<lambda>f. case f of tx_extra_burn amount \<Rightarrow> Some amount | _ \<Rightarrow> None) tx_extra of
        None \<Rightarrow> 0 | Some amount \<Rightarrow> amount)"

text \<open>Payment ids inside a nonce; the encrypted one has eight bytes.\<close>

definition set_payment_id_to_tx_extra_nonce :: "pod32 \<Rightarrow> byte list" where
  "set_payment_id_to_tx_extra_nonce payment_id = 0x00 # bytes_of_pod payment_id"

definition set_encrypted_payment_id_to_tx_extra_nonce :: "u64 \<Rightarrow> byte list" where
  "set_encrypted_payment_id_to_tx_extra_nonce payment_id = 0x01 # le_bytes 8 payment_id"

definition get_payment_id_from_tx_extra_nonce :: "byte list \<Rightarrow> pod32 option" where
  "get_payment_id_from_tx_extra_nonce extra_nonce =
     (if 32 + 1 \<noteq> length extra_nonce then None
      else if 0x00 \<noteq> extra_nonce ! 0 then None
      else Some (pod_of_bytes (drop 1 extra_nonce)))"

definition get_encrypted_payment_id_from_tx_extra_nonce :: "byte list \<Rightarrow> u64 option" where
  "get_encrypted_payment_id_from_tx_extra_nonce extra_nonce =
     (if 8 + 1 \<noteq> length extra_nonce then None
      else if 0x01 \<noteq> extra_nonce ! 0 then None
      else Some (word_of_le (drop 1 extra_nonce)))"

section \<open>Parsing what was saved\<close>

text \<open>The field lists that can be parsed: every field within its limits, and padding only at the end.\<close>

definition extra_ok :: "tx_extra_field list \<Rightarrow> bool" where
  "extra_ok fs \<longleftrightarrow> list_all field_ok fs \<and> list_all (\<lambda>f. \<not> is_padding f) (butlast fs)"

lemma extra_ok_Cons: "extra_ok (f # fs) \<longleftrightarrow> field_ok f \<and> extra_ok fs \<and> (is_padding f \<longrightarrow> fs = [])"
  by (auto simp: extra_ok_def)

lemma put_field_not_Nil: "put_field f = Some b \<Longrightarrow> b \<noteq> []"
  by (auto simp: put_field_def bind_eq_Some_conv)

lemma save_fields_Nil_iff [simp]: "save_fields fs = [] \<longleftrightarrow> fs = []"
  by (cases fs) (auto split: option.splits dest: put_field_not_Nil)

lemma save_fields_append: "list_all field_ok fs \<Longrightarrow> save_fields (fs @ gs) = save_fields fs @ save_fields gs"
  by (induction fs) (auto split: option.splits dest: put_field_some)

lemma parse_save_fields: "extra_ok fs \<Longrightarrow> fs \<noteq> [] \<Longrightarrow> parse_fields (save_fields fs) = (True, fs, [])"
proof (induction fs)
  case (Cons f fs)
  then have ok: "field_ok f" "extra_ok fs" "is_padding f \<Longrightarrow> fs = []" by (simp_all add: extra_ok_Cons)
  obtain b where b: "put_field f = Some b" using put_field_some [OF ok(1)] by blast
  have "get_field (b @ save_fields fs) = Some (f, save_fields fs)" by (rule get_put_field [OF ok(1) b]) (simp add: ok(3))
  then show ?case using Cons.IH [OF ok(2)] by (cases "fs = []") (simp_all add: b parse_fields.simps [of "b @ _"] parse_fields.simps [of b])
qed simp

lemma parse_fields_ok:
  "parse_fields bs = (r, fs, rest) \<Longrightarrow> extra_ok fs \<and> (r \<longrightarrow> rest = [] \<and> fs \<noteq> []) \<and> (\<not> r \<longrightarrow> list_all (\<lambda>f. \<not> is_padding f) fs)"
proof (induction bs arbitrary: r fs rest rule: parse_fields.induct)
  case (1 bs)
  show ?case
  proof (cases "get_field bs")
    case None
    then show ?thesis using "1.prems" by (simp add: parse_fields.simps [of bs] extra_ok_def)
  next
    case (Some p)
    obtain f bs' where p: "get_field bs = Some (f, bs')" using Some by (cases p) simp
    note ok = get_field_ok [OF p]
    show ?thesis
    proof (cases "bs' = []")
      case True
      then show ?thesis using "1.prems" p ok(1) by (auto simp: parse_fields.simps [of bs] extra_ok_def)
    next
      case False
      obtain fs' where "parse_fields bs' = (r, fs', rest)" "fs = f # fs'"
        using "1.prems" p False by (auto simp: parse_fields.simps [of bs] split: prod.splits)
      then show ?thesis using "1.IH" [OF p refl False] ok(1,2) False by (auto simp: extra_ok_Cons)
    qed
  qed
qed

lemma parse_tx_extra_ok:
  assumes "parse_tx_extra bs = (r, fs)"
  shows "extra_ok fs"
proof (cases "bs = []")
  case False
  obtain r' fs' rest where p: "parse_fields bs = (r', fs', rest)" by (cases "parse_fields bs")
  then show ?thesis using assms False parse_fields_ok [OF p] by (simp add: parse_tx_extra_def)
qed (use assms in \<open>simp add: parse_tx_extra_def extra_ok_def\<close>)

text \<open>
  C16. The extra field round trips. Saving any list of fields that are within their limits, with padding only
  at the end, and parsing the bytes gives the list back; and these are exactly the lists that
  parsing an extra field completely can give.
\<close>

theorem tx_extra_roundtrip:
  "(extra_ok fs \<longrightarrow> parse_tx_extra (save_fields fs) = (True, fs))
   \<and> (extra_ok fs \<longleftrightarrow> (\<exists>bs. parse_tx_extra bs = (True, fs)))"
proof (intro conjI impI)
  show rt: "parse_tx_extra (save_fields fs) = (True, fs)" if "extra_ok fs"
    using parse_save_fields [OF that] by (cases "fs = []") (simp_all add: parse_tx_extra_def)
  show "extra_ok fs \<longleftrightarrow> (\<exists>bs. parse_tx_extra bs = (True, fs))"
    using rt parse_tx_extra_ok by blast
qed

text \<open>Two fields and padding, saved and parsed.\<close>

theorem tx_extra_roundtrip_witness:
  "parse_tx_extra (save_fields [tx_extra_burn 7, tx_extra_nonce [1, 2], tx_extra_padding 3]) =
     (True, [tx_extra_burn 7, tx_extra_nonce [1, 2], tx_extra_padding 3])"
  using tx_extra_roundtrip [of "[tx_extra_burn 7, tx_extra_nonce [1, 2], tx_extra_padding 3]"]
  by (simp add: extra_ok_def)

section \<open>Sorting\<close>

text \<open>The place of a tag in a list of tags, and the fields grouped by it.\<close>

fun tag_rank :: "u8 list \<Rightarrow> u8 \<Rightarrow> nat" where
  "tag_rank [] x = 0"
| "tag_rank (t # ts) x = (if x = t then 0 else Suc (tag_rank ts x))"

definition sort_rank :: "tx_extra_field \<Rightarrow> nat" where
  "sort_rank f = tag_rank sort_order (get_tag f)"

fun group_by_tag :: "u8 list \<Rightarrow> tx_extra_field list \<Rightarrow> tx_extra_field list" where
  "group_by_tag [] fs = []"
| "group_by_tag (t # ts) fs = filter (\<lambda>f. get_tag f = t) fs @ group_by_tag ts (filter (\<lambda>f. get_tag f \<noteq> t) fs)"

lemma put_field_tag: "put_field f = Some b \<longleftrightarrow> (\<exists>c. put_body f = Some c \<and> b = get_tag f # c)"
  by (auto simp: put_field_def bind_eq_Some_conv)

lemma pick_spec:
  "list_all field_ok fs \<Longrightarrow> pick t fs = Some (save_fields (filter (\<lambda>f. get_tag f = t) fs), filter (\<lambda>f. get_tag f \<noteq> t) fs)"
proof (induction fs)
  case (Cons f fs)
  obtain b c where "put_field f = Some b" "put_body f = Some c" "b = get_tag f # c"
    using put_field_some [of f] Cons.prems by (auto simp: put_field_tag)
  then show ?case using Cons by simp
qed simp

lemma list_all_filter: "list_all P xs \<Longrightarrow> list_all P (filter Q xs)"
  by (auto simp: list_all_iff)

lemma pick_all_spec:
  "list_all field_ok fs \<Longrightarrow> pick_all ts fs = Some (save_fields (group_by_tag ts fs), filter (\<lambda>f. get_tag f \<notin> set ts) fs)"
proof (induction ts arbitrary: fs)
  case (Cons t ts)
  have ok: "list_all field_ok (filter (\<lambda>f. get_tag f \<noteq> t) fs)" "list_all field_ok (filter (\<lambda>f. get_tag f = t) fs)"
    by (rule list_all_filter [OF Cons.prems])+
  show ?case using Cons.IH [OF ok(1)] pick_spec [OF Cons.prems, of t] save_fields_append [OF ok(2)]
    by (simp add: conj_commute)
qed simp

lemma get_tag_in_order: "get_tag f \<in> set sort_order"
  by (cases f) (simp_all add: sort_order_def)

lemma mset_group_by_tag: "(\<forall>f \<in> set fs. get_tag f \<in> set ts) \<Longrightarrow> mset (group_by_tag ts fs) = mset fs"
proof (induction ts arbitrary: fs)
  case (Cons t ts)
  have "mset (group_by_tag ts (filter (\<lambda>f. get_tag f \<noteq> t) fs)) = mset (filter (\<lambda>f. get_tag f \<noteq> t) fs)"
    using Cons.prems by (intro Cons.IH) auto
  then show ?case by (simp add: union_filter_mset_complement)
qed simp

lemma filter_group_by_tag:
  "(\<forall>f \<in> set fs. get_tag f \<in> set ts) \<Longrightarrow> filter (\<lambda>f. get_tag f = x) (group_by_tag ts fs) = filter (\<lambda>f. get_tag f = x) fs"
proof (induction ts arbitrary: fs)
  case (Cons t ts)
  have "filter (\<lambda>f. get_tag f = x) (group_by_tag ts (filter (\<lambda>f. get_tag f \<noteq> t) fs)) =
      filter (\<lambda>f. get_tag f = x) (filter (\<lambda>f. get_tag f \<noteq> t) fs)"
    using Cons.prems by (intro Cons.IH) auto
  moreover have "filter (\<lambda>f. get_tag f = x) (filter (\<lambda>f. get_tag f \<noteq> t) fs) = (if x = t then [] else filter (\<lambda>f. get_tag f = x) fs)"
    by (auto simp: filter_empty_conv intro!: arg_cong2 [where f = filter])
  moreover have "filter (\<lambda>f. get_tag f = x) (filter (\<lambda>f. get_tag f = t) fs) = (if x = t then filter (\<lambda>f. get_tag f = x) fs else [])"
    by (auto simp: filter_empty_conv intro!: arg_cong2 [where f = filter])
  ultimately show ?case by (simp del: filter_filter)
qed simp

lemma set_group_by_tag: "f \<in> set (group_by_tag ts fs) \<Longrightarrow> f \<in> set fs"
proof (induction ts arbitrary: fs)
  case (Cons t ts)
  then show ?case using Cons.IH [of "filter (\<lambda>f. get_tag f \<noteq> t) fs"] by auto
qed simp

lemma sorted_group_by_tag:
  "(\<forall>f \<in> set fs. get_tag f \<in> set ts) \<Longrightarrow> sorted (map (\<lambda>f. tag_rank ts (get_tag f)) (group_by_tag ts fs))"
proof (induction ts arbitrary: fs)
  case (Cons t ts)
  let ?r = "group_by_tag ts (filter (\<lambda>f. get_tag f \<noteq> t) fs)" and ?z = "filter (\<lambda>f. get_tag f = t) fs"
  have "sorted (map (\<lambda>f. tag_rank ts (get_tag f)) ?r)" using Cons.prems by (intro Cons.IH) auto
  then have sr: "sorted (map (\<lambda>f. Suc (tag_rank ts (get_tag f))) ?r)" by (simp only: sorted_wrt_map Suc_le_mono)
  have eq: "map (\<lambda>f. tag_rank (t # ts) (get_tag f)) ?r = map (\<lambda>f. Suc (tag_rank ts (get_tag f))) ?r"
  proof (rule list.map_cong0)
    fix f
    assume "f \<in> set ?r"
    then have "get_tag f \<noteq> t" using set_group_by_tag by fastforce
    then show "tag_rank (t # ts) (get_tag f) = Suc (tag_rank ts (get_tag f))" by simp
  qed
  have r: "sorted (map (\<lambda>f. tag_rank (t # ts) (get_tag f)) ?r)" unfolding eq by (rule sr)
  have z: "map (\<lambda>f. tag_rank (t # ts) (get_tag f)) ?z = replicate (length ?z) 0"
    by (intro replicate_eqI) auto
  have "\<forall>x \<in> set (replicate (length ?z) 0). \<forall>y \<in> set ys. x \<le> y" for ys :: "nat list" by simp
  then show ?case unfolding group_by_tag.simps map_append sorted_append z using r by simp
qed simp

lemma tag_rank_inj: "x \<in> set ts \<Longrightarrow> y \<in> set ts \<Longrightarrow> tag_rank ts x = tag_rank ts y \<longleftrightarrow> x = y"
  by (induction ts) auto

lemma group_by_tag_sorts: "group_by_tag sort_order fs = sort_key sort_rank fs"
proof (rule properties_for_sort_key [symmetric])
  have inj: "sort_rank k = sort_rank f \<longleftrightarrow> get_tag k = get_tag f" for k f
    by (simp add: sort_rank_def tag_rank_inj get_tag_in_order)
  show "filter (\<lambda>f. sort_rank k = sort_rank f) (group_by_tag sort_order fs) = filter (\<lambda>f. sort_rank k = sort_rank f) fs" for k
    using filter_group_by_tag [of fs sort_order "get_tag k"] get_tag_in_order by (simp add: inj eq_commute [of "get_tag k"])
qed (simp_all add: mset_group_by_tag sorted_group_by_tag get_tag_in_order sort_rank_def [abs_def])

lemma padding_rank: "sort_rank f \<le> 16" "is_padding f \<longleftrightarrow> sort_rank f = 16"
  by (cases f; simp add: sort_rank_def sort_order_def)+

lemma extra_ok_sort:
  assumes "extra_ok fs"
  shows "extra_ok (sort_key sort_rank fs)"
proof -
  let ?s = "sort_key sort_rank fs"
  have one: "length (filter is_padding fs) \<le> 1"
    using assms by (cases fs rule: rev_cases) (auto simp: extra_ok_def list_all_iff filter_empty_conv)
  have "list_all (\<lambda>f. \<not> is_padding f) (butlast ?s)"
  proof (cases ?s rule: rev_cases)
    case (snoc ys y)
    have "length (filter is_padding ?s) = length (filter is_padding fs)"
      using mset_filter [of is_padding ?s] mset_filter [of is_padding fs] by (metis mset_sort size_mset)
    then have le: "length (filter is_padding ys) + length (filter is_padding [y]) \<le> 1" using one by (simp add: snoc)
    have "sorted (map sort_rank (ys @ [y]))" unfolding snoc [symmetric] by (rule sorted_sort_key)
    then have "is_padding y" if "f \<in> set ys" "is_padding f" for f
      using that padding_rank [of f] padding_rank [of y] by (auto simp: sorted_append)
    then have "\<not> is_padding f" if "f \<in> set ys" for f
      using that le by (auto simp: filter_empty_conv split: if_splits)
    then show ?thesis by (simp add: snoc list_all_iff)
  qed simp
  moreover have "list_all field_ok ?s" using assms by (simp add: extra_ok_def list_all_iff)
  ultimately show ?thesis by (simp add: extra_ok_def)
qed

text \<open>
  C24. Sorting an extra field that can be parsed succeeds, and parsing the result gives the same
  fields, stably sorted by the fixed order of the types. Sorting again changes nothing.
\<close>

theorem sort_tx_extra_sorts:
  assumes "parse_tx_extra e = (True, fs)"
  shows "\<exists>e'. sort_tx_extra e partial = Some e' \<and> parse_tx_extra e' = (True, sort_key sort_rank fs)
    \<and> sort_tx_extra e' partial = Some e'"
proof -
  let ?e = "save_fields (sort_key sort_rank fs)"
  have ok: "extra_ok fs" by (rule parse_tx_extra_ok [OF assms])
  have run: "sort_tx_extra b partial = Some (save_fields (sort_key sort_rank gs))"
    if p: "parse_tx_extra b = (True, gs)" for b gs
  proof (cases "b = []")
    case False
    then obtain rest where r: "parse_fields b = (True, gs, rest)"
      using p by (auto simp: parse_tx_extra_def split: prod.splits)
    have "list_all field_ok gs" using parse_tx_extra_ok [OF p] by (simp add: extra_ok_def)
    from pick_all_spec [OF this, of sort_order] show ?thesis
      using False r parse_fields_ok [OF r] get_tag_in_order by (simp add: sort_tx_extra_def group_by_tag_sorts)
  qed (use p in \<open>simp add: sort_tx_extra_def parse_tx_extra_def\<close>)
  have p: "parse_tx_extra ?e = (True, sort_key sort_rank fs)"
    using parse_save_fields [OF extra_ok_sort [OF ok]] by (cases "fs = []") (auto simp: parse_tx_extra_def)
  have "sort_key sort_rank (sort_key sort_rank fs) = sort_key sort_rank fs"
    by (rule sort_key_id_if_sorted) simp
  then show ?thesis using run [OF assms] run [OF p] p by simp
qed

theorem sort_tx_extra_sorts_witness:
  "parse_tx_extra (save_fields [tx_extra_burn 7, tx_extra_pub_key 1]) = (True, [tx_extra_burn 7, tx_extra_pub_key 1])
   \<and> (\<exists>e'. sort_tx_extra (save_fields [tx_extra_burn 7, tx_extra_pub_key 1]) False = Some e'
        \<and> parse_tx_extra e' = (True, [tx_extra_pub_key 1, tx_extra_burn 7]))"
proof -
  have p: "parse_tx_extra (save_fields [tx_extra_burn 7, tx_extra_pub_key 1]) = (True, [tx_extra_burn 7, tx_extra_pub_key 1])"
    using parse_save_fields [of "[tx_extra_burn 7, tx_extra_pub_key 1]"]
    by (simp add: parse_tx_extra_def extra_ok_def del: save_fields.simps)
  have "sort_key sort_rank [tx_extra_burn 7, tx_extra_pub_key 1] = [tx_extra_pub_key 1, tx_extra_burn 7]"
    by (simp add: sort_rank_def sort_order_def)
  then show ?thesis using sort_tx_extra_sorts [OF p, of False] p by auto
qed

section \<open>Adding, finding and removing\<close>

text \<open>Each adder appends one field to an extra that holds complete fields and no padding.\<close>

lemma add_field_saves:
  assumes "list_all field_ok fs" "field_ok f"
  shows "add_tx_extra_field_to_tx_extra (save_fields fs) f = Some (save_fields (fs @ [f]))"
proof -
  obtain b where "put_field f = Some b" using put_field_some [OF assms(2)] by blast
  then show ?thesis by (simp add: add_tx_extra_field_to_tx_extra_def save_fields_append [OF assms(1)])
qed

lemma add_data_saves:
  assumes "list_all field_ok fs" "put_field f = Some (tag # data)"
  shows "add_data_to_tx_extra (save_fields fs) data tag = save_fields (fs @ [f])"
  using assms by (simp add: add_data_to_tx_extra_def save_fields_append)

lemma first_of_type_save:
  assumes "list_all field_ok fs" "list_all (\<lambda>f. \<not> is_padding f) fs" "field_ok f" "\<forall>g \<in> set fs. sel g = None" "sel f = Some x"
  shows "first_of_type sel (save_fields (fs @ [f])) = Some x"
proof -
  have "extra_ok (fs @ [f])" using assms by (simp add: extra_ok_def)
  then have "parse_tx_extra (save_fields (fs @ [f])) = (True, fs @ [f])"
    using parse_save_fields [of "fs @ [f]"] by (simp add: parse_tx_extra_def)
  moreover have "find_field_loop sel 0 (fs @ [f]) = Some x" using assms(4,5) by (induction fs) auto
  ultimately show ?thesis by (simp add: first_of_type_def find_tx_extra_field_by_type_def)
qed

lemma add_get_simple:
  assumes "list_all field_ok fs" "list_all (\<lambda>f. \<not> is_padding f) fs" "\<forall>x. C x \<notin> set fs"
    "\<And>g x. sel g = Some x \<Longrightarrow> g = C x" "sel (C x) = Some x" "field_ok (C x)"
  shows "first_of_type sel (save_fields (fs @ [C x])) = Some x"
proof (rule first_of_type_save [of fs "C x" sel x])
  show "\<forall>g \<in> set fs. sel g = None" using assms(3,4) by (metis option.exhaust)
qed (fact assms)+

lemma selectors:
  "(case g of tx_extra_frame_pix_pubkey k \<Rightarrow> Some k | _ \<Rightarrow> None) = Some k1 \<Longrightarrow> g = tx_extra_frame_pix_pubkey k1"
  "(case g of tx_extra_frame_pix_winner k \<Rightarrow> Some k | _ \<Rightarrow> None) = Some k2 \<Longrightarrow> g = tx_extra_frame_pix_winner k2"
  "(case g of tx_extra_frame_pix_contributor a \<Rightarrow> Some a | _ \<Rightarrow> None) = Some a1 \<Longrightarrow> g = tx_extra_frame_pix_contributor a1"
  "(case g of tx_extra_tx_secret_key k \<Rightarrow> Some k | _ \<Rightarrow> None) = Some k3 \<Longrightarrow> g = tx_extra_tx_secret_key k3"
  "(case g of tx_extra_key_image_unlock u \<Rightarrow> Some u | _ \<Rightarrow> None) = Some u1 \<Longrightarrow> g = tx_extra_key_image_unlock u1"
  "(case g of tx_extra_state_change sc \<Rightarrow> Some sc | _ \<Rightarrow> None) = Some sc1 \<Longrightarrow> g = tx_extra_state_change sc1"
  "(case g of tx_extra_deregister_old d \<Rightarrow> Some d | _ \<Rightarrow> None) = Some d1 \<Longrightarrow> g = tx_extra_deregister_old d1"
  by (simp_all split: tx_extra_field.split_asm)

lemma state_change_found:
  assumes "list_all field_ok fs" "list_all (\<lambda>f. \<not> is_padding f) fs"
    "\<forall>sc. tx_extra_state_change sc \<notin> set fs" "\<forall>d. tx_extra_deregister_old d \<notin> set fs"
    "sc_state sc < (if hf_version < 12 then 1 else NS_COUNT)" "length (sc_votes sc) < 2 ^ 64"
  shows "\<exists>e'. add_frame_pix_state_change_to_tx_extra (save_fields fs) sc hf_version = Some e'
    \<and> get_frame_pix_state_change_from_tx_extra e' hf_version = Some sc"
proof (cases "hf_version < 12")
  case True
  let ?d = "\<lparr>dereg_block_height = sc_block_height sc, dereg_frame_pix_index = frame_pix_index sc, dereg_votes = sc_votes sc\<rparr>"
  have hf: "(12 \<le> hf_version) = False" using True by (simp add: not_le)
  have "sc_state sc = 0" using assms(5) True by (simp add: word_less_1)
  then show ?thesis
    using True assms(6) add_field_saves [OF assms(1), of "tx_extra_deregister_old ?d"]
      add_get_simple [of fs tx_extra_deregister_old "\<lambda>f. case f of tx_extra_deregister_old d \<Rightarrow> Some d | _ \<Rightarrow> None" ?d,
        OF assms(1,2,4) selectors(7)]
    by (simp add: add_frame_pix_state_change_to_tx_extra_def get_frame_pix_state_change_from_tx_extra_def hf)
next
  case False
  then have hf: "(12 \<le> hf_version) = True" by simp
  then show ?thesis
    using False assms(5,6) add_field_saves [OF assms(1), of "tx_extra_state_change sc"]
      add_get_simple [of fs tx_extra_state_change "\<lambda>f. case f of tx_extra_state_change sc \<Rightarrow> Some sc | _ \<Rightarrow> None" sc,
        OF assms(1,2,3) selectors(6)]
    by (simp add: add_frame_pix_state_change_to_tx_extra_def get_frame_pix_state_change_from_tx_extra_def)
qed

text \<open>
  C27. The service node data a wallet or a quorum adds to an extra field is what the daemon finds in it: for
  an extra made of complete fields without padding, the getter returns what the adder appended,
  provided the extra has no earlier field of the type.
\<close>

theorem added_fields_are_found:
  assumes "list_all field_ok fs" "list_all (\<lambda>f. \<not> is_padding f) fs"
  defines "e \<equiv> save_fields fs"
  shows
    "((\<forall>k. tx_extra_frame_pix_pubkey k \<notin> set fs) \<longrightarrow>
       get_frame_pix_pubkey_from_tx_extra (add_frame_pix_pubkey_to_tx_extra e key) = Some key) \<and>
     ((\<forall>k. tx_extra_frame_pix_winner k \<notin> set fs) \<longrightarrow>
       get_frame_pix_winner_from_tx_extra (add_frame_pix_winner_to_tx_extra e key) = key) \<and>
     ((\<forall>a. tx_extra_frame_pix_contributor a \<notin> set fs) \<longrightarrow>
       get_frame_pix_contributor_from_tx_extra (add_frame_pix_contributor_to_tx_extra e addr) = Some addr) \<and>
     ((\<forall>k. tx_extra_tx_secret_key k \<notin> set fs) \<longrightarrow>
       get_tx_secret_key_from_tx_extra (add_tx_secret_key_to_tx_extra e key) = Some key) \<and>
     ((\<forall>u. tx_extra_key_image_unlock u \<notin> set fs) \<longrightarrow>
       (\<exists>e'. add_tx_key_image_unlock_to_tx_extra e u = Some e' \<and> get_tx_key_image_unlock_from_tx_extra e' = Some u)) \<and>
     ((\<forall>sc. tx_extra_state_change sc \<notin> set fs) \<and> (\<forall>d. tx_extra_deregister_old d \<notin> set fs) \<and>
       sc_state sc < (if hf_version < 12 then 1 else NS_COUNT) \<and> length (sc_votes sc) < 2 ^ 64 \<longrightarrow>
       (\<exists>e'. add_frame_pix_state_change_to_tx_extra e sc hf_version = Some e'
         \<and> get_frame_pix_state_change_from_tx_extra e' hf_version = Some sc))"
proof (intro conjI impI)
  note found = add_get_simple [OF assms(1,2)] and data = add_data_saves [OF assms(1)] and field = add_field_saves [OF assms(1)]
  show "get_frame_pix_pubkey_from_tx_extra (add_frame_pix_pubkey_to_tx_extra e key) = Some key"
    if "\<forall>k. tx_extra_frame_pix_pubkey k \<notin> set fs"
    using data [of "tx_extra_frame_pix_pubkey key" "0x74" "bytes_of_pod key"]
      found [of tx_extra_frame_pix_pubkey "\<lambda>f. case f of tx_extra_frame_pix_pubkey k \<Rightarrow> Some k | _ \<Rightarrow> None" key, OF that selectors(1)]
    by (simp add: get_frame_pix_pubkey_from_tx_extra_def add_frame_pix_pubkey_to_tx_extra_def e_def put_field_def)
  show "get_frame_pix_winner_from_tx_extra (add_frame_pix_winner_to_tx_extra e key) = key"
    if "\<forall>k. tx_extra_frame_pix_winner k \<notin> set fs"
    using data [of "tx_extra_frame_pix_winner key" "0x72" "bytes_of_pod key"]
      found [of tx_extra_frame_pix_winner "\<lambda>f. case f of tx_extra_frame_pix_winner k \<Rightarrow> Some k | _ \<Rightarrow> None" key, OF that selectors(2)]
    by (simp add: get_frame_pix_winner_from_tx_extra_def add_frame_pix_winner_to_tx_extra_def e_def put_field_def)
  show "get_frame_pix_contributor_from_tx_extra (add_frame_pix_contributor_to_tx_extra e addr) = Some addr"
    if "\<forall>a. tx_extra_frame_pix_contributor a \<notin> set fs"
    using data [of "tx_extra_frame_pix_contributor addr" "0x73" "put_address addr"]
      found [of tx_extra_frame_pix_contributor "\<lambda>f. case f of tx_extra_frame_pix_contributor a \<Rightarrow> Some a | _ \<Rightarrow> None" addr, OF that selectors(3)]
    by (simp add: get_frame_pix_contributor_from_tx_extra_def add_frame_pix_contributor_to_tx_extra_def e_def put_field_def)
  show "get_tx_secret_key_from_tx_extra (add_tx_secret_key_to_tx_extra e key) = Some key"
    if "\<forall>k. tx_extra_tx_secret_key k \<notin> set fs"
    using data [of "tx_extra_tx_secret_key key" "0x75" "bytes_of_pod key"]
      found [of tx_extra_tx_secret_key "\<lambda>f. case f of tx_extra_tx_secret_key k \<Rightarrow> Some k | _ \<Rightarrow> None" key, OF that selectors(4)]
    by (simp add: get_tx_secret_key_from_tx_extra_def add_tx_secret_key_to_tx_extra_def e_def put_field_def)
  show "\<exists>e'. add_tx_key_image_unlock_to_tx_extra e u = Some e' \<and> get_tx_key_image_unlock_from_tx_extra e' = Some u"
    if "\<forall>u. tx_extra_key_image_unlock u \<notin> set fs"
    using field [of "tx_extra_key_image_unlock u"]
      found [of tx_extra_key_image_unlock "\<lambda>f. case f of tx_extra_key_image_unlock u \<Rightarrow> Some u | _ \<Rightarrow> None" u, OF that selectors(5)]
    by (simp add: get_tx_key_image_unlock_from_tx_extra_def add_tx_key_image_unlock_to_tx_extra_def e_def)
  show "\<exists>e'. add_frame_pix_state_change_to_tx_extra e sc hf_version = Some e'
      \<and> get_frame_pix_state_change_from_tx_extra e' hf_version = Some sc"
    if "(\<forall>sc. tx_extra_state_change sc \<notin> set fs) \<and> (\<forall>d. tx_extra_deregister_old d \<notin> set fs) \<and>
      sc_state sc < (if hf_version < 12 then 1 else NS_COUNT) \<and> length (sc_votes sc) < 2 ^ 64"
    unfolding e_def using that by (intro state_change_found [OF assms(1,2)]) blast+
qed

theorem added_fields_are_found_witness:
  "get_frame_pix_pubkey_from_tx_extra (add_frame_pix_pubkey_to_tx_extra (save_fields [tx_extra_burn 5]) 77) = Some 77"
  using added_fields_are_found [of "[tx_extra_burn 5]" 77 null_address] by (simp del: save_fields.simps)

lemma parsed_nonce_shorter:
  "parse_fields bs = (r, fs, rest) \<Longrightarrow> tx_extra_nonce n \<in> set fs \<Longrightarrow> length n < length bs"
proof (induction bs arbitrary: r fs rest rule: parse_fields.induct)
  case (1 bs)
  obtain f bs' where p: "get_field bs = Some (f, bs')"
    using "1.prems" by (cases "get_field bs") (auto simp: parse_fields.simps [of bs])
  have first: "length n < length bs" if f: "f = tx_extra_nonce n"
  proof -
    obtain b bs1 where bs: "bs = b # bs1" "read_variant b bs1 = Some (tx_extra_nonce n, bs')"
      using p f by (cases bs) (auto simp: get_field_def serialize_uint_def serialize_uint_byte)
    have "b = 2" using read_variant_ok [OF bs(2)] by simp
    then have "get_nonce bs1 = Some (n, bs')" using bs(2) by (auto simp: read_variant_def elim!: as_field_ok)
    then show ?thesis by (auto simp: bs(1) get_nonce_def get_string_def serialize_blob_def bind_eq_Some_conv
      dest!: c_varint.get_consumes split: if_splits)
  qed
  show ?case
  proof (cases "bs' = []")
    case True
    then show ?thesis using "1.prems" p first by (auto simp: parse_fields.simps [of bs])
  next
    case False
    obtain fs' where "parse_fields bs' = (r, fs', rest)" "fs = f # fs'"
      using "1.prems"(1) p False by (auto simp: parse_fields.simps [of bs] split: prod.splits)
    then show ?thesis
      using "1.IH" [OF p refl False] first "1.prems"(2) get_field_ok(3) [OF p] by fastforce
  qed
qed

lemma read_varint_cont_consumes:
  assumes "serialize_varint (b # c # bs) = Some (v :: u64, rest)" "0x80 \<le> unat b"
  shows "length rest \<le> length bs"
proof -
  have run: "read_varint_loop 64 7 1 (0 OR push_bit 0 (ucast (b AND 0x7f))) (c # bs) = (n, v, rest)"
    if "read_varint (b # c # bs) = (n, v, rest)" for n
    using that assms(2) by (auto simp: read_varint_def byte_and_0x80 Let_def split: if_splits)
  obtain n where "read_varint (b # c # bs) = (n, v, rest)"
    using assms(1) by (auto simp: serialize_varint_def split: prod.splits if_splits)
  from run [OF this] show ?thesis
    by (auto simp: Let_def dest: read_varint_loop_consumes split: if_splits)
qed

text \<open>
  C37. A nonce of 128 to 255 bytes is accepted and stored, but is not found again: its length is written as a
  single byte and read as a variable-length integer.
\<close>

theorem long_nonce_is_lost:
  assumes "128 \<le> length n" "length n \<le> TX_EXTRA_NONCE_MAX_COUNT"
  shows "\<exists>e. add_extra_nonce_to_tx_extra [] n = Some e \<and> tx_extra_nonce n \<notin> set (snd (parse_tx_extra e))"
proof -
  define b :: byte where "b = of_nat (length n)"
  obtain c cs where n: "n = c # cs" using assms(1) by (cases n) auto
  let ?e = "2 # b # n"
  have b: "0x80 \<le> unat b" using assms by (simp add: b_def unat_of_nat take_bit_nat_eq_self)
  obtain r fs rest where p: "parse_fields ?e = (r, fs, rest)" by (cases "parse_fields ?e")
  have "tx_extra_nonce n \<notin> set fs"
  proof (cases "get_field ?e")
    case None
    then show ?thesis using p by (simp add: parse_fields.simps [of ?e])
  next
    case (Some q)
    obtain f bs' where q: "get_field ?e = Some (f, bs')" using Some by (cases q) simp
    then obtain x where x: "get_nonce (b # n) = Some (x, bs')" "f = tx_extra_nonce x"
      by (auto simp: get_field_def serialize_uint_byte read_variant_def elim!: as_field_ok)
    obtain v :: u64 and bs1 where v: "serialize_varint (b # c # cs) = Some (v, bs1)"
      "x = take (unat v) bs1" "bs' = drop (unat v) bs1"
      using x(1) by (auto simp: n get_nonce_def get_string_def serialize_blob_def bind_eq_Some_conv split: if_splits)
    have short: "length x < length n" "length bs' < length n"
      using read_varint_cont_consumes [OF v(1) b] v(2,3) by (auto simp: n)
    have later: "tx_extra_nonce n \<notin> set fs'" if "parse_fields bs' = (r, fs', rest)" for fs'
      using parsed_nonce_shorter [OF that, of n] short(2) by auto
    show ?thesis
      using p q x(2) short(1) later by (auto simp: parse_fields.simps [of ?e] split: if_splits prod.splits)
  qed
  then show ?thesis using assms(2) p by (auto simp: add_extra_nonce_to_tx_extra_def parse_tx_extra_def b_def)
qed

theorem long_nonce_is_lost_witness:
  "\<exists>e. add_extra_nonce_to_tx_extra [] (replicate 200 7) = Some e \<and> tx_extra_nonce (replicate 200 7) \<notin> set (snd (parse_tx_extra e))"
  using long_nonce_is_lost [of "replicate 200 7"] by simp

text \<open>
  C29. Removing the fields of a type from an extra field that can be parsed leaves the other fields, in
  their order, and an extra that cannot be parsed is left as it was.
\<close>

theorem remove_field_filters:
  "case parse_tx_extra e of (ok, fs) \<Rightarrow>
     case remove_field_from_tx_extra e tag of (r, e') \<Rightarrow>
       r = ok \<and> (if ok then parse_tx_extra e' = (True, filter (\<lambda>f. get_tag f \<noteq> tag) fs) else e' = e)"
proof -
  obtain ok fs where p: "parse_tx_extra e = (ok, fs)" by (cases "parse_tx_extra e")
  have x: "extra_ok fs" by (rule parse_tx_extra_ok [OF p])
  have "filter (\<lambda>f. get_tag f \<noteq> tag) fs = [] \<or> extra_ok (filter (\<lambda>f. get_tag f \<noteq> tag) fs)"
    using x by (cases fs rule: rev_cases) (auto simp: extra_ok_def list_all_iff butlast_append dest: in_set_butlastD)
  then have rt: "parse_tx_extra (save_fields (filter (\<lambda>f. get_tag f \<noteq> tag) fs)) = (True, filter (\<lambda>f. get_tag f \<noteq> tag) fs)"
    using parse_save_fields [of "filter (\<lambda>f. get_tag f \<noteq> tag) fs"] by (cases "filter (\<lambda>f. get_tag f \<noteq> tag) fs = []") (auto simp: parse_tx_extra_def)
  obtain r' fs' rest where q: "parse_fields e = (r', fs', rest)" by (cases "parse_fields e")
  show ?thesis
  proof (cases "e = []")
    case False
    then have "ok = r'" "fs = fs'" using p q by (simp_all add: parse_tx_extra_def)
    then show ?thesis using False p q rt by (simp add: remove_field_from_tx_extra_def)
  qed (use p in \<open>simp add: parse_tx_extra_def remove_field_from_tx_extra_def\<close>)
qed

end
