(* ===== verification/Cryptonote_Basic.thy ===== *)
theory Cryptonote_Basic
  imports Format_Utils
begin

text \<open>
  Transactions and blocks, \<^verbatim>\<open>src/src/cryptonote_basic/cryptonote_basic.h\<close>: the data, the versions and
  types a hard fork allows, the serializer of a transaction prefix, and the checks of
  \<^verbatim>\<open>cryptonote_format_utils.cpp\<close> on inputs, outputs and fees. The signatures of a ring transaction are
  kept as their type, their fee and an uninterpreted rest.
\<close>

section \<open>Data\<close>

datatype txout_target_v =
    txout_to_script "pod32 list" "byte list"
  | txout_to_scripthash pod32
  | txout_to_key pod32

datatype txin_v =
    txin_gen u64
  | txin_to_script pod32 u64 "byte list"
  | txin_to_scripthash pod32 u64 "pod32 list \<times> byte list" "byte list"
  | txin_to_key u64 "u64 list" pod32

record tx_out =
  out_amount :: u64
  out_target :: txout_target_v

abbreviation (input) TXVERSION_V1 :: u16 where "TXVERSION_V1 \<equiv> 1"
abbreviation (input) TXVERSION_V2_RINGCT :: u16 where "TXVERSION_V2_RINGCT \<equiv> 2"
abbreviation (input) TXVERSION_V3_PER_OUTPUT_UNLOCK_TIMES :: u16 where "TXVERSION_V3_PER_OUTPUT_UNLOCK_TIMES \<equiv> 3"
abbreviation (input) TXVERSION_V4_TX_TYPES :: u16 where "TXVERSION_V4_TX_TYPES \<equiv> 4"
abbreviation (input) TXVERSION_COUNT :: u16 where "TXVERSION_COUNT \<equiv> 5"

abbreviation (input) TXTYPE_STANDARD :: u16 where "TXTYPE_STANDARD \<equiv> 0"
abbreviation (input) TXTYPE_STATE_CHANGE :: u16 where "TXTYPE_STATE_CHANGE \<equiv> 1"
abbreviation (input) TXTYPE_KEY_IMAGE_UNLOCK :: u16 where "TXTYPE_KEY_IMAGE_UNLOCK \<equiv> 2"
abbreviation (input) TXTYPE_STAKE :: u16 where "TXTYPE_STAKE \<equiv> 3"
abbreviation (input) TXTYPE_GUUS_NAME_SYSTEM :: u16 where "TXTYPE_GUUS_NAME_SYSTEM \<equiv> 4"
abbreviation (input) TXTYPE_COUNT :: u16 where "TXTYPE_COUNT \<equiv> 5"

record transaction_prefix =
  tx_version :: u16
  tx_type :: u16
  unlock_time :: u64
  vin :: "txin_v list"
  vout :: "tx_out list"
  extra :: "byte list"
  output_unlock_times :: "u64 list"

record rct_sig =
  rct_type :: u8
  txnFee :: u64
  rct_rest :: "byte list"

record transaction = transaction_prefix +
  rct_signatures :: rct_sig

record block =
  major_version :: u8
  minor_version :: u8
  timestamp :: u64
  prev_id :: pod32
  nonce :: u32
  miner_tx :: transaction
  tx_hashes :: "pod32 list"

section \<open>Versions and types\<close>

definition get_min_version_for_hf :: "u8 \<Rightarrow> u16" where
  "get_min_version_for_hf hf_version =
     (if hf_version \<ge> 7 \<and> hf_version \<le> 10 then TXVERSION_V2_RINGCT else TXVERSION_V4_TX_TYPES)"

definition get_max_version_for_hf :: "u8 \<Rightarrow> u16" where
  "get_max_version_for_hf hf_version =
     (if hf_version \<ge> 7 \<and> hf_version \<le> 8 then TXVERSION_V2_RINGCT
      else if hf_version \<ge> 9 \<and> hf_version \<le> 10 then TXVERSION_V3_PER_OUTPUT_UNLOCK_TIMES
      else TXVERSION_V4_TX_TYPES)"

definition get_max_type_for_hf :: "u8 \<Rightarrow> u16" where
  "get_max_type_for_hf hf_version =
     (if hf_version \<ge> 15 then TXTYPE_GUUS_NAME_SYSTEM
      else if hf_version \<ge> 14 then TXTYPE_STAKE
      else if hf_version \<ge> 11 then TXTYPE_KEY_IMAGE_UNLOCK
      else if hf_version \<ge> 9 then TXTYPE_STATE_CHANGE
      else TXTYPE_STANDARD)"

definition is_transfer :: "'z transaction_prefix_scheme \<Rightarrow> bool" where
  "is_transfer tx = (tx_type tx = TXTYPE_STANDARD \<or> tx_type tx = TXTYPE_STAKE \<or> tx_type tx = TXTYPE_GUUS_NAME_SYSTEM)"

definition get_unlock_time :: "'z transaction_prefix_scheme \<Rightarrow> nat \<Rightarrow> u64" where
  "get_unlock_time tx out_index =
     (if tx_version tx \<ge> TXVERSION_V3_PER_OUTPUT_UNLOCK_TIMES
      then if out_index \<ge> length (output_unlock_times tx) then unlock_time tx else output_unlock_times tx ! out_index
      else unlock_time tx)"

fun get_signature_size :: "txin_v \<Rightarrow> nat" where
  "get_signature_size (txin_to_key amount key_offsets k_image) = length key_offsets"
| "get_signature_size _ = 0"

definition get_block_height :: "block \<Rightarrow> u64" where
  "get_block_height b =
     (if length (vin (miner_tx b)) \<noteq> 1 then 0
      else case vin (miner_tx b) ! 0 of txin_gen height \<Rightarrow> height | _ \<Rightarrow> 0)"

section \<open>Checks on inputs, outputs and fees\<close>

fun get_inputs_loop :: "txin_v list \<Rightarrow> u64 \<Rightarrow> u64 option" where
  "get_inputs_loop [] money = Some money"
| "get_inputs_loop (txin_to_key amount key_offsets k_image # ins) money = get_inputs_loop ins (money + amount)"
| "get_inputs_loop (_ # ins) money = None"

definition get_inputs_money_amount :: "'z transaction_prefix_scheme \<Rightarrow> u64 option" where
  "get_inputs_money_amount tx = get_inputs_loop (vin tx) 0"

definition get_outs_money_amount :: "'z transaction_prefix_scheme \<Rightarrow> u64" where
  "get_outs_money_amount tx = fold (\<lambda>o' outputs_amount. outputs_amount + out_amount o') (vout tx) 0"

definition check_inputs_types_supported :: "'z transaction_prefix_scheme \<Rightarrow> bool" where
  "check_inputs_types_supported tx = list_all (\<lambda>i. case i of txin_to_key _ _ _ \<Rightarrow> True | _ \<Rightarrow> False) (vin tx)"

text \<open>Whether a public key is a point of the curve is an argument.\<close>

definition check_outs_valid :: "(pod32 \<Rightarrow> bool) \<Rightarrow> 'z transaction_prefix_scheme \<Rightarrow> bool" where
  "check_outs_valid check_key tx =
     (if \<not> is_transfer tx \<and> vout tx \<noteq> [] then False
      else if tx_version tx \<ge> TXVERSION_V3_PER_OUTPUT_UNLOCK_TIMES \<and> length (vout tx) \<noteq> length (output_unlock_times tx) then False
      else list_all (\<lambda>out. case out_target out of
          txout_to_key key \<Rightarrow> (tx_version tx = TXVERSION_V1 \<longrightarrow> 0 < out_amount out) \<and> check_key key
        | _ \<Rightarrow> False) (vout tx))"

fun inputs_overflow_loop :: "txin_v list \<Rightarrow> u64 \<Rightarrow> bool" where
  "inputs_overflow_loop [] money = True"
| "inputs_overflow_loop (txin_to_key amount key_offsets k_image # ins) money =
     (if money > amount + money then False else inputs_overflow_loop ins (money + amount))"
| "inputs_overflow_loop (_ # ins) money = False"

definition check_inputs_overflow :: "'z transaction_prefix_scheme \<Rightarrow> bool" where
  "check_inputs_overflow tx = inputs_overflow_loop (vin tx) 0"

fun outs_overflow_loop :: "tx_out list \<Rightarrow> u64 \<Rightarrow> bool" where
  "outs_overflow_loop [] money = True"
| "outs_overflow_loop (o' # outs) money =
     (if money > out_amount o' + money then False else outs_overflow_loop outs (money + out_amount o'))"

definition check_outs_overflow :: "'z transaction_prefix_scheme \<Rightarrow> bool" where
  "check_outs_overflow tx = outs_overflow_loop (vout tx) 0"

definition check_money_overflow :: "'z transaction_prefix_scheme \<Rightarrow> bool" where
  "check_money_overflow tx = (check_inputs_overflow tx \<and> check_outs_overflow tx)"

text \<open>The result is the fee and what is written to \<^verbatim>\<open>burned\<close>.\<close>

definition get_tx_miner_fee :: "transaction \<Rightarrow> bool \<Rightarrow> (u64 \<times> u64) option" where
  "get_tx_miner_fee tx burning_enabled =
     (if tx_version tx \<ge> TXVERSION_V2_RINGCT then
        let fee = txnFee (rct_signatures tx)
        in if burning_enabled then
             let fee_burned = get_burned_amount_from_tx_extra (extra tx)
             in Some (fee - min fee fee_burned, fee_burned)
           else Some (fee, 0)
      else case get_inputs_money_amount tx of
             None \<Rightarrow> None
           | Some amount_in \<Rightarrow>
               let amount_out = get_outs_money_amount tx
               in if amount_in \<ge> amount_out then Some (amount_in - amount_out, 0) else None)"

section \<open>Serializers\<close>

definition get_bytes :: "byte list reader" where
  "get_bytes = get_container (serialize_uint 1)"

definition put_bytes :: "byte list \<Rightarrow> byte list" where
  "put_bytes = put_container (le_bytes 1)"

definition get_script :: "(pod32 list \<times> byte list) reader" where
  "get_script bs = do {
     (keys, bs) \<leftarrow> get_container get_pod bs;
     (script, bs) \<leftarrow> get_bytes bs;
     Some ((keys, script), bs) }"

definition put_script :: "pod32 list \<times> byte list \<Rightarrow> byte list" where
  "put_script s = put_container bytes_of_pod (fst s) @ put_bytes (snd s)"

definition get_target :: "txout_target_v reader" where
  "get_target bs = do {
     (t, bs) \<leftarrow> serialize_uint 1 bs;
     if t = (0x0 :: byte) then do { ((keys, script), bs) \<leftarrow> get_script bs; Some (txout_to_script keys script, bs) }
     else if t = 0x1 then do { (hash, bs) \<leftarrow> get_pod bs; Some (txout_to_scripthash hash, bs) }
     else if t = 0x2 then do { (key, bs) \<leftarrow> get_pod bs; Some (txout_to_key key, bs) }
     else None }"

fun put_target :: "txout_target_v \<Rightarrow> byte list" where
  "put_target (txout_to_script keys script) = 0x0 # put_script (keys, script)"
| "put_target (txout_to_scripthash hash) = 0x1 # bytes_of_pod hash"
| "put_target (txout_to_key key) = 0x2 # bytes_of_pod key"

definition get_out :: "tx_out reader" where
  "get_out bs = do {
     (amount, bs) \<leftarrow> serialize_varint bs;
     (target, bs) \<leftarrow> get_target bs;
     Some (\<lparr>out_amount = amount, out_target = target\<rparr>, bs) }"

definition put_out :: "tx_out \<Rightarrow> byte list" where
  "put_out out = write_varint (out_amount out) @ put_target (out_target out)"

definition get_txin :: "txin_v reader" where
  "get_txin bs = do {
     (t, bs) \<leftarrow> serialize_uint 1 bs;
     if t = (0xff :: byte) then do { (height, bs) \<leftarrow> serialize_varint bs; Some (txin_gen height, bs) }
     else if t = 0x0 then do {
       (prev, bs) \<leftarrow> get_pod bs;
       (prevout, bs) \<leftarrow> serialize_varint bs;
       (sigset, bs) \<leftarrow> get_bytes bs;
       Some (txin_to_script prev prevout sigset, bs) }
     else if t = 0x1 then do {
       (prev, bs) \<leftarrow> get_pod bs;
       (prevout, bs) \<leftarrow> serialize_varint bs;
       (script, bs) \<leftarrow> get_script bs;
       (sigset, bs) \<leftarrow> get_bytes bs;
       Some (txin_to_scripthash prev prevout script sigset, bs) }
     else if t = 0x2 then do {
       (amount, bs) \<leftarrow> serialize_varint bs;
       (key_offsets, bs) \<leftarrow> get_container serialize_varint bs;
       (k_image, bs) \<leftarrow> get_pod bs;
       Some (txin_to_key amount key_offsets k_image, bs) }
     else None }"

fun put_txin :: "txin_v \<Rightarrow> byte list" where
  "put_txin (txin_gen height) = 0xff # write_varint height"
| "put_txin (txin_to_script prev prevout sigset) = 0x0 # bytes_of_pod prev @ write_varint prevout @ put_bytes sigset"
| "put_txin (txin_to_scripthash prev prevout script sigset) =
     0x1 # bytes_of_pod prev @ write_varint prevout @ put_script script @ put_bytes sigset"
| "put_txin (txin_to_key amount key_offsets k_image) =
     0x2 # write_varint amount @ put_container write_varint key_offsets @ bytes_of_pod k_image"

text \<open>
  The prefix is loaded into a fresh object, whose type is standard. A version 3 prefix has a flag in
  place of the type; the byte of the flag is true when it is not zero.
\<close>

definition get_prefix :: "transaction_prefix reader" where
  "get_prefix bs = do {
     (ver, bs) \<leftarrow> enum_field (\<lambda>ver. ver \<ge> TXVERSION_V1 \<and> ver < TXVERSION_COUNT) bs;
     (times, bs) \<leftarrow> get_optional (ver \<ge> TXVERSION_V3_PER_OUTPUT_UNLOCK_TIMES) [] (get_container serialize_varint) bs;
     (is_state_change, bs) \<leftarrow> get_optional (ver = TXVERSION_V3_PER_OUTPUT_UNLOCK_TIMES) (0 :: byte) (serialize_uint 1) bs;
     (unlock, bs) \<leftarrow> serialize_varint bs;
     (ins, bs) \<leftarrow> get_container get_txin bs;
     (outs, bs) \<leftarrow> get_container get_out bs;
     if ver \<ge> TXVERSION_V3_PER_OUTPUT_UNLOCK_TIMES \<and> length outs \<noteq> length times then None
     else do {
       (ext, bs) \<leftarrow> get_bytes bs;
       (type, bs) \<leftarrow> get_optional (ver \<ge> TXVERSION_V4_TX_TYPES)
         (if is_state_change \<noteq> 0 then TXTYPE_STATE_CHANGE else TXTYPE_STANDARD) (enum_field (\<lambda>type. type < TXTYPE_COUNT)) bs;
       Some (\<lparr>tx_version = ver, tx_type = type, unlock_time = unlock, vin = ins, vout = outs, extra = ext,
         output_unlock_times = times\<rparr>, bs) } }"

definition put_prefix :: "transaction_prefix \<Rightarrow> byte list option" where
  "put_prefix tx =
     (if tx_version tx \<ge> TXVERSION_V3_PER_OUTPUT_UNLOCK_TIMES \<and> length (vout tx) \<noteq> length (output_unlock_times tx) then None
      else Some (write_varint (tx_version tx)
        @ (if tx_version tx \<ge> TXVERSION_V3_PER_OUTPUT_UNLOCK_TIMES then put_container write_varint (output_unlock_times tx) else [])
        @ (if tx_version tx = TXVERSION_V3_PER_OUTPUT_UNLOCK_TIMES
           then le_bytes 1 (if tx_type tx = TXTYPE_STATE_CHANGE then 1 else 0 :: byte) else [])
        @ write_varint (unlock_time tx) @ put_container put_txin (vin tx) @ put_container put_out (vout tx)
        @ put_bytes (extra tx)
        @ (if tx_version tx \<ge> TXVERSION_V4_TX_TYPES then write_varint (tx_type tx) else [])))"

section \<open>The prefix round trips\<close>

lemma codec_bytes: "codec_pos put_bytes get_bytes (\<lambda>v. length v < 2 ^ 64 \<and> list_all (\<lambda>_. True) v)"
  unfolding put_bytes_def get_bytes_def by (rule c_u8.codec_container)

interpretation c_bytes: codec_pos put_bytes get_bytes "\<lambda>v. length v < 2 ^ 64 \<and> list_all (\<lambda>_. True) v"
  by (rule codec_bytes)

interpretation c_script: codec_pos put_script get_script "\<lambda>s. length (fst s) < 2 ^ 64 \<and> length (snd s) < 2 ^ 64"
  by unfold_locales
    (auto simp: get_script_def put_script_def c_pods.get_put c_bytes.get_put c_pods.put_pos list_all_iff bind_eq_Some_conv
      dest!: c_pods.get_ok c_bytes.get_ok)

fun target_ok :: "txout_target_v \<Rightarrow> bool" where
  "target_ok (txout_to_script keys script) \<longleftrightarrow> length keys < 2 ^ 64 \<and> length script < 2 ^ 64"
| "target_ok _ \<longleftrightarrow> True"

interpretation c_target: codec_pos put_target get_target target_ok
proof unfold_locales
  show "get_target (put_target x @ rest) = Some (x, rest)" if "target_ok x" for x rest
    using that by (cases x) (simp_all add: get_target_def serialize_uint_byte c_script.get_put c_pod.get_put)
  show "put_target x \<noteq> []" for x by (cases x) simp_all
qed (auto simp: get_target_def bind_eq_Some_conv dest!: get_oks c_script.get_ok split: if_splits)

interpretation c_out: codec_pos put_out get_out "\<lambda>out. target_ok (out_target out)"
  by unfold_locales
    (auto simp: get_out_def put_out_def c_varint.get_put c_target.get_put bind_eq_Some_conv dest!: c_varint.get_ok c_target.get_ok)

fun txin_ok :: "txin_v \<Rightarrow> bool" where
  "txin_ok (txin_to_script prev prevout sigset) \<longleftrightarrow> length sigset < 2 ^ 64"
| "txin_ok (txin_to_scripthash prev prevout script sigset) \<longleftrightarrow>
     length (fst script) < 2 ^ 64 \<and> length (snd script) < 2 ^ 64 \<and> length sigset < 2 ^ 64"
| "txin_ok (txin_to_key amount key_offsets k_image) \<longleftrightarrow> length key_offsets < 2 ^ 64"
| "txin_ok (txin_gen height) \<longleftrightarrow> True"

interpretation c_txin: codec_pos put_txin get_txin txin_ok
proof unfold_locales
  show "get_txin (put_txin x @ rest) = Some (x, rest)" if "txin_ok x" for x rest
    using that
    by (cases x) (simp_all add: get_txin_def serialize_uint_byte c_script.get_put c_pod.get_put c_varint.get_put c_bytes.get_put
      c_varints.get_put list_all_iff)
  show "put_txin x \<noteq> []" for x by (cases x) simp_all
qed (auto simp: get_txin_def bind_eq_Some_conv dest!: get_oks c_script.get_ok c_bytes.get_ok split: if_splits)

interpretation c_outs: codec_pos "put_container put_out" "get_container get_out"
    "\<lambda>v. length v < 2 ^ 64 \<and> list_all (\<lambda>out. target_ok (out_target out)) v"
  by (rule c_out.codec_container)

interpretation c_txins: codec_pos "put_container put_txin" "get_container get_txin" "\<lambda>v. length v < 2 ^ 64 \<and> list_all txin_ok v"
  by (rule c_txin.codec_container)

text \<open>The prefixes that can be saved and loaded without loss.\<close>

definition prefix_ok :: "transaction_prefix \<Rightarrow> bool" where
  "prefix_ok tx \<longleftrightarrow>
     TXVERSION_V1 \<le> tx_version tx \<and> tx_version tx < TXVERSION_COUNT
     \<and> length (vin tx) < 2 ^ 64 \<and> list_all txin_ok (vin tx)
     \<and> length (vout tx) < 2 ^ 64 \<and> list_all (\<lambda>out. target_ok (out_target out)) (vout tx) \<and> length (extra tx) < 2 ^ 64
     \<and> (if tx_version tx \<ge> TXVERSION_V3_PER_OUTPUT_UNLOCK_TIMES then length (output_unlock_times tx) = length (vout tx)
        else output_unlock_times tx = [])
     \<and> (if tx_version tx \<ge> TXVERSION_V4_TX_TYPES then tx_type tx < TXTYPE_COUNT
        else if tx_version tx = TXVERSION_V3_PER_OUTPUT_UNLOCK_TIMES then tx_type tx = TXTYPE_STATE_CHANGE \<or> tx_type tx = TXTYPE_STANDARD
        else tx_type tx = TXTYPE_STANDARD)"

lemma optional_prefix_parts:
  "(present \<longrightarrow> length v < 2 ^ 64) \<Longrightarrow> (present \<or> v = d) \<Longrightarrow>
     get_optional present d (get_container serialize_varint) ((if present then put_container write_varint v else []) @ rest) = Some (v, rest)"
  "(present \<or> b = d') \<Longrightarrow> get_optional present d' (serialize_uint 1) ((if present then le_bytes 1 b else []) @ rest) = Some (b :: byte, rest)"
  "(present \<longrightarrow> test t) \<Longrightarrow> (present \<or> t = e) \<Longrightarrow>
     get_optional present e (enum_field test) ((if present then write_varint t else []) @ rest) = Some (t :: u16, rest)"
  by (auto simp: get_optional_def c_varints.get_put c_u8.get_put c_enum.get_put list_all_iff serialize_uint_byte)

lemma get_optional_simps: "get_optional True d g bs = g bs" "get_optional False d g bs = Some (d, bs)"
  by (simp_all add: get_optional_def)

lemma get_put_prefix:
  assumes "prefix_ok tx" "put_prefix tx = Some b"
  shows "get_prefix (b @ rest) = Some (tx, rest)"
proof -
  define flag :: byte where "flag = (if tx_version tx = 3 \<and> tx_type tx = 1 then 1 else 0)"
  have flag: "(if tx_version tx = 3 then le_bytes 1 (if tx_type tx = 1 then 1 else 0 :: byte) else []) = (if tx_version tx = 3 then le_bytes 1 flag else [])"
    by (simp add: flag_def)
  have type: "4 \<le> tx_version tx \<or> tx_type tx = (if flag \<noteq> 0 then 1 else 0)" "4 \<le> tx_version tx \<longrightarrow> tx_type tx < 5"
    using assms(1) by (auto simp: prefix_ok_def flag_def split: if_splits)
  have ver: "1 \<le> tx_version tx \<and> tx_version tx < 5" and times: "3 \<le> tx_version tx \<longrightarrow> length (output_unlock_times tx) < 2 ^ 64"
      "3 \<le> tx_version tx \<or> output_unlock_times tx = []" "\<not> (3 \<le> tx_version tx \<and> length (vout tx) \<noteq> length (output_unlock_times tx))"
    and f: "tx_version tx = 3 \<or> flag = 0"
    using assms(1) by (auto simp: prefix_ok_def flag_def split: if_splits)
  have b: "b = write_varint (tx_version tx)
        @ (if 3 \<le> tx_version tx then put_container write_varint (output_unlock_times tx) else [])
        @ (if tx_version tx = 3 then le_bytes 1 flag else [])
        @ write_varint (unlock_time tx) @ put_container put_txin (vin tx) @ put_container put_out (vout tx)
        @ put_bytes (extra tx)
        @ (if 4 \<le> tx_version tx then write_varint (tx_type tx) else [])"
    using assms(2) times(3) unfolding put_prefix_def flag by (simp split del: if_split del: le_bytes.simps)
  show ?thesis
    using assms(1) ver times type f unfolding b get_prefix_def append_assoc
    by (cases "3 \<le> tx_version tx") (simp_all add: prefix_ok_def get_optional_simps c_varints.get_put c_enum.get_put optional_prefix_parts c_varint.get_put c_txins.get_put c_outs.get_put c_bytes.get_put list_all_iff
      split del: if_split del: One_nat_def le_bytes.simps)
qed

lemma get_prefix_ok:
  assumes "get_prefix bs = Some (tx, rest)"
  shows "prefix_ok tx \<and> length rest \<le> length bs"
proof -
  obtain b1 b2 b3 b4 b5 b6 b7 flag where
    r: "enum_field (\<lambda>ver. ver \<ge> TXVERSION_V1 \<and> ver < TXVERSION_COUNT) bs = Some (tx_version tx, b1)"
    and t: "get_optional (tx_version tx \<ge> 3) [] (get_container serialize_varint) b1 = Some (output_unlock_times tx, b2)"
    and f: "get_optional (tx_version tx = 3) (0 :: byte) (serialize_uint 1) b2 = Some (flag, b3)"
    and u: "serialize_varint b3 = Some (unlock_time tx, b4)" and i: "get_container get_txin b4 = Some (vin tx, b5)"
    and o: "get_container get_out b5 = Some (vout tx, b6)" and g: "\<not> (tx_version tx \<ge> 3 \<and> length (vout tx) \<noteq> length (output_unlock_times tx))"
    and e: "get_bytes b6 = Some (extra tx, b7)"
    and ty: "get_optional (tx_version tx \<ge> 4) (if flag \<noteq> 0 then 1 else 0) (enum_field (\<lambda>type. type < TXTYPE_COUNT)) b7 = Some (tx_type tx, rest)"
    using assms by (auto simp: get_prefix_def bind_eq_Some_conv simp del: One_nat_def split: if_splits)
  note ok = c_enum.get_ok [OF r] c_varint.get_ok [OF u] c_txins.get_ok [OF i] c_outs.get_ok [OF o] c_bytes.get_ok [OF e]
  have "length b2 \<le> length b1" "tx_version tx \<ge> 3 \<or> output_unlock_times tx = []"
    using t by (auto simp: get_optional_def dest: c_varints.get_consumes split: if_splits)
  moreover have "length b3 \<le> length b2" "tx_version tx = 3 \<or> flag = 0"
    using f by (auto simp: get_optional_def dest: c_u8.get_consumes [unfolded One_nat_def] split: if_splits)
  moreover have "length rest \<le> length b7" "if tx_version tx \<ge> 4 then tx_type tx < TXTYPE_COUNT else tx_type tx = (if flag \<noteq> 0 then 1 else 0)"
    using ty by (auto simp: get_optional_def dest!: c_enum.get_ok split: if_splits)
  ultimately show ?thesis using ok g by (auto simp: prefix_ok_def split: if_splits)
qed

text \<open>
  C30. A transaction prefix that is well formed for its version is saved, and loading the bytes gives it
  back and leaves the rest of the input; and every prefix that can be loaded is well formed.
\<close>

theorem transaction_prefix_roundtrip:
  "(prefix_ok tx \<longrightarrow> (\<exists>b. put_prefix tx = Some b \<and> get_prefix (b @ rest) = Some (tx, rest)))
   \<and> (get_prefix bs = Some (tx, rest) \<longrightarrow> prefix_ok tx)"
proof (intro conjI impI)
  assume ok: "prefix_ok tx"
  then obtain b where "put_prefix tx = Some b" by (auto simp: put_prefix_def prefix_ok_def split: if_splits)
  then show "\<exists>b. put_prefix tx = Some b \<and> get_prefix (b @ rest) = Some (tx, rest)" using get_put_prefix [OF ok] by blast
qed (use get_prefix_ok in blast)

definition sample_prefix :: transaction_prefix where
  "sample_prefix = \<lparr>tx_version = 4, tx_type = TXTYPE_STAKE, unlock_time = 0, vin = [txin_to_key 7 [1, 300] 5],
     vout = [\<lparr>out_amount = 9, out_target = txout_to_key 3\<rparr>], extra = [1, 2], output_unlock_times = [1000]\<rparr>"

theorem transaction_prefix_roundtrip_witness:
  "\<exists>b. put_prefix sample_prefix = Some b \<and> get_prefix (b @ [42]) = Some (sample_prefix, [42])"
proof -
  have "prefix_ok sample_prefix" by (simp add: prefix_ok_def sample_prefix_def)
  then show ?thesis using transaction_prefix_roundtrip [of sample_prefix "[42]"] by blast
qed

section \<open>Sums that do not wrap\<close>

lemma no_wrap_iff: "\<not> a + b < (b :: u64) \<longleftrightarrow> unat a + unat b < 18446744073709551616"
proof -
  have "a + b < b \<longleftrightarrow> (unat a + unat b) mod 18446744073709551616 < unat b"
    by (simp add: word_less_nat_alt unat_add_u64)
  moreover have "unat a < 18446744073709551616" "unat b < 18446744073709551616" by (rule unat_lt_u64)+
  ultimately show ?thesis by (auto simp: not_less mod_if)
qed

lemma outs_overflow_loop_iff:
  "outs_overflow_loop outs money \<longleftrightarrow> unat money + (\<Sum>out\<leftarrow>outs. unat (out_amount out)) < 18446744073709551616"
proof (induction outs arbitrary: money)
  case Nil
  then show ?case by (simp add: unat_lt_u64)
next
  case (Cons out outs)
  show ?case
  proof (cases "unat (out_amount out) + unat money < 18446744073709551616")
    case True
    then have "unat (money + out_amount out) = unat money + unat (out_amount out)"
      by (intro unat_add_u64_no_wrap) simp
    then show ?thesis using True Cons.IH [of "money + out_amount out"] no_wrap_iff [of "out_amount out" money] by (simp add: add.assoc)
  next
    case False
    then show ?thesis using no_wrap_iff [of "out_amount out" money] by simp
  qed
qed

fun txin_amount :: "txin_v \<Rightarrow> nat" where
  "txin_amount (txin_to_key amount key_offsets k_image) = unat amount"
| "txin_amount _ = 0"

fun is_txin_to_key :: "txin_v \<Rightarrow> bool" where
  "is_txin_to_key (txin_to_key amount key_offsets k_image) = True"
| "is_txin_to_key _ = False"

lemma inputs_overflow_loop_iff:
  "inputs_overflow_loop ins money \<longleftrightarrow>
     list_all is_txin_to_key ins \<and> unat money + (\<Sum>i\<leftarrow>ins. txin_amount i) < 18446744073709551616"
proof (induction ins money rule: inputs_overflow_loop.induct)
  case (2 amount key_offsets k_image ins money)
  show ?case
  proof (cases "unat amount + unat money < 18446744073709551616")
    case True
    then have "unat (money + amount) = unat money + unat amount" by (intro unat_add_u64_no_wrap) simp
    then show ?thesis using True "2.IH" no_wrap_iff [of amount money] by (simp add: add.assoc)
  next
    case False
    then show ?thesis using no_wrap_iff [of amount money] by simp
  qed
qed (simp_all add: unat_lt_u64)

lemma get_inputs_loop_sum:
  "list_all is_txin_to_key ins \<Longrightarrow> unat money + (\<Sum>i\<leftarrow>ins. txin_amount i) < 18446744073709551616 \<Longrightarrow>
     \<exists>m. get_inputs_loop ins money = Some m \<and> unat m = unat money + (\<Sum>i\<leftarrow>ins. txin_amount i)"
proof (induction ins money rule: get_inputs_loop.induct)
  case (2 amount key_offsets k_image ins money)
  have "unat (money + amount) = unat money + unat amount" using "2.prems" by (intro unat_add_u64_no_wrap) simp
  then show ?case using 2 by (simp add: add.assoc)
qed simp_all

lemma outs_sum_fold:
  "unat m + (\<Sum>out\<leftarrow>outs. unat (out_amount out)) < 18446744073709551616 \<Longrightarrow>
   unat (fold (\<lambda>o' outputs_amount. outputs_amount + out_amount o') outs m) = unat m + (\<Sum>out\<leftarrow>outs. unat (out_amount out))"
proof (induction outs arbitrary: m)
  case (Cons out outs)
  have "unat (m + out_amount out) = unat m + unat (out_amount out)" using Cons.prems by (intro unat_add_u64_no_wrap) simp
  then show ?case using Cons.IH [of "m + out_amount out"] Cons.prems by simp
qed simp

text \<open>
  C31. The overflow check of a transaction is exact: it accepts exactly when every input spends a key and
  neither the inputs nor the outputs sum to more than 64 bits. The sums the code computes are
  then the true ones, so a fee is the difference of what goes in and what comes out.
\<close>

theorem check_money_overflow_iff:
  "(check_money_overflow tx \<longleftrightarrow>
      list_all is_txin_to_key (vin tx) \<and> (\<Sum>i\<leftarrow>vin tx. txin_amount i) < 2 ^ 64 \<and> (\<Sum>out\<leftarrow>vout tx. unat (out_amount out)) < 2 ^ 64)
   \<and> (check_money_overflow tx \<and> tx_version tx = TXVERSION_V1 \<longrightarrow>
       (if (\<Sum>out\<leftarrow>vout tx. unat (out_amount out)) \<le> (\<Sum>i\<leftarrow>vin tx. txin_amount i)
        then \<exists>fee. get_tx_miner_fee tx burning = Some (fee, 0)
          \<and> unat fee + (\<Sum>out\<leftarrow>vout tx. unat (out_amount out)) = (\<Sum>i\<leftarrow>vin tx. txin_amount i)
        else get_tx_miner_fee tx burning = None))"
proof (intro conjI impI)
  show iff: "check_money_overflow tx \<longleftrightarrow>
      list_all is_txin_to_key (vin tx) \<and> (\<Sum>i\<leftarrow>vin tx. txin_amount i) < 2 ^ 64 \<and> (\<Sum>out\<leftarrow>vout tx. unat (out_amount out)) < 2 ^ 64"
    by (simp add: check_money_overflow_def check_inputs_overflow_def check_outs_overflow_def inputs_overflow_loop_iff outs_overflow_loop_iff)
  assume a: "check_money_overflow tx \<and> tx_version tx = TXVERSION_V1"
  obtain m where m: "get_inputs_money_amount tx = Some m" "unat m = (\<Sum>i\<leftarrow>vin tx. txin_amount i)"
    using a iff get_inputs_loop_sum [of "vin tx" 0] by (auto simp: get_inputs_money_amount_def)
  have o: "unat (get_outs_money_amount tx) = (\<Sum>out\<leftarrow>vout tx. unat (out_amount out))"
    using a iff outs_sum_fold [of 0 "vout tx"] by (simp add: get_outs_money_amount_def)
  show "if (\<Sum>out\<leftarrow>vout tx. unat (out_amount out)) \<le> (\<Sum>i\<leftarrow>vin tx. txin_amount i)
        then \<exists>fee. get_tx_miner_fee tx burning = Some (fee, 0)
          \<and> unat fee + (\<Sum>out\<leftarrow>vout tx. unat (out_amount out)) = (\<Sum>i\<leftarrow>vin tx. txin_amount i)
        else get_tx_miner_fee tx burning = None"
    using a m o by (auto simp: get_tx_miner_fee_def Let_def word_le_nat_alt unat_sub_u64_no_wrap)
qed

definition sample_v1_tx :: transaction where
  "sample_v1_tx = \<lparr>tx_version = 1, tx_type = TXTYPE_STANDARD, unlock_time = 0, vin = [txin_to_key 7 [] 5, txin_to_key 3 [] 6],
     vout = [\<lparr>out_amount = 9, out_target = txout_to_key 3\<rparr>], extra = [], output_unlock_times = [],
     rct_signatures = \<lparr>rct_type = 0, txnFee = 0, rct_rest = []\<rparr>\<rparr>"

theorem check_money_overflow_iff_witness:
  "check_money_overflow sample_v1_tx \<and> get_tx_miner_fee sample_v1_tx True = Some (1, 0)"
proof -
  have c: "check_money_overflow sample_v1_tx"
    by (simp add: check_money_overflow_def check_inputs_overflow_def check_outs_overflow_def sample_v1_tx_def)
  then obtain fee where "get_tx_miner_fee sample_v1_tx True = Some (fee, 0)" "unat fee + 9 = 10"
    using check_money_overflow_iff [of sample_v1_tx True] by (simp add: sample_v1_tx_def) blast
  moreover from this have "fee = 1" by (simp add: word_unat_eq_iff)
  ultimately show ?thesis using c by simp
qed

end
