(* ===== verification/Vote_Pool.thy ===== *)
theory Vote_Pool
  imports Framepix_Voting Cryptonote_Basic
begin

text \<open>
  The pool of votes that wait for a quorum, \<^verbatim>\<open>voting_pool\<close> of
  \<^verbatim>\<open>src/src/cryptonote_core/frame_pix_voting.cpp\<close>. The code keeps one vector of entries per kind
  of vote and writes its routines as templates over the entry type; an entry here is a key (what
  the votes are about) and the votes for it, and the templates are functions of the key. The
  contract of the templates is a locale, interpreted for the two kinds of entries. The lemmas
  show that the pool never holds two votes of a validator on the same matter, keeps the votes in the
  order of the validators, and files every vote under its own key.
\<close>

section \<open>Entries\<close>

record pool_vote_entry =
  vote :: quorum_vote_t
  time_last_sent_p2p :: u64

type_synonym 'k pool = "('k \<times> pool_vote_entry list) list"

type_synonym obligations_key = "u64 \<times> u32 \<times> u16"
type_synonym checkpoint_key = "u64 \<times> pod32"

definition obligations_pool_entry :: "quorum_vote_t \<Rightarrow> obligations_key" where
  "obligations_pool_entry v = (block_height v, ucast (worker_index v), state_of_vote v)"

definition state_change_pool_entry :: "tx_extra_frame_pix_state_change \<Rightarrow> obligations_key" where
  "state_change_pool_entry sc = (sc_block_height sc, frame_pix_index sc, sc_state sc)"

definition checkpoint_pool_entry :: "quorum_vote_t \<Rightarrow> checkpoint_key" where
  "checkpoint_pool_entry v = (block_height v, block_hash v)"

record voting_pool =
  m_obligations_pool :: "obligations_key pool"
  m_checkpoint_pool :: "checkpoint_key pool"

section \<open>The template routines\<close>

text \<open>
  \<^verbatim>\<open>find_vote_in_pool\<close> returns a pointer to the votes of an entry: here the index of the entry, with
  the pool that may have grown by an empty entry.
\<close>

fun find_entry :: "'k \<Rightarrow> 'k pool \<Rightarrow> nat option" where
  "find_entry k [] = None"
| "find_entry k (e # es) = (if fst e = k then Some 0 else map_option Suc (find_entry k es))"

definition find_vote_in_pool :: "(quorum_vote_t \<Rightarrow> 'k) \<Rightarrow> 'k pool \<Rightarrow> quorum_vote_t \<Rightarrow> bool \<Rightarrow> nat option \<times> 'k pool" where
  "find_vote_in_pool typed pool v create =
     (case find_entry (typed v) pool of
        Some i \<Rightarrow> (Some i, pool)
      | None \<Rightarrow> if \<not> create then (None, pool) else (Some (length pool), pool @ [(typed v, [])]))"

text \<open>
  The position \<^verbatim>\<open>std::lower_bound\<close> finds splits the votes into the smaller indices and the rest. The code
  asserts on the way that the groups of the votes agree, which a vote that passed
  \<^const>\<open>verify_vote_signature\<close> satisfies: its group is that of the validators.
\<close>

definition add_vote_to_pool_if_unique :: "pool_vote_entry list \<Rightarrow> quorum_vote_t \<Rightarrow> bool \<times> pool_vote_entry list" where
  "add_vote_to_pool_if_unique votes v =
     (let before = takeWhile (\<lambda>e. index_in_group (vote e) < index_in_group v) votes;
          after = dropWhile (\<lambda>e. index_in_group (vote e) < index_in_group v) votes
      in if after = [] \<or> index_in_group (vote (hd after)) \<noteq> index_in_group v
         then (True, before @ \<lparr>vote = v, time_last_sent_p2p = 0\<rparr> # after)
         else (False, votes))"

definition append_relayable_votes :: "'k pool \<Rightarrow> u64 \<Rightarrow> u64 \<Rightarrow> quorum_vote_t list" where
  "append_relayable_votes pool max_last_sent min_height =
     concat (map (\<lambda>e. map vote (filter (\<lambda>ve. block_height (vote ve) \<ge> min_height \<and> time_last_sent_p2p ve \<le> max_last_sent) (snd e))) pool)"

fun cull_votes :: "('k \<Rightarrow> u64) \<Rightarrow> 'k pool \<Rightarrow> u64 \<Rightarrow> u64 \<Rightarrow> 'k pool" where
  "cull_votes height [] min_height max_height = []"
| "cull_votes height (e # es) min_height max_height =
     (if height (fst e) < min_height \<or> height (fst e) > max_height
      then cull_votes height es min_height max_height
      else e # cull_votes height es min_height max_height)"

text \<open>Marking a vote as sent: the first vote of the same validator.\<close>

fun mark_relayed :: "u16 \<Rightarrow> u64 \<Rightarrow> pool_vote_entry list \<Rightarrow> pool_vote_entry list" where
  "mark_relayed i now [] = []"
| "mark_relayed i now (e # es) =
     (if index_in_group (vote e) = i then e\<lparr>time_last_sent_p2p := now\<rparr> # es else e # mark_relayed i now es)"

definition set_relayed_in :: "(quorum_vote_t \<Rightarrow> 'k) \<Rightarrow> u64 \<Rightarrow> quorum_vote_t \<Rightarrow> 'k pool \<Rightarrow> 'k pool" where
  "set_relayed_in typed now v pool =
     (case find_vote_in_pool typed pool v False of
        (Some i, p) \<Rightarrow> p[i := (fst (p ! i), mark_relayed (index_in_group v) now (snd (p ! i)))]
      | (None, p) \<Rightarrow> p)"

definition add_vote_in :: "(quorum_vote_t \<Rightarrow> 'k) \<Rightarrow> quorum_vote_t \<Rightarrow> 'k pool \<Rightarrow> bool \<times> pool_vote_entry list \<times> 'k pool" where
  "add_vote_in typed v pool =
     (case find_vote_in_pool typed pool v True of
        (Some i, p) \<Rightarrow> (case add_vote_to_pool_if_unique (snd (p ! i)) v of
           (added, votes) \<Rightarrow> (added, votes, p[i := (fst (p ! i), votes)]))
      | (None, p) \<Rightarrow> (False, [], p))"

section \<open>The operations\<close>

text \<open>A vote of another type than the two below has no pool.\<close>

definition add_pool_vote_if_unique :: "quorum_vote_t \<Rightarrow> vote_verification_context \<Rightarrow> voting_pool
    \<Rightarrow> pool_vote_entry list \<times> vote_verification_context \<times> voting_pool" where
  "add_pool_vote_if_unique v vvc vp =
     (if type_of_vote v = QT_OBLIGATIONS then
        case add_vote_in obligations_pool_entry v (m_obligations_pool vp) of
          (added, votes, p) \<Rightarrow> (votes, vvc\<lparr>m_added_to_pool := added\<rparr>, vp\<lparr>m_obligations_pool := p\<rparr>)
      else if type_of_vote v = QT_CHECKPOINTING then
        case add_vote_in checkpoint_pool_entry v (m_checkpoint_pool vp) of
          (added, votes, p) \<Rightarrow> (votes, vvc\<lparr>m_added_to_pool := added\<rparr>, vp\<lparr>m_checkpoint_pool := p\<rparr>)
      else ([], vvc, vp))"

definition set_relayed_one :: "u64 \<Rightarrow> quorum_vote_t \<Rightarrow> voting_pool \<Rightarrow> voting_pool" where
  "set_relayed_one now v vp =
     (if type_of_vote v = QT_OBLIGATIONS
      then vp\<lparr>m_obligations_pool := set_relayed_in obligations_pool_entry now v (m_obligations_pool vp)\<rparr>
      else if type_of_vote v = QT_CHECKPOINTING
      then vp\<lparr>m_checkpoint_pool := set_relayed_in checkpoint_pool_entry now v (m_checkpoint_pool vp)\<rparr>
      else vp)"

definition set_relayed :: "u64 \<Rightarrow> quorum_vote_t list \<Rightarrow> voting_pool \<Rightarrow> voting_pool" where
  "set_relayed now votes vp = fold (set_relayed_one now) votes vp"

definition get_relayable_votes :: "u64 \<Rightarrow> u64 \<Rightarrow> u8 \<Rightarrow> bool \<Rightarrow> voting_pool \<Rightarrow> quorum_vote_t list" where
  "get_relayable_votes now height hf_version quorum_relay vp =
     (let TIME_BETWEEN_RELAY = 60 * 2;
          max_last_sent = now - TIME_BETWEEN_RELAY;
          min_height = (if height > VOTE_LIFETIME then height - VOTE_LIFETIME else 0)
      in if quorum_relay \<and> hf_version < 14 then []
         else (if hf_version < 14 \<or> quorum_relay
               then append_relayable_votes (m_obligations_pool vp) max_last_sent min_height else [])
            @ (if hf_version < 14 \<or> \<not> quorum_relay
               then append_relayable_votes (m_checkpoint_pool vp) max_last_sent min_height else []))"

definition remove_used_vote :: "u8 \<Rightarrow> transaction \<Rightarrow> obligations_key pool \<Rightarrow> obligations_key pool" where
  "remove_used_vote hard_fork_version tx pool =
     (if tx_type tx \<noteq> TXTYPE_STATE_CHANGE then pool
      else case get_frame_pix_state_change_from_tx_extra (extra tx) hard_fork_version of
        None \<Rightarrow> pool
      | Some state_change \<Rightarrow> (case find_entry (state_change_pool_entry state_change) pool of
          None \<Rightarrow> pool
        | Some i \<Rightarrow> take i pool @ drop (Suc i) pool))"

definition remove_used_votes :: "transaction list \<Rightarrow> u8 \<Rightarrow> voting_pool \<Rightarrow> voting_pool" where
  "remove_used_votes txs hard_fork_version vp =
     (if m_obligations_pool vp = [] then vp
      else vp\<lparr>m_obligations_pool := fold (remove_used_vote hard_fork_version) txs (m_obligations_pool vp)\<rparr>)"

definition remove_expired_votes :: "u64 \<Rightarrow> voting_pool \<Rightarrow> voting_pool" where
  "remove_expired_votes height vp =
     (let min_height = (if height < VOTE_LIFETIME then 0 else height - VOTE_LIFETIME)
      in vp\<lparr>m_obligations_pool := cull_votes fst (m_obligations_pool vp) min_height height,
            m_checkpoint_pool := cull_votes fst (m_checkpoint_pool vp) min_height height\<rparr>)"

definition received_checkpoint_vote :: "u64 \<Rightarrow> nat \<Rightarrow> voting_pool \<Rightarrow> bool" where
  "received_checkpoint_vote height index_in_quorum vp =
     (case find (\<lambda>e. fst (fst e) = height) (m_checkpoint_pool vp) of
        None \<Rightarrow> False
      | Some e \<Rightarrow> list_ex (\<lambda>ve. unat (index_in_group (vote ve)) = index_in_quorum) (snd e))"

section \<open>The invariant and the abstraction\<close>

definition pool_ok :: "(quorum_vote_t \<Rightarrow> 'k) \<Rightarrow> 'k pool \<Rightarrow> bool" where
  "pool_ok typed p \<longleftrightarrow> distinct (map fst p)
     \<and> (\<forall>e \<in> set p. sorted_wrt (<) (map (\<lambda>ve. index_in_group (vote ve)) (snd e))
          \<and> (\<forall>ve \<in> set (snd e). typed (vote ve) = fst e))"

text \<open>A pool stands for a map: for a matter and a validator, the vote.\<close>

definition votes_by_index :: "pool_vote_entry list \<Rightarrow> u16 \<rightharpoonup> quorum_vote_t" where
  "votes_by_index vs = map_of (map (\<lambda>ve. (index_in_group (vote ve), vote ve)) vs)"

definition pool_abs :: "'k pool \<Rightarrow> 'k \<times> u16 \<rightharpoonup> quorum_vote_t" where
  "pool_abs p = (\<lambda>(k, i). case map_of p k of None \<Rightarrow> None | Some vs \<Rightarrow> votes_by_index vs i)"

definition insert_if_absent :: "'a \<Rightarrow> 'b \<Rightarrow> ('a \<rightharpoonup> 'b) \<Rightarrow> ('a \<rightharpoonup> 'b)" where
  "insert_if_absent k v m = (if m k = None then m(k \<mapsto> v) else m)"

lemma find_entry_Some:
  "find_entry k p = Some i \<Longrightarrow> i < length p \<and> fst (p ! i) = k \<and> map_of p k = Some (snd (p ! i))"
proof (induction p arbitrary: i)
  case (Cons e p)
  then show ?case by (cases e) (auto split: if_splits)
qed simp

lemma find_entry_None: "find_entry k p = None \<longleftrightarrow> k \<notin> set (map fst p)"
  by (induction p) auto

lemma map_of_update_entry:
  assumes "distinct (map fst p)" "i < length p"
  shows "map_of (p[i := (fst (p ! i), vs)]) = (map_of p)(fst (p ! i) \<mapsto> vs)"
  using assms
proof (induction p arbitrary: i)
  case (Cons e p)
  show ?case
  proof (cases i)
    case (Suc j)
    then have "fst e \<noteq> fst (p ! j)" using Cons.prems by (metis distinct.simps(2) length_Cons list.simps(9) nth_map nth_mem Suc_less_eq length_map)
    then show ?thesis using Suc Cons.IH [of j] Cons.prems by (cases e) (auto simp: fun_upd_twist)
  qed (cases e, auto)
qed simp

lemma pool_ok_update:
  assumes "pool_ok typed p" "i < length p"
    "sorted_wrt (<) (map (\<lambda>ve. index_in_group (vote ve)) vs)" "\<forall>ve \<in> set vs. typed (vote ve) = fst (p ! i)"
  shows "pool_ok typed (p[i := (fst (p ! i), vs)])"
proof -
  have "map fst (p[i := (fst (p ! i), vs)]) = map fst p"
    using assms(2) by (metis fst_conv list_update_id map_update)
  moreover have "set (p[i := (fst (p ! i), vs)]) \<subseteq> insert (fst (p ! i), vs) (set p)" by (rule set_update_subset_insert)
  ultimately show ?thesis using assms unfolding pool_ok_def by fastforce
qed

lemma pool_ok_entry:
  assumes "pool_ok typed p" "i < length p"
  shows "sorted_wrt (<) (map (\<lambda>ve. index_in_group (vote ve)) (snd (p ! i)))" "\<forall>ve \<in> set (snd (p ! i)). typed (vote ve) = fst (p ! i)"
  using assms nth_mem [OF assms(2)] unfolding pool_ok_def by blast+

text \<open>Adding to the votes of one entry.\<close>

lemma add_vote_to_pool_if_unique_ok:
  assumes "sorted_wrt (<) (map (\<lambda>ve. index_in_group (vote ve)) vs)" "add_vote_to_pool_if_unique vs v = (added, vs')"
  shows "sorted_wrt (<) (map (\<lambda>ve. index_in_group (vote ve)) vs')"
    "added \<longleftrightarrow> votes_by_index vs (index_in_group v) = None"
    "votes_by_index vs' = insert_if_absent (index_in_group v) v (votes_by_index vs)"
    "vote ` set vs' = (if added then insert v (vote ` set vs) else vote ` set vs)"
proof -
  define bef where "bef = takeWhile (\<lambda>e. index_in_group (vote e) < index_in_group v) vs"
  define aft where "aft = dropWhile (\<lambda>e. index_in_group (vote e) < index_in_group v) vs"
  have vs: "vs = bef @ aft" by (simp add: bef_def aft_def)
  have b: "\<forall>e \<in> set bef. index_in_group (vote e) < index_in_group v"
    by (auto simp: bef_def dest: set_takeWhileD)
  have a: "aft \<noteq> [] \<Longrightarrow> \<not> index_in_group (vote (hd aft)) < index_in_group v"
    unfolding aft_def by (rule hd_dropWhile)
  have s: "sorted_wrt (<) (map (\<lambda>ve. index_in_group (vote ve)) aft)"
    "sorted_wrt (<) (map (\<lambda>ve. index_in_group (vote ve)) bef)"
    "\<forall>x \<in> set bef. \<forall>y \<in> set aft. index_in_group (vote x) < index_in_group (vote y)"
    using assms(1) by (auto simp: vs sorted_wrt_append)
  have tl: "\<forall>e \<in> set aft. e \<noteq> hd aft \<longrightarrow> index_in_group (vote (hd aft)) < index_in_group (vote e)"
    using s(1) by (cases aft) auto
  have bn: "votes_by_index bef (index_in_group v) = None"
    using b by (auto simp: votes_by_index_def map_of_eq_None_iff)
  have "sorted_wrt (<) (map (\<lambda>ve. index_in_group (vote ve)) vs')
      \<and> (added \<longleftrightarrow> votes_by_index vs (index_in_group v) = None)
      \<and> votes_by_index vs' = insert_if_absent (index_in_group v) v (votes_by_index vs)
      \<and> vote ` set vs' = (if added then insert v (vote ` set vs) else vote ` set vs)"
  proof (cases "aft = [] \<or> index_in_group (vote (hd aft)) \<noteq> index_in_group v")
    case True
    then have r: "added" "vs' = bef @ \<lparr>vote = v, time_last_sent_p2p = 0\<rparr> # aft"
      using assms(2) by (simp_all add: add_vote_to_pool_if_unique_def bef_def [symmetric] aft_def [symmetric])
    have gt: "index_in_group v < index_in_group (vote e)" if "e \<in> set aft" for e
    proof -
      have "aft \<noteq> []" using that by auto
      then have "index_in_group v < index_in_group (vote (hd aft))" using True a by (meson linorder_cases)
      then show ?thesis using tl that by (metis less_trans)
    qed
    have an: "votes_by_index aft (index_in_group v) = None"
      using gt by (force simp: votes_by_index_def map_of_eq_None_iff)
    have split: "votes_by_index (xs @ ys) = votes_by_index ys ++ votes_by_index xs" for xs ys
      by (simp add: votes_by_index_def)
    have cons: "votes_by_index (\<lparr>vote = v, time_last_sent_p2p = 0\<rparr> # aft) = (votes_by_index aft)(index_in_group v \<mapsto> v)"
      by (simp add: votes_by_index_def)
    have none: "votes_by_index vs (index_in_group v) = None" using bn an by (simp add: vs split map_add_def)
    have "votes_by_index vs' = (votes_by_index vs)(index_in_group v \<mapsto> v)"
      using bn by (auto simp: r(2) vs split cons map_add_def fun_eq_iff split: option.splits)
    then show ?thesis
      using r s b gt none by (auto simp: sorted_wrt_append insert_if_absent_def vs)
  next
    case False
    then have r: "\<not> added" "vs' = vs"
      using assms(2) by (simp_all add: add_vote_to_pool_if_unique_def bef_def [symmetric] aft_def [symmetric])
    have "index_in_group v \<in> (\<lambda>ve. index_in_group (vote ve)) ` set vs"
      using False by (auto simp: vs intro!: image_eqI [of _ _ "hd aft"])
    then have "votes_by_index vs (index_in_group v) \<noteq> None"
      by (auto simp: votes_by_index_def map_of_eq_None_iff image_iff)
    then show ?thesis using r assms(1) by (auto simp: insert_if_absent_def)
  qed
  then show "sorted_wrt (<) (map (\<lambda>ve. index_in_group (vote ve)) vs')"
    "added \<longleftrightarrow> votes_by_index vs (index_in_group v) = None"
    "votes_by_index vs' = insert_if_absent (index_in_group v) v (votes_by_index vs)"
    "vote ` set vs' = (if added then insert v (vote ` set vs) else vote ` set vs)"
    by blast+
qed

lemma mark_relayed_votes: "map vote (mark_relayed i now vs) = map vote vs"
  by (induction vs) auto

lemma votes_by_index_cong: "map vote vs = map vote ws \<Longrightarrow> votes_by_index vs = votes_by_index ws"
proof -
  have "votes_by_index xs = map_of (map (\<lambda>v. (index_in_group v, v)) (map vote xs))" for xs
    by (simp add: votes_by_index_def o_def)
  then show "map vote vs = map vote ws \<Longrightarrow> votes_by_index vs = votes_by_index ws" by metis
qed

section \<open>The contract of the template routines\<close>

locale typed_votes =
  fixes typed :: "quorum_vote_t \<Rightarrow> 'k" and height :: "'k \<Rightarrow> u64"
  assumes height_typed: "height (typed v) = block_height v"
begin

lemma find_vote_in_pool_create:
  assumes "pool_ok typed p"
  obtains i p' where "find_vote_in_pool typed p v True = (Some i, p')" "i < length p'" "fst (p' ! i) = typed v"
    "pool_ok typed p'" "pool_abs p' = pool_abs p" "map_of p' (typed v) = Some (snd (p' ! i))"
proof (cases "find_entry (typed v) p")
  case None
  have new: "typed v \<notin> set (map fst p)" using None by (simp add: find_entry_None)
  then have ok: "pool_ok typed (p @ [(typed v, [])])"
    using assms by (auto simp: pool_ok_def)
  have none: "map_of p (typed v) = None" using new by (simp add: map_of_eq_None_iff)
  then have "pool_abs (p @ [(typed v, [])]) = pool_abs p"
    by (auto simp: pool_abs_def fun_eq_iff map_add_def votes_by_index_def split: option.splits)
  moreover note none
  ultimately show ?thesis
    using that [of "length p" "p @ [(typed v, [])]"] None ok by (simp add: find_vote_in_pool_def map_add_def)
next
  case (Some i)
  then show ?thesis using that [of i p] find_entry_Some [OF Some] assms by (simp add: find_vote_in_pool_def)
qed

lemma add_vote_in_refines:
  assumes "pool_ok typed p" "add_vote_in typed v p = (added, votes, p')"
  shows "pool_ok typed p'" "added \<longleftrightarrow> pool_abs p (typed v, index_in_group v) = None"
    "pool_abs p' = insert_if_absent (typed v, index_in_group v) v (pool_abs p)"
proof -
  obtain i q where q: "find_vote_in_pool typed p v True = (Some i, q)" "i < length q" "fst (q ! i) = typed v"
    "pool_ok typed q" "pool_abs q = pool_abs p" "map_of q (typed v) = Some (snd (q ! i))"
    using find_vote_in_pool_create [OF assms(1)] by blast
  obtain vs where add: "add_vote_to_pool_if_unique (snd (q ! i)) v = (added, vs)" and p': "p' = q[i := (fst (q ! i), vs)]"
    using assms(2) by (auto simp: add_vote_in_def q(1) split: prod.splits)
  note e = pool_ok_entry [OF q(4,2)]
  note a = add_vote_to_pool_if_unique_ok [OF e(1) add]
  have "vote ` set vs \<subseteq> insert v (vote ` set (snd (q ! i)))" using a(4) by auto
  then have "\<forall>ve \<in> set vs. typed (vote ve) = fst (q ! i)" using e(2) q(3) by auto
  then show "pool_ok typed p'" unfolding p' by (intro pool_ok_update [OF q(4,2) a(1)])
  have old: "pool_abs p (typed v, j) = votes_by_index (snd (q ! i)) j" for j
    unfolding q(5) [symmetric] by (simp add: q(6) pool_abs_def)
  show "added \<longleftrightarrow> pool_abs p (typed v, index_in_group v) = None" using a(2) by (simp add: old)
  have "map_of p' = (map_of q)(typed v \<mapsto> vs)"
    unfolding p' using q(2-4) map_of_update_entry by (metis pool_ok_def)
  then have "pool_abs p' (k, j) = (if k = typed v then votes_by_index vs j else pool_abs p (k, j))" for k j
    unfolding q(5) [symmetric] by (simp add: pool_abs_def)
  then show "pool_abs p' = insert_if_absent (typed v, index_in_group v) v (pool_abs p)"
    using a(3) by (auto simp: fun_eq_iff insert_if_absent_def old)
qed

lemma set_relayed_in_refines:
  assumes "pool_ok typed p"
  shows "pool_ok typed (set_relayed_in typed now v p)" "pool_abs (set_relayed_in typed now v p) = pool_abs p"
proof -
  have "pool_ok typed (set_relayed_in typed now v p) \<and> pool_abs (set_relayed_in typed now v p) = pool_abs p"
  proof (cases "find_entry (typed v) p")
    case None
    then show ?thesis using assms by (simp add: set_relayed_in_def find_vote_in_pool_def)
  next
    case (Some i)
    define vs where "vs = mark_relayed (index_in_group v) now (snd (p ! i))"
    have eq: "set_relayed_in typed now v p = p[i := (fst (p ! i), vs)]"
      by (simp add: set_relayed_in_def find_vote_in_pool_def Some vs_def)
    have i: "i < length p" "fst (p ! i) = typed v" "map_of p (typed v) = Some (snd (p ! i))"
      using find_entry_Some [OF Some] by simp_all
    have same: "map vote vs = map vote (snd (p ! i))" by (simp add: vs_def mark_relayed_votes)
    have sorted: "map (\<lambda>ve. index_in_group (vote ve)) vs = map (\<lambda>ve. index_in_group (vote ve)) (snd (p ! i))"
      using arg_cong [OF same, of "map index_in_group"] by (simp add: o_def)
    have "vote ` set vs = vote ` set (snd (p ! i))" using same by (metis list.set_map)
    then have typed: "\<forall>ve \<in> set vs. typed (vote ve) = fst (p ! i)"
      using pool_ok_entry(2) [OF assms i(1)] by (metis image_iff)
    have ok: "pool_ok typed (p[i := (fst (p ! i), vs)])"
      using pool_ok_update [OF assms i(1) _ typed] pool_ok_entry(1) [OF assms i(1)] sorted by simp
    have "map_of (p[i := (fst (p ! i), vs)]) = (map_of p)(typed v \<mapsto> vs)"
      using map_of_update_entry [of p i vs] assms i by (simp add: pool_ok_def)
    then have "pool_abs (p[i := (fst (p ! i), vs)]) = pool_abs p"
      using i(3) votes_by_index_cong [OF same] by (auto simp: pool_abs_def fun_eq_iff)
    then show ?thesis using ok by (simp add: eq)
  qed
  then show "pool_ok typed (set_relayed_in typed now v p)" "pool_abs (set_relayed_in typed now v p) = pool_abs p" by simp_all
qed

lemma cull_votes_filter:
  "cull_votes height p lo hi = filter (\<lambda>e. lo \<le> height (fst e) \<and> height (fst e) \<le> hi) p"
  by (induction p) (auto simp: not_less)

lemma pool_ok_filter: "pool_ok typed p \<Longrightarrow> pool_ok typed (filter P p)"
  by (auto simp: pool_ok_def distinct_map_filter)

lemma pool_abs_filter:
  assumes "pool_ok typed p"
  shows "pool_abs (filter (\<lambda>e. P (fst e)) p) = pool_abs p |` {(k, i). P k}"
proof -
  have "map_of (filter (\<lambda>e. P (fst e)) p) k = (if P k then map_of p k else None)" for k
    by (induction p) auto
  then show ?thesis by (auto simp: pool_abs_def fun_eq_iff restrict_map_def)
qed

lemma cull_votes_refines:
  assumes "pool_ok typed p"
  shows "pool_ok typed (cull_votes height p lo hi)"
    "pool_abs (cull_votes height p lo hi) = pool_abs p |` {(k, i). lo \<le> height k \<and> height k \<le> hi}"
  unfolding cull_votes_filter using pool_ok_filter [OF assms] pool_abs_filter [OF assms, of "\<lambda>k. lo \<le> height k \<and> height k \<le> hi"]
  by simp_all

text \<open>Every vote left after culling has a height within the window.\<close>

lemma cull_votes_window:
  assumes "pool_ok typed p" "e \<in> set (cull_votes height p lo hi)" "ve \<in> set (snd e)"
  shows "lo \<le> block_height (vote ve) \<and> block_height (vote ve) \<le> hi"
proof -
  have "e \<in> set p" "lo \<le> height (fst e)" "height (fst e) \<le> hi" using assms(2) by (auto simp: cull_votes_filter)
  moreover from this(1) have "typed (vote ve) = fst e" using assms(1,3) by (auto simp: pool_ok_def)
  ultimately show ?thesis using height_typed [of "vote ve"] by simp
qed

end

interpretation ob: typed_votes obligations_pool_entry fst
  by unfold_locales (simp add: obligations_pool_entry_def)

interpretation cp: typed_votes checkpoint_pool_entry fst
  by unfold_locales (simp add: checkpoint_pool_entry_def)

lemma remove_entry_filter:
  "distinct (map fst p) \<Longrightarrow> find_entry k p = Some i \<Longrightarrow> take i p @ drop (Suc i) p = filter (\<lambda>e. fst e \<noteq> k) p"
proof (induction p arbitrary: i)
  case (Cons e p)
  show ?case
  proof (cases "fst e = k")
    case True
    then have "filter (\<lambda>e. fst e \<noteq> k) p = p" using Cons.prems(1) by (intro filter_True) (metis distinct.simps(2) image_eqI list.set_map list.simps(9))
    then show ?thesis using True Cons.prems by simp
  qed (use Cons in auto)
qed simp

text \<open>The matters a list of transactions settles: those of its state changes that can be read.\<close>

definition used_keys :: "u8 \<Rightarrow> transaction list \<Rightarrow> obligations_key set" where
  "used_keys hf txs = {state_change_pool_entry sc | tx sc. tx \<in> set txs \<and> tx_type tx = TXTYPE_STATE_CHANGE
     \<and> get_frame_pix_state_change_from_tx_extra (extra tx) hf = Some sc}"

lemma used_keys_Cons: "used_keys hf (tx # txs) = used_keys hf [tx] \<union> used_keys hf txs"
  by (auto simp: used_keys_def)

lemma remove_used_vote_filter:
  assumes "distinct (map fst p)"
  shows "remove_used_vote hf tx p = filter (\<lambda>e. fst e \<notin> used_keys hf [tx]) p"
proof (cases "get_frame_pix_state_change_from_tx_extra (extra tx) hf")
  case None
  then show ?thesis by (simp add: remove_used_vote_def used_keys_def)
next
  case (Some sc)
  show ?thesis
  proof (cases "tx_type tx = TXTYPE_STATE_CHANGE")
    case True
    have used: "used_keys hf [tx] = {state_change_pool_entry sc}" using True Some by (auto simp: used_keys_def)
    show ?thesis
    proof (cases "find_entry (state_change_pool_entry sc) p")
      case None
      then have "state_change_pool_entry sc \<notin> fst ` set p" by (simp add: find_entry_None)
      then show ?thesis using Some None True by (force simp: remove_used_vote_def used intro!: filter_True [symmetric])
    next
      case F: (Some i)
      then show ?thesis using Some True remove_entry_filter [OF assms F] by (simp add: remove_used_vote_def used)
    qed
  qed (simp add: remove_used_vote_def used_keys_def)
qed

lemma remove_used_votes_fold:
  "pool_ok obligations_pool_entry p \<Longrightarrow> fold (remove_used_vote hf) txs p = filter (\<lambda>e. fst e \<notin> used_keys hf txs) p"
proof (induction txs arbitrary: p)
  case (Cons tx txs)
  have p1: "remove_used_vote hf tx p = filter (\<lambda>e. fst e \<notin> used_keys hf [tx]) p"
    using Cons.prems by (intro remove_used_vote_filter) (simp add: pool_ok_def)
  have "pool_ok obligations_pool_entry (remove_used_vote hf tx p)" unfolding p1 by (rule ob.pool_ok_filter [OF Cons.prems])
  from Cons.IH [OF this] show ?case
    by (auto simp: p1 used_keys_Cons [of hf tx txs] intro!: filter_cong)
qed (simp add: used_keys_def)

section \<open>The pool\<close>

definition voting_pool_ok :: "voting_pool \<Rightarrow> bool" where
  "voting_pool_ok vp \<longleftrightarrow> pool_ok obligations_pool_entry (m_obligations_pool vp) \<and> pool_ok checkpoint_pool_entry (m_checkpoint_pool vp)"

lemma set_relayed_one_refines:
  assumes "voting_pool_ok vp"
  shows "voting_pool_ok (set_relayed_one now v vp)"
    "pool_abs (m_obligations_pool (set_relayed_one now v vp)) = pool_abs (m_obligations_pool vp)"
    "pool_abs (m_checkpoint_pool (set_relayed_one now v vp)) = pool_abs (m_checkpoint_pool vp)"
  using assms ob.set_relayed_in_refines cp.set_relayed_in_refines
  by (auto simp: voting_pool_ok_def set_relayed_one_def)

lemma set_relayed_refines:
  "voting_pool_ok vp \<Longrightarrow> voting_pool_ok (set_relayed now vs vp)
    \<and> pool_abs (m_obligations_pool (set_relayed now vs vp)) = pool_abs (m_obligations_pool vp)
    \<and> pool_abs (m_checkpoint_pool (set_relayed now vs vp)) = pool_abs (m_checkpoint_pool vp)"
  unfolding set_relayed_def by (induction vs arbitrary: vp) (simp_all add: set_relayed_one_refines)

lemma add_pool_vote_ok:
  assumes "voting_pool_ok vp" "add_pool_vote_if_unique v vvc vp = (vs, vvc', vp')"
  shows "voting_pool_ok vp'"
    "pool_abs (m_obligations_pool vp') =
      (if type_of_vote v = QT_OBLIGATIONS
       then insert_if_absent (obligations_pool_entry v, index_in_group v) v (pool_abs (m_obligations_pool vp))
       else pool_abs (m_obligations_pool vp))"
    "pool_abs (m_checkpoint_pool vp') =
      (if type_of_vote v = QT_CHECKPOINTING
       then insert_if_absent (checkpoint_pool_entry v, index_in_group v) v (pool_abs (m_checkpoint_pool vp))
       else pool_abs (m_checkpoint_pool vp))"
  using assms ob.add_vote_in_refines cp.add_vote_in_refines
  unfolding voting_pool_ok_def add_pool_vote_if_unique_def
  by (auto split: if_splits prod.splits)

lemma remove_used_votes_refines:
  assumes "voting_pool_ok vp"
  shows "voting_pool_ok (remove_used_votes txs hf vp)"
    "pool_abs (m_obligations_pool (remove_used_votes txs hf vp)) =
       pool_abs (m_obligations_pool vp) |` {(k, i). k \<notin> used_keys hf txs}"
    "m_checkpoint_pool (remove_used_votes txs hf vp) = m_checkpoint_pool vp"
proof -
  have ok: "pool_ok obligations_pool_entry (m_obligations_pool vp)" using assms by (simp add: voting_pool_ok_def)
  have eq: "m_obligations_pool (remove_used_votes txs hf vp) = filter (\<lambda>e. fst e \<notin> used_keys hf txs) (m_obligations_pool vp)"
    using remove_used_votes_fold [OF ok, of hf txs] by (simp add: remove_used_votes_def)
  show cp: "m_checkpoint_pool (remove_used_votes txs hf vp) = m_checkpoint_pool vp" by (simp add: remove_used_votes_def)
  show "voting_pool_ok (remove_used_votes txs hf vp)"
    using assms ob.pool_ok_filter [OF ok] by (simp add: voting_pool_ok_def eq cp)
  show "pool_abs (m_obligations_pool (remove_used_votes txs hf vp)) =
       pool_abs (m_obligations_pool vp) |` {(k, i). k \<notin> used_keys hf txs}"
    unfolding eq by (rule ob.pool_abs_filter [OF ok])
qed

definition vote_window :: "u64 \<Rightarrow> u64 set" where
  "vote_window height = {h. (if height < VOTE_LIFETIME then 0 else height - VOTE_LIFETIME) \<le> h \<and> h \<le> height}"

lemma remove_expired_votes_refines:
  assumes "voting_pool_ok vp"
  shows "voting_pool_ok (remove_expired_votes height vp)"
    "pool_abs (m_obligations_pool (remove_expired_votes height vp)) = pool_abs (m_obligations_pool vp) |` {(k, i). fst k \<in> vote_window height}"
    "pool_abs (m_checkpoint_pool (remove_expired_votes height vp)) = pool_abs (m_checkpoint_pool vp) |` {(k, i). fst k \<in> vote_window height}"
  using assms ob.cull_votes_refines cp.cull_votes_refines
  by (simp_all add: voting_pool_ok_def remove_expired_votes_def vote_window_def Let_def)

text \<open>Every pool the code can reach from the empty one.\<close>

inductive pool_reachable :: "voting_pool \<Rightarrow> bool" where
  pool_start: "pool_reachable \<lparr>m_obligations_pool = [], m_checkpoint_pool = []\<rparr>"
| pool_add: "pool_reachable vp \<Longrightarrow> add_pool_vote_if_unique v vvc vp = (vs, vvc', vp') \<Longrightarrow> pool_reachable vp'"
| pool_relayed: "pool_reachable vp \<Longrightarrow> pool_reachable (set_relayed now votes vp)"
| pool_used: "pool_reachable vp \<Longrightarrow> pool_reachable (remove_used_votes txs hf vp)"
| pool_expired: "pool_reachable vp \<Longrightarrow> pool_reachable (remove_expired_votes height vp)"

lemma pool_reachable_ok: "pool_reachable vp \<Longrightarrow> voting_pool_ok vp"
proof (induction rule: pool_reachable.induct)
  case pool_start
  then show ?case by (simp add: voting_pool_ok_def pool_ok_def)
qed (simp_all add: add_pool_vote_ok set_relayed_refines remove_used_votes_refines remove_expired_votes_refines)

text \<open>
  C19. In every pool the code can reach, no two entries are about the same matter, the votes of an entry
  are in strictly ascending order of the validators, so no validator is counted twice, and every vote
  is filed under the matter it is about.
\<close>

theorem voting_pool_invariant:
  assumes "pool_reachable vp"
  shows "distinct (map fst (m_obligations_pool vp)) \<and> distinct (map fst (m_checkpoint_pool vp))
    \<and> (\<forall>(k, vs) \<in> set (m_obligations_pool vp). sorted_wrt (<) (map (\<lambda>ve. index_in_group (vote ve)) vs)
        \<and> (\<forall>ve \<in> set vs. obligations_pool_entry (vote ve) = k))
    \<and> (\<forall>(k, vs) \<in> set (m_checkpoint_pool vp). sorted_wrt (<) (map (\<lambda>ve. index_in_group (vote ve)) vs)
        \<and> (\<forall>ve \<in> set vs. checkpoint_pool_entry (vote ve) = k))"
  using pool_reachable_ok [OF assms] by (auto simp: voting_pool_ok_def pool_ok_def)

lemma sample_pool_reachable:
  fixes v :: quorum_vote_t
  defines "v \<equiv> make_checkpointing_vote toy_crypto 16 5 100 1 \<lparr>key_sec = 3, key_pub = 7\<rparr>"
  shows "pool_reachable \<lparr>m_obligations_pool = [], m_checkpoint_pool = [((100, 5), [\<lparr>vote = v, time_last_sent_p2p = 0\<rparr>])]\<rparr>"
proof -
  have v: "type_of_vote v = 1" "checkpoint_pool_entry v = (100, 5)"
    by (simp_all add: v_def make_checkpointing_vote_def checkpoint_pool_entry_def)
  have "add_pool_vote_if_unique v vvc \<lparr>m_obligations_pool = [], m_checkpoint_pool = []\<rparr> =
     ([\<lparr>vote = v, time_last_sent_p2p = 0\<rparr>], vvc\<lparr>m_added_to_pool := True\<rparr>,
      \<lparr>m_obligations_pool = [], m_checkpoint_pool = [((100, 5), [\<lparr>vote = v, time_last_sent_p2p = 0\<rparr>])]\<rparr>)" for vvc
    by (simp add: add_pool_vote_if_unique_def add_vote_in_def find_vote_in_pool_def add_vote_to_pool_if_unique_def v)
  then show ?thesis by (rule pool_add [OF pool_start])
qed

theorem voting_pool_invariant_witness:
  "\<exists>vp. pool_reachable vp \<and> m_checkpoint_pool vp \<noteq> [] \<and> distinct (map fst (m_checkpoint_pool vp))"
proof -
  note r = sample_pool_reachable
  then show ?thesis using voting_pool_invariant [OF r] r by fastforce
qed

text \<open>
  C13. The pool implements a map from a matter and a validator to a vote. Adding a vote enters it when
  the validator has not voted on the matter and changes nothing otherwise; marking votes as relayed
  changes nothing; a block removes the votes its state changes have used; the passing of time
  removes the votes whose height is outside the window.
\<close>

theorem voting_pool_refines_map:
  assumes "pool_reachable vp" "add_pool_vote_if_unique v vvc vp = (vs, vvc', vp')"
  shows "(type_of_vote v = QT_OBLIGATIONS \<longrightarrow>
        pool_abs (m_obligations_pool vp') = insert_if_absent (obligations_pool_entry v, index_in_group v) v (pool_abs (m_obligations_pool vp))
        \<and> m_checkpoint_pool vp' = m_checkpoint_pool vp
        \<and> (m_added_to_pool vvc' \<longleftrightarrow> pool_abs (m_obligations_pool vp) (obligations_pool_entry v, index_in_group v) = None))
    \<and> (type_of_vote v = QT_CHECKPOINTING \<longrightarrow>
        pool_abs (m_checkpoint_pool vp') = insert_if_absent (checkpoint_pool_entry v, index_in_group v) v (pool_abs (m_checkpoint_pool vp))
        \<and> m_obligations_pool vp' = m_obligations_pool vp
        \<and> (m_added_to_pool vvc' \<longleftrightarrow> pool_abs (m_checkpoint_pool vp) (checkpoint_pool_entry v, index_in_group v) = None))
    \<and> pool_abs (m_obligations_pool (set_relayed now vs' vp)) = pool_abs (m_obligations_pool vp)
    \<and> pool_abs (m_checkpoint_pool (set_relayed now vs' vp)) = pool_abs (m_checkpoint_pool vp)
    \<and> pool_abs (m_obligations_pool (remove_used_votes txs hf vp)) = pool_abs (m_obligations_pool vp) |` {(k, i). k \<notin> used_keys hf txs}
    \<and> pool_abs (m_obligations_pool (remove_expired_votes height vp)) = pool_abs (m_obligations_pool vp) |` {(k, i). fst k \<in> vote_window height}
    \<and> pool_abs (m_checkpoint_pool (remove_expired_votes height vp)) = pool_abs (m_checkpoint_pool vp) |` {(k, i). fst k \<in> vote_window height}"
proof -
  note ok = pool_reachable_ok [OF assms(1)]
  have pools: "pool_ok obligations_pool_entry (m_obligations_pool vp)" "pool_ok checkpoint_pool_entry (m_checkpoint_pool vp)"
    using ok by (simp_all add: voting_pool_ok_def)
  have "type_of_vote v = QT_OBLIGATIONS \<longrightarrow> m_checkpoint_pool vp' = m_checkpoint_pool vp
      \<and> (m_added_to_pool vvc' \<longleftrightarrow> pool_abs (m_obligations_pool vp) (obligations_pool_entry v, index_in_group v) = None)"
    using assms(2) ob.add_vote_in_refines(2) [OF pools(1)] by (auto simp: add_pool_vote_if_unique_def split: prod.splits)
  moreover have "type_of_vote v = QT_CHECKPOINTING \<longrightarrow> m_obligations_pool vp' = m_obligations_pool vp
      \<and> (m_added_to_pool vvc' \<longleftrightarrow> pool_abs (m_checkpoint_pool vp) (checkpoint_pool_entry v, index_in_group v) = None)"
    using assms(2) cp.add_vote_in_refines(2) [OF pools(2)] by (auto simp: add_pool_vote_if_unique_def split: prod.splits)
  ultimately show ?thesis
    using add_pool_vote_ok(2,3) [OF ok assms(2)] set_relayed_refines [OF ok] remove_used_votes_refines(2) [OF ok]
      remove_expired_votes_refines(2,3) [OF ok] by simp
qed

theorem voting_pool_refines_map_witness:
  "\<exists>vp now. pool_reachable vp \<and> pool_abs (m_checkpoint_pool vp) \<noteq> Map.empty
    \<and> pool_abs (m_checkpoint_pool (set_relayed now [] vp)) = pool_abs (m_checkpoint_pool vp)"
proof -
  define v where "v = make_checkpointing_vote toy_crypto 16 5 100 1 \<lparr>key_sec = 3, key_pub = 7\<rparr>"
  define vp where "vp = \<lparr>m_obligations_pool = [], m_checkpoint_pool = [((100, 5), [\<lparr>vote = v, time_last_sent_p2p = 0\<rparr>])]\<rparr>"
  have r: "pool_reachable vp" using sample_pool_reachable by (simp add: vp_def v_def)
  have "index_in_group v = 1" by (simp add: v_def make_checkpointing_vote_def)
  then have "pool_abs (m_checkpoint_pool vp) ((100, 5), 1) = Some v"
    by (simp add: vp_def pool_abs_def votes_by_index_def)
  then have ne: "pool_abs (m_checkpoint_pool vp) \<noteq> Map.empty" by auto
  have "pool_abs (m_checkpoint_pool (set_relayed 0 [] vp)) = pool_abs (m_checkpoint_pool vp)"
    using voting_pool_refines_map [OF r, of v undefined "fst (add_pool_vote_if_unique v undefined vp)"
        "fst (snd (add_pool_vote_if_unique v undefined vp))" "snd (snd (add_pool_vote_if_unique v undefined vp))" 0 "[]"]
    by simp
  then show ?thesis using r ne by blast
qed

text \<open>
  C40. \<^const>\<open>received_checkpoint_vote\<close> looks at the first entry of a height only: it says whether the validator
  has voted for the block hash of that entry, so a vote of the validator for another hash of the same
  height, which the pool also keeps, counts as no vote. The witness is such a pool, built by adding two
  votes to the empty one.
\<close>

theorem received_checkpoint_vote_first_hash:
  fixes i :: u16
  assumes "m_checkpoint_pool vp = xs @ ((height, hash), vs) # ys" "\<forall>e \<in> set xs. fst (fst e) \<noteq> height"
  shows "received_checkpoint_vote height (unat i) vp \<longleftrightarrow> pool_abs (m_checkpoint_pool vp) ((height, hash), i) \<noteq> None"
proof -
  have "find (\<lambda>e. fst (fst e) = height) (m_checkpoint_pool vp) = Some ((height, hash), vs)"
    unfolding assms(1) using assms(2) by (induction xs) simp_all
  then have r: "received_checkpoint_vote height (unat i) vp \<longleftrightarrow> (\<exists>ve \<in> set vs. index_in_group (vote ve) = i)"
    by (simp add: received_checkpoint_vote_def list_ex_iff word_unat_eq_iff)
  have "(height, hash) \<notin> fst ` set xs" using assms(2) by auto
  then have "map_of (m_checkpoint_pool vp) (height, hash) = Some vs"
    by (simp add: assms(1) map_add_def map_of_eq_None_iff [symmetric])
  then show ?thesis unfolding r by (force simp: pool_abs_def votes_by_index_def map_of_eq_None_iff)
qed

theorem received_checkpoint_vote_first_hash_witness:
  "\<exists>vp v. pool_reachable vp \<and> pool_abs (m_checkpoint_pool vp) ((100, 6), 1) = Some v
    \<and> received_checkpoint_vote 100 (unat (0 :: u16)) vp \<and> \<not> received_checkpoint_vote 100 (unat (1 :: u16)) vp"
proof -
  define mk where "mk = (\<lambda>h i. make_checkpointing_vote toy_crypto 16 h 100 i \<lparr>key_sec = 3, key_pub = 7\<rparr>)"
  define p0 where "p0 = [((100 :: u64, 5 :: pod32), [\<lparr>vote = mk 5 0, time_last_sent_p2p = 0\<rparr>])]"
  define p1 where "p1 = p0 @ [((100, 6), [\<lparr>vote = mk 6 1, time_last_sent_p2p = 0\<rparr>])]"
  define vp where "vp = \<lparr>m_obligations_pool = [], m_checkpoint_pool = p1\<rparr>"
  have f: "type_of_vote (mk h i) = 1" "checkpoint_pool_entry (mk h i) = (100, h)" "index_in_group (mk h i) = i" for h i
    by (simp_all add: mk_def make_checkpointing_vote_def checkpoint_pool_entry_def)
  note add = add_pool_vote_if_unique_def add_vote_in_def find_vote_in_pool_def add_vote_to_pool_if_unique_def f p1_def p0_def vp_def
  have "add_pool_vote_if_unique (mk 5 0) vvc \<lparr>m_obligations_pool = [], m_checkpoint_pool = []\<rparr> =
      ([\<lparr>vote = mk 5 0, time_last_sent_p2p = 0\<rparr>], vvc\<lparr>m_added_to_pool := True\<rparr>, \<lparr>m_obligations_pool = [], m_checkpoint_pool = p0\<rparr>)" for vvc
    by (simp add: add)
  note r0 = pool_add [OF pool_start this]
  have "add_pool_vote_if_unique (mk 6 1) vvc \<lparr>m_obligations_pool = [], m_checkpoint_pool = p0\<rparr> =
      ([\<lparr>vote = mk 6 1, time_last_sent_p2p = 0\<rparr>], vvc\<lparr>m_added_to_pool := True\<rparr>, vp)" for vvc
    by (simp add: add)
  note r1 = pool_add [OF r0 this]
  have a: "pool_abs p1 ((100, 6), 1) = Some (mk 6 1)" "pool_abs p1 ((100, 5), 0) \<noteq> None" "pool_abs p1 ((100, 5), 1) = None"
    by (simp_all add: pool_abs_def votes_by_index_def f p1_def p0_def)
  have "m_checkpoint_pool vp = [] @ ((100, 5), [\<lparr>vote = mk 5 0, time_last_sent_p2p = 0\<rparr>]) #
      [((100, 6), [\<lparr>vote = mk 6 1, time_last_sent_p2p = 0\<rparr>])]"
    by (simp add: vp_def p1_def p0_def)
  note first = received_checkpoint_vote_first_hash [OF this]
  have "received_checkpoint_vote 100 (unat (0 :: u16)) vp" using first [of 0] a(2) by (simp add: vp_def)
  moreover have "\<not> received_checkpoint_vote 100 (unat (1 :: u16)) vp" using first [of 1] a(3) by (simp add: vp_def)
  moreover have "pool_abs (m_checkpoint_pool vp) ((100, 6), 1) = Some (mk 6 1)" using a(1) by (simp add: vp_def)
  ultimately show ?thesis using r1 by blast
qed

end
