(* ===== verification/Framepix_Info.thy ===== *)
theory Framepix_Info
  imports Cryptonote_Basic Framepix_Voting
begin

text \<open>
  One service node as the list records it, \<^verbatim>\<open>frame_pix_info\<close> of
  \<^verbatim>\<open>src/src/cryptonote_core/frame_pix_list.h\<close>, and the operations of \<^verbatim>\<open>frame_pix_list.cpp\<close> that
  read or change a single record: the registration a transaction makes, the contribution a
  transaction carries, adding it to a record, and what a record may be voted into. The signed
  \<^verbatim>\<open>active_since_height\<close> is the 64-bit word, read with \<^const>\<open>sint\<close>. The elliptic curve operations
  and the decoding of hidden amounts are a record of functions; \<^const>\<open>None\<close> is a failure or an
  exception. The invariant of the record ties its totals to its contributors.
\<close>

section \<open>Data\<close>

record contribution_t =
  ct_version :: u8
  key_image_pub_key :: pod32
  ct_key_image :: pod32
  ct_amount :: u64

record contributor_t =
  cb_version :: u8
  cb_amount :: u64
  cb_reserved :: u64
  cb_address :: account_public_address
  locked_contributions :: "contribution_t list"

record frame_pix_info =
  registration_height :: u64
  requested_unlock_height :: u64
  last_reward_block_height :: u64
  last_reward_transaction_index :: u32
  decommission_count :: u32
  active_since_height :: u64
  last_decommission_height :: u64
  contributors :: "contributor_t list"
  total_contributed :: u64
  total_reserved :: u64
  staking_requirement :: u64
  portions_for_operator :: u64
  swarm_id :: u64
  operator_address :: account_public_address
  last_ip_change_height :: u64
  info_version :: u8
  registration_hf_version :: u8

abbreviation (input) INFO_V2_ED25519 :: u8 where "INFO_V2_ED25519 \<equiv> 2"
abbreviation (input) INFO_V3_QUORUMNET :: u8 where "INFO_V3_QUORUMNET \<equiv> 3"
abbreviation (input) INFO_V4_NOPROOFS :: u8 where "INFO_V4_NOPROOFS \<equiv> 4"

definition default_contributor :: contributor_t where
  "default_contributor = \<lparr>cb_version = 0, cb_amount = 0, cb_reserved = 0, cb_address = null_address, locked_contributions = []\<rparr>"

definition default_info :: frame_pix_info where
  "default_info = \<lparr>registration_height = 0, requested_unlock_height = 0, last_reward_block_height = 0,
     last_reward_transaction_index = 0, decommission_count = 0, active_since_height = 0, last_decommission_height = 0,
     contributors = [], total_contributed = 0, total_reserved = 0, staking_requirement = 0, portions_for_operator = 0,
     swarm_id = 0, operator_address = null_address, last_ip_change_height = 0, info_version = INFO_V4_NOPROOFS,
     registration_hf_version = 0\<rparr>"

record tx_crypto =
  base_crypto :: crypto_ops
  generate_key_derivation :: "pod32 \<Rightarrow> pod32 \<Rightarrow> pod32 option"
  derivation_to_scalar :: "pod32 \<Rightarrow> nat \<Rightarrow> pod32"
  derive_public_key :: "pod32 \<Rightarrow> nat \<Rightarrow> pod32 \<Rightarrow> pod32 option"
  decodeRctSimple :: "rct_sig \<Rightarrow> pod32 \<Rightarrow> nat \<Rightarrow> u64 option"
  decodeRct :: "rct_sig \<Rightarrow> pod32 \<Rightarrow> nat \<Rightarrow> u64 option"
  check_ring_signature :: "pod32 \<Rightarrow> pod32 \<Rightarrow> pod32 list \<Rightarrow> signature list \<Rightarrow> bool"
  check_key :: "pod32 \<Rightarrow> bool"

section \<open>The state of a record\<close>

definition is_fully_funded :: "frame_pix_info \<Rightarrow> bool" where
  "is_fully_funded info = (total_contributed info \<ge> staking_requirement info)"

definition is_decommissioned :: "frame_pix_info \<Rightarrow> bool" where
  "is_decommissioned info = (sint (active_since_height info) < 0)"

definition is_active :: "frame_pix_info \<Rightarrow> bool" where
  "is_active info = (is_fully_funded info \<and> \<not> is_decommissioned info)"

definition total_num_locked_contributions :: "frame_pix_info \<Rightarrow> nat" where
  "total_num_locked_contributions info =
     fold (\<lambda>contributor result. result + length (locked_contributions contributor)) (contributors info) 0"

definition can_be_voted_on :: "frame_pix_info \<Rightarrow> u64 \<Rightarrow> bool" where
  "can_be_voted_on info height =
     (if \<not> is_fully_funded info \<or> registration_height info \<ge> height then False
      else if is_decommissioned info \<and> last_decommission_height info \<ge> height then False
      else if is_active info \<and> active_since_height info \<ge> height then False
      else True)"

definition can_transition_to_state :: "frame_pix_info \<Rightarrow> u8 \<Rightarrow> u64 \<Rightarrow> u16 \<Rightarrow> bool" where
  "can_transition_to_state info hf_version height proposed_state =
     (if hf_version \<ge> 13 then
        if \<not> can_be_voted_on info height then False
        else if proposed_state = NS_DEREGISTER \<and> height \<le> registration_height info then False
        else if proposed_state = NS_IP_CHANGE_PENALTY \<and> height \<le> last_ip_change_height info then False
        else if is_decommissioned info
        then proposed_state \<noteq> NS_DECOMMISSION \<and> proposed_state \<noteq> NS_IP_CHANGE_PENALTY
        else proposed_state \<noteq> NS_RECOMMISSION
      else
        if proposed_state = NS_DEREGISTER \<and> height < registration_height info then False
        else if is_decommissioned info
        then proposed_state \<noteq> NS_DECOMMISSION \<and> proposed_state \<noteq> NS_IP_CHANGE_PENALTY
        else proposed_state \<noteq> NS_RECOMMISSION)"

definition get_min_frame_pix_info_version_for_hf :: "u8 \<Rightarrow> u8" where
  "get_min_frame_pix_info_version_for_hf hf_version = (if hf_version < 14 then INFO_V2_ED25519 else INFO_V3_QUORUMNET)"

section \<open>What a transaction contributes\<close>

record parsed_tx_contribution =
  pc_address :: account_public_address
  transferred :: u64
  pc_tx_key :: pod32
  pc_locked_contributions :: "contribution_t list"

abbreviation (input) CRYPTONOTE_MAX_BLOCK_NUMBER :: u64 where "CRYPTONOTE_MAX_BLOCK_NUMBER \<equiv> 500000000"
abbreviation (input) RCT_FULL :: u8 where "RCT_FULL \<equiv> 1"
abbreviation (input) RCT_SIMPLE :: u8 where "RCT_SIMPLE \<equiv> 2"
abbreviation (input) RCT_BULLETPROOF :: u8 where "RCT_BULLETPROOF \<equiv> 3"
abbreviation (input) RCT_BULLETPROOF2 :: u8 where "RCT_BULLETPROOF2 \<equiv> 4"

definition get_tx_output_amount :: "tx_crypto \<Rightarrow> transaction \<Rightarrow> nat \<Rightarrow> pod32 \<Rightarrow> u64" where
  "get_tx_output_amount cr tx i derivation =
     (case out_target (vout tx ! i) of
        txout_to_key key \<Rightarrow>
          (let scalar1 = derivation_to_scalar cr derivation i;
               rct = rct_signatures tx;
               ty = rct_type rct;
               decoded = (if ty = RCT_SIMPLE \<or> ty = RCT_BULLETPROOF \<or> ty = RCT_BULLETPROOF2
                          then decodeRctSimple cr rct scalar1 i
                          else if ty = RCT_FULL then decodeRct cr rct scalar1 i
                          else None)
           in case decoded of None \<Rightarrow> 0 | Some money_transferred \<Rightarrow> money_transferred)
      | _ \<Rightarrow> 0)"

text \<open>The first proof that verifies for the one-time key, and the proofs that are left.\<close>

fun take_proof :: "tx_crypto \<Rightarrow> pod32 \<Rightarrow> key_image_proof list \<Rightarrow> (key_image_proof \<times> key_image_proof list) option" where
  "take_proof cr ephemeral_pub_key [] = None"
| "take_proof cr ephemeral_pub_key (proof # proofs) =
     (if check_ring_signature cr (proof_key_image proof) (proof_key_image proof) [ephemeral_pub_key] [proof_signature proof]
      then Some (proof, proofs)
      else map_option (\<lambda>(p, ps). (p, proof # ps)) (take_proof cr ephemeral_pub_key proofs))"

definition lock_output :: "tx_crypto \<Rightarrow> transaction \<Rightarrow> pod32 \<Rightarrow> nat \<Rightarrow> parsed_tx_contribution \<times> key_image_proof list
    \<Rightarrow> parsed_tx_contribution \<times> key_image_proof list" where
  "lock_output cr tx derivation output_index s =
     (case s of (parsed, proofs) \<Rightarrow>
       let amount = get_tx_output_amount cr tx output_index derivation
       in if amount = 0 then s
          else case derive_public_key cr derivation output_index (m_spend_public_key (pc_address parsed)) of
                 None \<Rightarrow> s
               | Some ephemeral_pub_key \<Rightarrow>
                   if out_target (vout tx ! output_index) \<noteq> txout_to_key ephemeral_pub_key then s
                   else case take_proof cr ephemeral_pub_key proofs of
                          None \<Rightarrow> s
                        | Some (proof, proofs') \<Rightarrow>
                            (parsed\<lparr>pc_locked_contributions := pc_locked_contributions parsed @
                                [\<lparr>ct_version = 0, key_image_pub_key = ephemeral_pub_key,
                                  ct_key_image = proof_key_image proof, ct_amount = amount\<rparr>],
                               transferred := transferred parsed + amount\<rparr>, proofs'))"

text \<open>
  Before infinite staking an output counts when it is locked for long enough. A loaded transaction of
  version 3 or later has an unlock time for each output.
\<close>

definition count_output :: "tx_crypto \<Rightarrow> network_type \<Rightarrow> transaction \<Rightarrow> u64 \<Rightarrow> pod32 \<Rightarrow> nat \<Rightarrow> u64 \<Rightarrow> u64" where
  "count_output cr nettype tx blk_height derivation i acc =
     (let unlock = (if tx_version tx \<ge> TXVERSION_V3_PER_OUTPUT_UNLOCK_TIMES then output_unlock_times tx ! i else unlock_time tx);
          min_height = blk_height + staking_num_lock_blocks nettype;
          has_correct_unlock_time = (unlock < CRYPTONOTE_MAX_BLOCK_NUMBER \<and> unlock \<ge> min_height)
      in if has_correct_unlock_time then acc + get_tx_output_amount cr tx i derivation else acc)"

definition get_contribution :: "tx_crypto \<Rightarrow> network_type \<Rightarrow> u8 \<Rightarrow> transaction \<Rightarrow> u64 \<Rightarrow> parsed_tx_contribution option" where
  "get_contribution cr nettype hf_version tx blk_height =
     do {
       address \<leftarrow> get_frame_pix_contributor_from_tx_extra (extra tx);
       tx_key \<leftarrow> get_tx_secret_key_from_tx_extra (extra tx);
       derivation \<leftarrow> generate_key_derivation cr (m_view_public_key address) tx_key;
       let parsed = \<lparr>pc_address = address, transferred = 0, pc_tx_key = tx_key, pc_locked_contributions = []\<rparr>;
       if hf_version \<ge> 11 then do {
         key_image_proofs \<leftarrow> get_tx_key_image_proofs_from_tx_extra (extra tx);
         Some (fst (fold (lock_output cr tx derivation) [0..<length (vout tx)] (parsed, key_image_proofs)))
       } else
         Some (parsed\<lparr>transferred := fold (count_output cr nettype tx blk_height derivation) [0..<length (vout tx)] 0\<rparr>)
     }"

section \<open>Registration\<close>

fun portions_fit :: "u64 list \<Rightarrow> u64 \<Rightarrow> bool" where
  "portions_fit [] portions_left = True"
| "portions_fit (portion # portions) portions_left =
     (if portion > portions_left then False else portions_fit portions (portions_left - portion))"

definition bytes_of_address :: "account_public_address \<Rightarrow> byte list" where
  "bytes_of_address a = bytes_of_pod (m_spend_public_key a) @ bytes_of_pod (m_view_public_key a)"

definition get_registration_hash :: "crypto_ops \<Rightarrow> account_public_address list \<Rightarrow> u64 \<Rightarrow> u64 list \<Rightarrow> u64 \<Rightarrow> pod32 option" where
  "get_registration_hash cr addresses operator_portions portions expiration_timestamp =
     (if length addresses \<noteq> length portions then None
      else if \<not> portions_fit portions STAKING_PORTIONS then None
      else Some (cn_fast_hash cr
        (le_bytes 8 operator_portions @
         concat (map (\<lambda>(a, p). bytes_of_address a @ le_bytes 8 p) (zip addresses portions)) @
         le_bytes 8 expiration_timestamp)))"

record registration_fields =
  rf_addresses :: "account_public_address list"
  rf_portions_for_operator :: u64
  rf_portions :: "u64 list"
  rf_expiration_timestamp :: u64
  rf_frame_pix_key :: pod32
  rf_signature :: signature

definition reg_tx_extract_fields :: "transaction \<Rightarrow> registration_fields option" where
  "reg_tx_extract_fields tx =
     do {
       registration \<leftarrow> get_frame_pix_register_from_tx_extra (extra tx);
       frame_pix_key \<leftarrow> get_frame_pix_pubkey_from_tx_extra (extra tx);
       Some \<lparr>rf_addresses = map (\<lambda>(s, v). \<lparr>m_spend_public_key = s, m_view_public_key = v\<rparr>)
               (zip (m_public_spend_keys registration) (m_public_view_keys registration)),
             rf_portions_for_operator = m_portions_for_operator registration,
             rf_portions = m_portions registration,
             rf_expiration_timestamp = m_expiration_timestamp registration,
             rf_frame_pix_key = frame_pix_key,
             rf_signature = m_frame_pix_signature registration\<rparr>
     }"

text \<open>
  The loop that reserves a share for each address; it stops at an address that came before.
  \<^verbatim>\<open>seen\<close> are the addresses before the head of the list.
\<close>

fun reserve_loop :: "account_public_address list \<Rightarrow> (account_public_address \<times> u64) list \<Rightarrow> frame_pix_info \<Rightarrow> frame_pix_info option" where
  "reserve_loop seen [] info = Some info"
| "reserve_loop seen ((address, portions) # rest) info =
     (if address \<in> set seen then None
      else let resultlo = portions_to_amount portions (staking_requirement info)
           in reserve_loop (seen @ [address]) rest
                (info\<lparr>contributors := contributors info @ [default_contributor\<lparr>cb_reserved := resultlo, cb_address := address\<rparr>],
                      total_reserved := total_reserved info + resultlo\<rparr>))"

definition is_registration_tx :: "tx_crypto \<Rightarrow> network_type \<Rightarrow> u8 \<Rightarrow> transaction \<Rightarrow> u64 \<Rightarrow> u64 \<Rightarrow> u32 \<Rightarrow> frame_pix_info
    \<Rightarrow> (pod32 \<times> frame_pix_info) option" where
  "is_registration_tx cr nettype hf_version tx block_timestamp blk_height index info =
     do {
       f \<leftarrow> reg_tx_extract_fields tx;
       if length (rf_portions f) \<noteq> length (rf_addresses f) \<or> rf_portions f = [] then None
       else if \<not> check_frame_pix_portions hf_version (rf_portions f) then None
       else if rf_portions_for_operator f > STAKING_PORTIONS then None
       else do {
         hash \<leftarrow> get_registration_hash (base_crypto cr) (rf_addresses f) (rf_portions_for_operator f) (rf_portions f)
                  (rf_expiration_timestamp f);
         if \<not> check_key cr (rf_frame_pix_key f) \<or>
            \<not> check_signature (base_crypto cr) hash (rf_frame_pix_key f) (rf_signature f) then None
         else if rf_expiration_timestamp f < block_timestamp then None
         else do {
           let requirement = get_staking_requirement nettype blk_height hf_version;
           parsed \<leftarrow> get_contribution cr nettype hf_version tx blk_height;
           let min_transfer = get_min_node_contribution hf_version requirement (total_reserved info)
                                (total_num_locked_contributions info);
           if transferred parsed < min_transfer then None
           else if length (rf_addresses f) + (if pc_address parsed \<in> set (rf_addresses f) then 0 else 1) > MAX_NUMBER_OF_CONTRIBUTORS
           then None
           else do {
             info' \<leftarrow> reserve_loop [] (zip (rf_addresses f) (rf_portions f))
               (info\<lparr>staking_requirement := requirement,
                     operator_address := hd (rf_addresses f),
                     portions_for_operator := rf_portions_for_operator f,
                     registration_height := blk_height,
                     registration_hf_version := hf_version,
                     last_reward_block_height := blk_height,
                     last_reward_transaction_index := index,
                     swarm_id := UNASSIGNED_SWARM_ID,
                     last_ip_change_height := blk_height,
                     info_version := get_min_frame_pix_info_version_for_hf hf_version\<rparr>);
             Some (rf_frame_pix_key f, info')
           }
         }
       }
     }"

section \<open>Adding a contribution to a record\<close>

text \<open>The index of the first contributor with the address.\<close>

fun find_contributor :: "account_public_address \<Rightarrow> nat \<Rightarrow> contributor_t list \<Rightarrow> nat option" where
  "find_contributor address i [] = None"
| "find_contributor address i (c # cs) = (if cb_address c = address then Some i else find_contributor address (Suc i) cs)"

definition contribution_acceptable :: "u8 \<Rightarrow> frame_pix_info \<Rightarrow> parsed_tx_contribution \<Rightarrow> bool" where
  "contribution_acceptable hf_version curinfo parsed =
     (let new_contributor = (find_contributor (pc_address parsed) 0 (contributors curinfo) = None);
          too_many_contributions =
            (if hf_version \<ge> 11
             then total_num_locked_contributions curinfo + length (pc_locked_contributions parsed) > MAX_NUMBER_OF_CONTRIBUTORS
             else new_contributor \<and> length (contributors curinfo) \<ge> MAX_NUMBER_OF_CONTRIBUTORS);
          min_contribution =
            (if \<not> new_contributor \<and> hf_version < 11 then 1
             else get_min_node_contribution hf_version (staking_requirement curinfo) (total_reserved curinfo)
                    (total_num_locked_contributions curinfo))
      in \<not> too_many_contributions \<and> \<not> transferred parsed < min_contribution)"

definition add_contribution :: "u8 \<Rightarrow> u64 \<Rightarrow> u32 \<Rightarrow> parsed_tx_contribution \<Rightarrow> frame_pix_info \<Rightarrow> frame_pix_info" where
  "add_contribution hf_version blk_height index parsed info =
     (let (pos, cs) = (case find_contributor (pc_address parsed) 0 (contributors info) of
                None \<Rightarrow> (length (contributors info), contributors info @ [default_contributor\<lparr>cb_address := pc_address parsed\<rparr>])
              | Some i \<Rightarrow> (i, contributors info));
          contributor = cs ! pos;
          can_increase_reserved_by = staking_requirement info - total_reserved info;
          max_amount = cb_reserved contributor + can_increase_reserved_by;
          amount = min (max_amount - cb_amount contributor) (transferred parsed);
          contributor1 = contributor\<lparr>cb_amount := cb_amount contributor + amount\<rparr>;
          (contributor2, reserved_total) =
            (if cb_amount contributor1 > cb_reserved contributor1
             then (contributor1\<lparr>cb_reserved := cb_amount contributor1\<rparr>,
                   total_reserved info + (cb_amount contributor1 - cb_reserved contributor1))
             else (contributor1, total_reserved info));
          contributor3 = (if hf_version \<ge> 11
             then contributor2\<lparr>locked_contributions := locked_contributions contributor2 @ pc_locked_contributions parsed\<rparr>
             else contributor2);
          info1 = info\<lparr>contributors := cs[pos := contributor3],
                       total_contributed := total_contributed info + amount,
                       total_reserved := reserved_total,
                       last_reward_block_height := blk_height,
                       last_reward_transaction_index := index\<rparr>
      in if is_fully_funded info1 then info1\<lparr>active_since_height := blk_height\<rparr> else info1)"

section \<open>The invariant of a record\<close>

definition totals_ok :: "contributor_t list \<Rightarrow> u64 \<Rightarrow> u64 \<Rightarrow> u64 \<Rightarrow> bool" where
  "totals_ok cs contributed reserved requirement \<longleftrightarrow>
     (\<Sum>c\<leftarrow>cs. unat (cb_amount c)) = unat contributed \<and> (\<Sum>c\<leftarrow>cs. unat (cb_reserved c)) = unat reserved
     \<and> list_all (\<lambda>c. cb_amount c \<le> cb_reserved c) cs \<and> reserved \<le> requirement"

definition info_ok :: "frame_pix_info \<Rightarrow> bool" where
  "info_ok info \<longleftrightarrow>
     totals_ok (contributors info) (total_contributed info) (total_reserved info) (staking_requirement info)
     \<and> distinct (map cb_address (contributors info)) \<and> operator_address info \<in> set (map cb_address (contributors info))
     \<and> portions_for_operator info \<le> STAKING_PORTIONS \<and> 0 < staking_requirement info"

lemma find_contributor_None:
  "find_contributor a i cs = None \<longleftrightarrow> a \<notin> set (map cb_address cs)"
  by (induction cs arbitrary: i) auto

lemma find_contributor_Some:
  "find_contributor a i cs = Some j \<Longrightarrow> i \<le> j \<and> j - i < length cs \<and> cb_address (cs ! (j - i)) = a"
proof (induction cs arbitrary: i)
  case (Cons c cs)
  then show ?case by (cases "cb_address c = a") (auto simp: nth_Cons' Suc_diff_le dest!: Cons.IH split: if_splits)
qed simp

lemma nth_le_sum_list: "i < length xs \<Longrightarrow> f (xs ! i) \<le> (\<Sum>x\<leftarrow>xs. f x :: nat)"
  by (simp add: member_le_sum_list)

lemma sum_list_le_at:
  assumes "i < length xs" "\<forall>x \<in> set xs. f x \<le> (g x :: nat)"
  shows "(\<Sum>x\<leftarrow>xs. f x) + g (xs ! i) \<le> (\<Sum>x\<leftarrow>xs. g x) + f (xs ! i)"
  using assms
proof (induction xs arbitrary: i)
  case (Cons x xs)
  show ?case
  proof (cases i)
    case 0
    have "(\<Sum>x\<leftarrow>xs. f x) \<le> (\<Sum>x\<leftarrow>xs. g x)" using Cons.prems(2) by (intro sum_list_mono) simp
    then show ?thesis using 0 by simp
  next
    case (Suc k)
    have "f x \<le> g x" using Cons.prems(2) by simp
    moreover have "(\<Sum>x\<leftarrow>xs. f x) + g (xs ! k) \<le> (\<Sum>x\<leftarrow>xs. g x) + f (xs ! k)"
      using Cons.prems Suc by (intro Cons.IH) simp_all
    ultimately show ?thesis using Suc by simp
  qed
qed simp

lemma totals_ok_default:
  "totals_ok cs tc tr s \<Longrightarrow> totals_ok (cs @ [default_contributor\<lparr>cb_address := a\<rparr>]) tc tr s"
  by (simp add: totals_ok_def default_contributor_def)

text \<open>
  The room of a contributor: what it has reserved and has not paid yet, and what nobody has
  reserved. None of the sums of the code wraps.
\<close>

lemma contributor_room:
  assumes "totals_ok cs tc tr s" "pos < length cs"
  defines "c \<equiv> cs ! pos"
  shows "unat (cb_reserved c + (s - tr) - cb_amount c) = unat (cb_reserved c) + (unat s - unat tr) - unat (cb_amount c)"
    "unat (cb_amount c) \<le> unat (cb_reserved c)" "unat (cb_reserved c) \<le> unat tr" "unat tr \<le> unat s"
    "unat tc + unat (cb_reserved c) \<le> unat tr + unat (cb_amount c)"
proof -
  have m: "c \<in> set cs" using assms(2) by (simp add: c_def)
  show le: "unat (cb_amount c) \<le> unat (cb_reserved c)"
    using assms(1) m by (simp add: totals_ok_def list_all_iff word_le_nat_alt)
  show rt: "unat (cb_reserved c) \<le> unat tr"
    using assms(1) nth_le_sum_list [OF assms(2), of "\<lambda>c. unat (cb_reserved c)"] by (simp add: totals_ok_def c_def)
  show ts: "unat tr \<le> unat s" using assms(1) by (simp add: totals_ok_def word_le_nat_alt)
  have d: "unat (s - tr) = unat s - unat tr" using ts by (intro unat_sub_u64_no_wrap) (simp add: word_le_nat_alt)
  have r: "unat (cb_reserved c + (s - tr)) = unat (cb_reserved c) + (unat s - unat tr)"
    using rt ts d unat_lt_u64 [of s] by (subst unat_add_u64_no_wrap) simp_all
  show "unat (cb_reserved c + (s - tr) - cb_amount c) = unat (cb_reserved c) + (unat s - unat tr) - unat (cb_amount c)"
    using le r by (subst unat_sub_u64_no_wrap) (simp_all add: word_le_nat_alt)
  have "\<forall>x \<in> set cs. unat (cb_amount x) \<le> unat (cb_reserved x)"
    using assms(1) by (simp add: totals_ok_def list_all_iff word_le_nat_alt)
  from sum_list_le_at [OF assms(2) this] show "unat tc + unat (cb_reserved c) \<le> unat tr + unat (cb_amount c)"
    using assms(1) by (simp add: totals_ok_def c_def)
qed

lemma sum_list_map_update:
  assumes "i < length xs"
  shows "(\<Sum>x\<leftarrow>xs[i := y]. f x) + f (xs ! i) = (\<Sum>x\<leftarrow>xs. f x) + (f y :: nat)"
  using assms sum_list_update_nat [of i "map f xs" "f y"] by (simp add: map_update)

lemma totals_ok_pay:
  assumes "totals_ok cs tc tr s" "pos < length cs" "amount \<le> cb_reserved (cs ! pos) + (s - tr) - cb_amount (cs ! pos)"
    "cb_amount c' = cb_amount (cs ! pos) + amount" "cb_reserved c' = max (cb_reserved (cs ! pos)) (cb_amount c')"
    "tr' = tr + (cb_reserved c' - cb_reserved (cs ! pos))"
  shows "totals_ok (cs[pos := c']) (tc + amount) tr' s \<and> unat (tc + amount) = unat tc + unat amount"
proof -
  let ?c = "cs ! pos"
  note room = contributor_room [OF assms(1,2)]
  have am: "unat amount \<le> unat (cb_reserved ?c) + (unat s - unat tr) - unat (cb_amount ?c)"
    using assms(3) room(1) by (simp add: word_le_nat_alt)
  have a: "unat (cb_amount c') = unat (cb_amount ?c) + unat amount"
    using assms(4) am room(2-4) unat_lt_u64 [of s] by (subst assms(4), subst unat_add_u64_no_wrap) simp_all
  have r: "unat (cb_reserved c') = max (unat (cb_reserved ?c)) (unat (cb_amount c'))"
    using assms(5) by (simp add: max_def word_le_nat_alt)
  have tc: "unat (tc + amount) = unat tc + unat amount"
    using am room(2-5) unat_lt_u64 [of s] by (intro unat_add_u64_no_wrap) simp
  have dr: "unat (cb_reserved c' - cb_reserved ?c) = unat (cb_reserved c') - unat (cb_reserved ?c)"
    using assms(5) by (intro unat_sub_u64_no_wrap) simp
  have le: "unat tr + (unat (cb_reserved c') - unat (cb_reserved ?c)) \<le> unat s" using r a am room(2-4) by simp
  have tr: "unat tr' = unat tr + (unat (cb_reserved c') - unat (cb_reserved ?c))"
    using le dr assms(6) unat_lt_u64 [of s] by (simp add: unat_add_u64_no_wrap)
  have "(\<Sum>c\<leftarrow>cs[pos := c']. unat (cb_amount c)) = unat (tc + amount)"
    using sum_list_map_update [OF assms(2), of "\<lambda>c. unat (cb_amount c)" c'] a tc assms(1) by (simp add: totals_ok_def)
  moreover have "(\<Sum>c\<leftarrow>cs[pos := c']. unat (cb_reserved c)) = unat tr'"
    using sum_list_map_update [OF assms(2), of "\<lambda>c. unat (cb_reserved c)" c'] r tr assms(1) by (simp add: totals_ok_def)
  moreover have "list_all (\<lambda>c. cb_amount c \<le> cb_reserved c) (cs[pos := c'])"
    using assms(1,5) set_update_subset_insert [of cs pos c'] by (auto simp: totals_ok_def list_all_iff)
  moreover have "tr' \<le> s" using tr le by (simp add: word_le_nat_alt)
  ultimately show ?thesis using tc by (simp add: totals_ok_def)
qed

definition contributor_slot :: "account_public_address \<Rightarrow> contributor_t list \<Rightarrow> nat \<times> contributor_t list" where
  "contributor_slot a cs = (case find_contributor a 0 cs of
       None \<Rightarrow> (length cs, cs @ [default_contributor\<lparr>cb_address := a\<rparr>]) | Some i \<Rightarrow> (i, cs))"

lemma contributor_slot:
  assumes "contributor_slot a cs = (pos, cs')" "totals_ok cs tc tr s" "distinct (map cb_address cs)"
  shows "pos < length cs'" "cb_address (cs' ! pos) = a" "totals_ok cs' tc tr s" "distinct (map cb_address cs')"
    "set (map cb_address cs') = insert a (set (map cb_address cs))"
proof -
  show "pos < length cs'" "cb_address (cs' ! pos) = a" "totals_ok cs' tc tr s" "distinct (map cb_address cs')"
    using assms find_contributor_Some [of a 0 cs] find_contributor_None [of a 0 cs] totals_ok_default [OF assms(2), of a]
    by (auto simp: contributor_slot_def default_contributor_def nth_append split: option.splits)
  show "set (map cb_address cs') = insert a (set (map cb_address cs))"
  proof (cases "find_contributor a 0 cs")
    case None
    then show ?thesis using assms(1) by (auto simp: contributor_slot_def default_contributor_def)
  next
    case (Some i)
    then have "a \<in> set (map cb_address cs)" using find_contributor_None [of a 0 cs] by simp
    then show ?thesis using assms(1) Some by (simp add: contributor_slot_def insert_absorb)
  qed
qed

text \<open>What a contribution adds: as much of it as the slot has room for.\<close>

definition contribution_room :: "account_public_address \<Rightarrow> frame_pix_info \<Rightarrow> nat" where
  "contribution_room a info =
     (case contributor_slot a (contributors info) of (pos, cs) \<Rightarrow>
        unat (cb_reserved (cs ! pos)) + (unat (staking_requirement info) - unat (total_reserved info)) - unat (cb_amount (cs ! pos)))"

lemma add_contribution_props:
  fixes parsed :: parsed_tx_contribution and height :: u64 and index :: u32 and hf :: u8
  assumes "info_ok info"
  defines "info' \<equiv> add_contribution hf height index parsed info"
  shows "info_ok info'"
    "unat (total_contributed info') = unat (total_contributed info) + min (unat (transferred parsed)) (contribution_room (pc_address parsed) info)"
    "is_fully_funded info' \<Longrightarrow> active_since_height info' = height"
    "set (map cb_address (contributors info')) = insert (pc_address parsed) (set (map cb_address (contributors info)))"
    "staking_requirement info' = staking_requirement info"
proof -
  obtain pos cs where slot: "contributor_slot (pc_address parsed) (contributors info) = (pos, cs)" by fastforce
  have tot: "totals_ok (contributors info) (total_contributed info) (total_reserved info) (staking_requirement info)"
    "distinct (map cb_address (contributors info))" using assms(1) by (simp_all add: info_ok_def)
  note s = contributor_slot [OF slot tot]
  let ?c = "cs ! pos" and ?max = "cb_reserved (cs ! pos) + (staking_requirement info - total_reserved info)"
  define amount where "amount = min (?max - cb_amount ?c) (transferred parsed)"
  define c' where "c' = ?c\<lparr>cb_amount := cb_amount ?c + amount, cb_reserved := max (cb_reserved ?c) (cb_amount ?c + amount),
     locked_contributions := (if hf \<ge> 11 then locked_contributions ?c @ pc_locked_contributions parsed else locked_contributions ?c)\<rparr>"
  define tr' where "tr' = total_reserved info + (cb_reserved c' - cb_reserved ?c)"
  define info1 where "info1 = info\<lparr>contributors := cs[pos := c'], total_contributed := total_contributed info + amount,
     total_reserved := tr', last_reward_block_height := height, last_reward_transaction_index := index\<rparr>"
  have eq: "info' = (if is_fully_funded info1 then info1\<lparr>active_since_height := height\<rparr> else info1)"
    unfolding info'_def add_contribution_def contributor_slot_def [symmetric] slot Let_def prod.case amount_def [symmetric]
    by (cases "cb_reserved ?c < cb_amount ?c + amount"; cases "hf \<ge> 11") (simp_all add: info1_def tr'_def c'_def max_def is_fully_funded_def)
  have pay: "totals_ok (cs[pos := c']) (total_contributed info + amount) tr' (staking_requirement info)"
    "unat (total_contributed info + amount) = unat (total_contributed info) + unat amount"
    using totals_ok_pay [OF s(3,1), of amount c' tr'] by (simp_all add: amount_def c'_def tr'_def)
  have adr: "map cb_address (cs[pos := c']) = map cb_address cs"
    using s(1) by (simp add: map_update c'_def list_update_same_conv)
  show "info_ok info'" using assms(1) pay(1) s(4,5) unfolding info_ok_def eq info1_def by (simp add: adr del: set_map)
  have "unat (?max - cb_amount ?c) = contribution_room (pc_address parsed) info"
    using contributor_room(1) [OF s(3,1)] by (simp add: contribution_room_def slot)
  then have "unat amount = min (unat (transferred parsed)) (contribution_room (pc_address parsed) info)"
    by (auto simp: amount_def min_def word_le_nat_alt)
  then show "unat (total_contributed info') = unat (total_contributed info) + min (unat (transferred parsed)) (contribution_room (pc_address parsed) info)"
    using pay(2) by (simp add: eq info1_def)
  show "is_fully_funded info' \<Longrightarrow> active_since_height info' = height"
    by (auto simp: eq is_fully_funded_def split: if_splits)
  show "set (map cb_address (contributors info')) = insert (pc_address parsed) (set (map cb_address (contributors info)))"
    using s(5) by (simp add: eq info1_def adr del: set_map)
  show "staking_requirement info' = staking_requirement info" by (simp add: eq info1_def)
qed

lemma info_ok_contributed_le:
  assumes "info_ok info"
  shows "total_contributed info \<le> staking_requirement info"
proof -
  have "(\<Sum>c\<leftarrow>contributors info. unat (cb_amount c)) \<le> (\<Sum>c\<leftarrow>contributors info. unat (cb_reserved c))"
    using assms by (intro sum_list_mono) (simp add: info_ok_def totals_ok_def list_all_iff word_le_nat_alt)
  then show ?thesis using assms by (simp add: info_ok_def totals_ok_def word_le_nat_alt)
qed

section \<open>A registration starts a record that is in order\<close>

lemma portions_fit_sum: "portions_fit ps left \<Longrightarrow> (\<Sum>p\<leftarrow>ps. unat p) \<le> unat left"
proof (induction ps arbitrary: left)
  case (Cons p ps)
  then have "p \<le> left" "(\<Sum>p\<leftarrow>ps. unat p) \<le> unat (left - p)" by (auto simp: not_less split: if_splits)
  then show ?case by (simp add: unat_sub_u64_no_wrap word_le_nat_alt)
qed simp

definition reserved_contributor :: "u64 \<Rightarrow> account_public_address \<times> u64 \<Rightarrow> contributor_t" where
  "reserved_contributor s ap = default_contributor\<lparr>cb_reserved := portions_to_amount (snd ap) s, cb_address := fst ap\<rparr>"

lemma reserve_loop_Some:
  "reserve_loop seen aps info = Some info' \<Longrightarrow>
     distinct (map fst aps) \<and> set seen \<inter> set (map fst aps) = {} \<and>
     info' = info\<lparr>contributors := contributors info @ map (reserved_contributor (staking_requirement info)) aps,
                  total_reserved := total_reserved info + (\<Sum>ap\<leftarrow>aps. portions_to_amount (snd ap) (staking_requirement info))\<rparr>"
proof (induction aps arbitrary: seen info)
  case (Cons ap aps)
  obtain a p where ap: "ap = (a, p)" by fastforce
  let ?r = "portions_to_amount p (staking_requirement info)"
  let ?i = "info\<lparr>contributors := contributors info @ [reserved_contributor (staking_requirement info) ap], total_reserved := total_reserved info + ?r\<rparr>"
  have new: "a \<notin> set seen" using Cons.prems by (cases "a \<in> set seen") (simp_all add: ap)
  then have "reserve_loop (seen @ [a]) aps ?i = Some info'"
    using Cons.prems by (simp add: ap Let_def reserved_contributor_def)
  note ih = Cons.IH [OF this]
  have "info' = info\<lparr>contributors := contributors info @ map (reserved_contributor (staking_requirement info)) (ap # aps),
      total_reserved := total_reserved info + (\<Sum>ap\<leftarrow>ap # aps. portions_to_amount (snd ap) (staking_requirement info))\<rparr>"
    by (subst conjunct2 [OF conjunct2 [OF ih]]) (simp add: ap add.assoc)
  then show ?case using new ih by (simp add: ap)
next
  case Nil
  then have "info' = info" by simp
  then show ?case by (cases info) simp
qed

lemma sum_div_le: "(\<Sum>x\<leftarrow>xs. f x div k) \<le> (\<Sum>x\<leftarrow>xs. f x) div (k :: nat)"
proof (induction xs)
  case (Cons x xs)
  have "f x div k + (\<Sum>x\<leftarrow>xs. f x) div k \<le> (f x + (\<Sum>x\<leftarrow>xs. f x)) div k"
    using div_add1_eq [of "f x" "\<Sum>x\<leftarrow>xs. f x" k] by (metis le_add1)
  then show ?case using Cons.IH by simp
qed simp

lemma reserved_fits:
  assumes "(\<Sum>p\<leftarrow>ps. unat p) \<le> 18446744073709551612"
  shows "(\<Sum>p\<leftarrow>ps. unat (portions_to_amount p s)) \<le> unat s"
proof -
  have "p \<le> STAKING_PORTIONS" if "p \<in> set ps" for p
    using assms member_le_sum_list [of "unat p" "map unat ps"] that by (simp add: word_le_nat_alt)
  then have "(\<Sum>p\<leftarrow>ps. unat (portions_to_amount p s)) = (\<Sum>p\<leftarrow>ps. unat s * unat p div 18446744073709551612)"
    using portions_to_amount_le(1) by (intro arg_cong [where f = sum_list] list.map_cong0) blast
  also have "\<dots> \<le> (\<Sum>p\<leftarrow>ps. unat s * unat p) div 18446744073709551612" by (rule sum_div_le)
  also have "\<dots> = unat s * (\<Sum>p\<leftarrow>ps. unat p) div 18446744073709551612" by (simp add: sum_list_const_mult)
  also have "\<dots> \<le> unat s * 18446744073709551612 div 18446744073709551612"
    using assms by (intro div_le_mono mult_le_mono2)
  finally show ?thesis by simp
qed

lemma unat_sum_u64:
  assumes "(\<Sum>x\<leftarrow>xs. unat (f x :: u64)) < 18446744073709551616"
  shows "unat (\<Sum>x\<leftarrow>xs. f x) = (\<Sum>x\<leftarrow>xs. unat (f x))"
  using unat_sum_list_mod [of "map f xs"] assms by (simp add: o_def)

lemma staking_requirement_pos: "0 < get_staking_requirement nettype height hf"
  by (simp add: get_staking_requirement_def)

lemma reserve_loop_ok:
  assumes "reserve_loop [] (zip as ps) info = Some info'" "portions_fit ps STAKING_PORTIONS" "length as = length ps" "as \<noteq> []"
    "contributors info = []" "total_reserved info = 0" "total_contributed info = 0" "operator_address info = hd as"
    "portions_for_operator info \<le> STAKING_PORTIONS" "0 < staking_requirement info"
  shows "info_ok info'" "map cb_address (contributors info') = as" "total_contributed info' = 0"
    "staking_requirement info' = staking_requirement info"
proof -
  let ?s = "staking_requirement info"
  note r = reserve_loop_Some [OF assms(1)]
  have sum: "(\<Sum>ap\<leftarrow>zip as ps. f (snd ap)) = (\<Sum>p\<leftarrow>ps. f p)" for f :: "u64 \<Rightarrow> nat"
    using assms(3) by (induction as ps rule: list_induct2) simp_all
  have fits: "(\<Sum>ap\<leftarrow>zip as ps. unat (portions_to_amount (snd ap) ?s)) \<le> unat ?s"
    using portions_fit_sum [OF assms(2)] reserved_fits [of ps ?s] sum [of "\<lambda>p. unat (portions_to_amount p ?s)"] by simp
  then have tr: "unat (total_reserved info') = (\<Sum>ap\<leftarrow>zip as ps. unat (portions_to_amount (snd ap) ?s))"
    unfolding conjunct2 [OF conjunct2 [OF r]]
    using assms(6) unat_sum_u64 [of "\<lambda>ap. portions_to_amount (snd ap) ?s" "zip as ps"] unat_lt_u64 [of ?s] by simp
  have cs: "contributors info' = map (reserved_contributor ?s) (zip as ps)"
    unfolding conjunct2 [OF conjunct2 [OF r]] using assms(5) by simp
  show adr: "map cb_address (contributors info') = as"
    using assms(3) by (simp add: cs reserved_contributor_def o_def)
  have rest: "total_contributed info' = 0" "staking_requirement info' = ?s" "operator_address info' = hd as"
      "portions_for_operator info' \<le> STAKING_PORTIONS"
    unfolding conjunct2 [OF conjunct2 [OF r]] using assms(7-9) by simp_all
  show "total_contributed info' = 0" "staking_requirement info' = ?s" by (fact rest)+
  have "totals_ok (contributors info') 0 (total_reserved info') ?s"
    using tr fits by (simp add: totals_ok_def cs o_def reserved_contributor_def default_contributor_def list_all_iff word_le_nat_alt)
  moreover have "distinct as" using conjunct1 [OF r] assms(3) by simp
  ultimately show "info_ok info'"
    using rest adr assms(4,10) by (simp add: info_ok_def del: set_map)
qed

lemma is_registration_tx_ok:
  assumes "is_registration_tx cr nettype hf tx ts height index default_info = Some (key, info)"
  shows "info_ok info" "total_contributed info = 0" "length (contributors info) \<le> 4" "\<not> is_fully_funded info"
    "staking_requirement info = get_staking_requirement nettype height hf"
proof -
  let ?s = "get_staking_requirement nettype height hf"
  note reg = assms [unfolded is_registration_tx_def Let_def]
  obtain f where f: "reg_tx_extract_fields tx = Some f" using reg by (cases "reg_tx_extract_fields tx") simp_all
  have g: "length (rf_portions f) = length (rf_addresses f)" "rf_portions f \<noteq> []" "rf_portions_for_operator f \<le> STAKING_PORTIONS"
    using reg by (auto simp: f not_less split: if_splits)
  obtain hash where h: "get_registration_hash (base_crypto cr) (rf_addresses f) (rf_portions_for_operator f) (rf_portions f)
      (rf_expiration_timestamp f) = Some hash"
    using reg by (cases "get_registration_hash (base_crypto cr) (rf_addresses f) (rf_portions_for_operator f) (rf_portions f)
      (rf_expiration_timestamp f)") (simp_all add: f split: if_splits)
  obtain parsed where p: "get_contribution cr nettype hf tx height = Some parsed"
    using reg by (cases "get_contribution cr nettype hf tx height") (simp_all add: f h split: if_splits)
  have n: "length (rf_addresses f) \<le> 4" and
    l: "reserve_loop [] (zip (rf_addresses f) (rf_portions f))
       (default_info\<lparr>staking_requirement := ?s, operator_address := hd (rf_addresses f),
          portions_for_operator := rf_portions_for_operator f, registration_height := height, registration_hf_version := hf,
          last_reward_block_height := height, last_reward_transaction_index := index, swarm_id := UNASSIGNED_SWARM_ID,
          last_ip_change_height := height, info_version := get_min_frame_pix_info_version_for_hf hf\<rparr>) = Some info"
    using reg by (auto simp: f h p bind_eq_Some_conv split: if_splits)
  have "portions_fit (rf_portions f) STAKING_PORTIONS" using h by (simp add: get_registration_hash_def split: if_splits)
  moreover have "rf_addresses f \<noteq> []" using g by auto
  ultimately have ok: "info_ok info" "map cb_address (contributors info) = rf_addresses f" "total_contributed info = 0"
      "staking_requirement info = ?s"
    using reserve_loop_ok [OF l] g staking_requirement_pos by (simp_all add: default_info_def)
  show "info_ok info" "total_contributed info = 0" "staking_requirement info = ?s" by (fact ok)+
  show "length (contributors info) \<le> 4" using n ok(2) length_map [of cb_address "contributors info"] by simp
  show "\<not> is_fully_funded info" using ok(3,4) staking_requirement_pos [of nettype height hf] by (simp add: is_fully_funded_def)
qed

section \<open>Properties\<close>

text \<open>
  C4. Adding a contribution keeps the record in order: the totals are the sums over the contributors,
  nobody has paid more than is reserved for them, no address has two entries, and neither total
  exceeds the staking requirement. What is added is the contribution cut to the room its contributor
  has, and a record that becomes fully funded is active from the height of the block.
\<close>

theorem add_contribution_keeps_totals:
  assumes "info_ok info"
  shows "info_ok (add_contribution hf height index parsed info)
    \<and> unat (total_contributed (add_contribution hf height index parsed info)) =
        unat (total_contributed info) + min (unat (transferred parsed)) (contribution_room (pc_address parsed) info)
    \<and> total_contributed (add_contribution hf height index parsed info) \<le> staking_requirement info
    \<and> (is_fully_funded (add_contribution hf height index parsed info) \<longrightarrow>
         active_since_height (add_contribution hf height index parsed info) = height)"
proof (intro conjI impI)
  note p = add_contribution_props [OF assms, of hf height index parsed]
  show "info_ok (add_contribution hf height index parsed info)"
    "unat (total_contributed (add_contribution hf height index parsed info)) =
        unat (total_contributed info) + min (unat (transferred parsed)) (contribution_room (pc_address parsed) info)" by (fact p)+
  show "active_since_height (add_contribution hf height index parsed info) = height"
    if "is_fully_funded (add_contribution hf height index parsed info)" using p(3) that .
  show "total_contributed (add_contribution hf height index parsed info) \<le> staking_requirement info"
    using info_ok_contributed_le [OF p(1)] p(5) by simp
qed

definition alice :: account_public_address where "alice = \<lparr>m_spend_public_key = 1, m_view_public_key = 2\<rparr>"
definition bob :: account_public_address where "bob = \<lparr>m_spend_public_key = 3, m_view_public_key = 4\<rparr>"

definition sample_info :: frame_pix_info where
  "sample_info = default_info\<lparr>contributors := [default_contributor\<lparr>cb_reserved := 60, cb_address := alice\<rparr>,
       default_contributor\<lparr>cb_reserved := 40, cb_amount := 40, cb_address := bob\<rparr>],
     total_contributed := 40, total_reserved := 100, staking_requirement := 100, operator_address := alice,
     registration_height := 5\<rparr>"

definition sample_contribution :: "account_public_address \<Rightarrow> u64 \<Rightarrow> parsed_tx_contribution" where
  "sample_contribution a n = \<lparr>pc_address = a, transferred = n, pc_tx_key = 0, pc_locked_contributions = []\<rparr>"

lemma sample_info_ok: "info_ok sample_info"
  by (simp add: info_ok_def totals_ok_def sample_info_def default_info_def default_contributor_def alice_def bob_def)

theorem add_contribution_keeps_totals_witness:
  "info_ok (add_contribution 16 9 0 (sample_contribution alice 70) sample_info)
   \<and> unat (total_contributed (add_contribution 16 9 0 (sample_contribution alice 70) sample_info)) = 100"
proof -
  have "contribution_room alice sample_info = 60"
    by (simp add: contribution_room_def contributor_slot_def sample_info_def default_info_def default_contributor_def)
  then show ?thesis
    using add_contribution_keeps_totals [OF sample_info_ok, of 16 9 0 "sample_contribution alice 70"]
    by (simp add: sample_contribution_def) (simp add: sample_info_def)
qed

text \<open>
  C6. A registration that is accepted starts a record in order, with at most four contributors and nothing paid
  yet: the shares reserved for the addresses, rounded down, never exceed the staking requirement
  of the height, even though the check of the portions alone can be passed by a sum that wraps.
\<close>

theorem registration_starts_in_order:
  assumes "is_registration_tx cr nettype hf tx ts height index default_info = Some (key, info)"
  shows "info_ok info \<and> total_contributed info = 0 \<and> length (contributors info) \<le> 4 \<and> \<not> is_fully_funded info
    \<and> staking_requirement info = get_staking_requirement nettype height hf"
  using is_registration_tx_ok [OF assms] by blast

text \<open>
  A concrete registration. In the toy scheme every signature is good and every output of a transaction
  carries the same amount.
\<close>

definition open_crypto :: "u64 \<Rightarrow> tx_crypto" where
  "open_crypto amount = \<lparr>base_crypto = toy_crypto\<lparr>check_signature := (\<lambda>h k s. True)\<rparr>,
     generate_key_derivation = (\<lambda>a b. Some 0), derivation_to_scalar = (\<lambda>d i. 0),
     derive_public_key = (\<lambda>d i b. Some (b + of_nat i)), decodeRctSimple = (\<lambda>r s i. Some amount),
     decodeRct = (\<lambda>r s i. Some amount), check_ring_signature = (\<lambda>h k ps ss. True), check_key = (\<lambda>k. True)\<rparr>"

definition staking_tx :: "tx_extra_field list \<Rightarrow> transaction" where
  "staking_tx fs = \<lparr>tx_version = 4, tx_type = TXTYPE_STAKE, unlock_time = 0, vin = [],
     vout = [\<lparr>out_amount = 0, out_target = txout_to_key 1\<rparr>], extra = save_fields fs, output_unlock_times = [0],
     rct_signatures = \<lparr>rct_type = RCT_BULLETPROOF2, txnFee = 0, rct_rest = []\<rparr>\<rparr>"

definition sample_registration :: "tx_extra_field list" where
  "sample_registration =
     [tx_extra_register \<lparr>m_public_spend_keys = [1], m_public_view_keys = [2], m_portions_for_operator = 0,
        m_portions = [STAKING_PORTIONS], m_expiration_timestamp = 1000, m_frame_pix_signature = (0, 0)\<rparr>,
      tx_extra_frame_pix_pubkey 77, tx_extra_frame_pix_contributor alice, tx_extra_tx_secret_key 5,
      tx_extra_tx_key_image_proofs [\<lparr>proof_key_image = 8, proof_signature = (0, 0)\<rparr>]]"

lemma first_of_type_saved: "extra_ok fs \<Longrightarrow> first_of_type sel (save_fields fs) = find_field_loop sel 0 fs"
  using parse_save_fields [of fs] by (cases "fs = []")
    (simp_all add: first_of_type_def find_tx_extra_field_by_type_def parse_tx_extra_def)

lemma staking_tx_simps:
  "extra (staking_tx fs) = save_fields fs" "tx_type (staking_tx fs) = TXTYPE_STAKE" "tx_version (staking_tx fs) = 4"
  "vout (staking_tx fs) = [\<lparr>out_amount = 0, out_target = txout_to_key 1\<rparr>]"
  "rct_type (rct_signatures (staking_tx fs)) = RCT_BULLETPROOF2"
  by (simp_all add: staking_tx_def)

lemma sample_registration_parts:
  "get_frame_pix_pubkey_from_tx_extra (save_fields sample_registration) = Some 77"
  "get_contribution (open_crypto amount) nettype 16 (staking_tx sample_registration) height =
     Some \<lparr>pc_address = alice, transferred = amount, pc_tx_key = 5, pc_locked_contributions =
       (if amount = 0 then [] else [\<lparr>ct_version = 0, key_image_pub_key = 1, ct_key_image = 8, ct_amount = amount\<rparr>])\<rparr>"
  "reg_tx_extract_fields (staking_tx sample_registration) =
     Some \<lparr>rf_addresses = [alice], rf_portions_for_operator = 0, rf_portions = [STAKING_PORTIONS], rf_expiration_timestamp = 1000,
       rf_frame_pix_key = 77, rf_signature = (0, 0)\<rparr>"
proof -
  have ok: "extra_ok sample_registration" by (simp add: sample_registration_def extra_ok_def)
  note getters = get_frame_pix_pubkey_from_tx_extra_def get_frame_pix_contributor_from_tx_extra_def
    get_tx_secret_key_from_tx_extra_def get_tx_key_image_proofs_from_tx_extra_def get_frame_pix_register_from_tx_extra_def
    first_of_type_saved [OF ok]
  show "get_frame_pix_pubkey_from_tx_extra (save_fields sample_registration) = Some 77"
    by (simp add: getters) (simp add: sample_registration_def)
  show "reg_tx_extract_fields (staking_tx sample_registration) =
     Some \<lparr>rf_addresses = [alice], rf_portions_for_operator = 0, rf_portions = [STAKING_PORTIONS], rf_expiration_timestamp = 1000,
       rf_frame_pix_key = 77, rf_signature = (0, 0)\<rparr>"
    by (simp add: reg_tx_extract_fields_def staking_tx_simps getters) (simp add: sample_registration_def alice_def)
  show "get_contribution (open_crypto amount) nettype 16 (staking_tx sample_registration) height =
     Some \<lparr>pc_address = alice, transferred = amount, pc_tx_key = 5, pc_locked_contributions =
       (if amount = 0 then [] else [\<lparr>ct_version = 0, key_image_pub_key = 1, ct_key_image = 8, ct_amount = amount\<rparr>])\<rparr>"
    by (simp add: get_contribution_def staking_tx_simps getters)
      (simp add: sample_registration_def open_crypto_def lock_output_def get_tx_output_amount_def staking_tx_simps alice_def)
qed

lemma sample_registration_accepted:
  "\<exists>info. is_registration_tx (open_crypto 30000000000) FAKECHAIN 16 (staking_tx sample_registration) 500 100 0 default_info = Some (77, info)
     \<and> contributors info = [reserved_contributor 100000000000 (alice, STAKING_PORTIONS)] \<and> staking_requirement info = 100000000000"
proof -
  have "check_frame_pix_portions 16 [STAKING_PORTIONS]" by code_simp
  moreover have "get_min_node_contribution 16 (get_staking_requirement FAKECHAIN 100 16) 0 0 \<le> 30000000000" by code_simp
  moreover have "get_staking_requirement FAKECHAIN 100 16 = 100000000000" by code_simp
  moreover have "check_key (open_crypto a) k" "check_signature (base_crypto (open_crypto a)) h k sg" for a h k sg
    by (simp_all add: open_crypto_def)
  ultimately show ?thesis
    unfolding is_registration_tx_def sample_registration_parts
    by (simp add: get_registration_hash_def total_num_locked_contributions_def default_info_def reserved_contributor_def not_less Let_def)
qed

theorem registration_starts_in_order_witness:
  "\<exists>info. is_registration_tx (open_crypto 30000000000) FAKECHAIN 16 (staking_tx sample_registration) 500 100 0 default_info = Some (77, info)
     \<and> info_ok info"
  using sample_registration_accepted registration_starts_in_order [of "open_crypto 30000000000" FAKECHAIN 16
    "staking_tx sample_registration" 500 100 0 77] by blast

text \<open>
  C32. While a node is reserved in full but not paid in full, a staking transaction of an address that is not a contributor
  and that transfers nothing is accepted from hard fork 11 on: the smallest contribution is then zero
  and no output counts against the limit of four. It adds a contributor with an amount of zero, however many there
  are, and moves the node to the back of the reward queue.
\<close>

theorem zero_contribution_is_accepted:
  assumes "11 \<le> hf" "total_reserved info = staking_requirement info" "total_num_locked_contributions info < 4"
    "pc_address parsed \<notin> set (map cb_address (contributors info))" "transferred parsed = 0" "pc_locked_contributions parsed = []"
  shows "contribution_acceptable hf info parsed
    \<and> length (contributors (add_contribution hf height index parsed info)) = Suc (length (contributors info))
    \<and> last_reward_block_height (add_contribution hf height index parsed info) = height
    \<and> total_contributed (add_contribution hf height index parsed info) = total_contributed info"
proof -
  have hf: "\<not> hf < 11" using assms(1) by simp
  have new: "find_contributor (pc_address parsed) 0 (contributors info) = None"
    using assms(4) by (simp add: find_contributor_None del: set_map)
  have "\<not> 4 \<le> total_num_locked_contributions info" using assms(3) by simp
  then have "contribution_acceptable hf info parsed"
    using assms(1,2,3,5,6) hf new by (simp add: contribution_acceptable_def get_min_node_contribution_def Let_def)
  moreover have "min x (0 :: u64) = 0" for x by (simp add: min_def)
  ultimately show ?thesis
    using assms(5) new by (simp add: add_contribution_def Let_def default_contributor_def is_fully_funded_def nth_append)
qed

definition carol :: account_public_address where "carol = \<lparr>m_spend_public_key = 5, m_view_public_key = 6\<rparr>"

theorem zero_contribution_is_accepted_witness:
  "contribution_acceptable 16 sample_info (sample_contribution carol 0)
   \<and> length (contributors (add_contribution 16 9 0 (sample_contribution carol 0) sample_info)) = 3"
proof -
  have "total_reserved sample_info = staking_requirement sample_info" "total_num_locked_contributions sample_info < 4"
    "carol \<notin> set (map cb_address (contributors sample_info))" "length (contributors sample_info) = 2"
    by (simp_all add: sample_info_def default_info_def default_contributor_def total_num_locked_contributions_def
        carol_def alice_def bob_def)
  then show ?thesis
    using zero_contribution_is_accepted [of 16 sample_info "sample_contribution carol 0" 9 0]
    by (simp add: sample_contribution_def)
qed

end
