(* ===== verification/Framepix_State.thy ===== *)
theory Framepix_State
  imports Framepix_Info Framepix_Swarm "HOL-Library.AList"
begin

text \<open>
  The state of the service node list at one height, \<^verbatim>\<open>frame_pix_list::state_t\<close> of
  \<^verbatim>\<open>src/src/cryptonote_core/frame_pix_list.h\<close>, and the operations that move it over a block:
  registrations, contributions, state changes, stake unlocks, expiry, the reward queue, the swarms and
  the quorums of the next heights. The hash table of the nodes is an association list with distinct
  keys in the order of iteration, so a result that depends on that order shows in the model. A set of
  states is the list of its elements in ascending height. Dereferencing an absent quorum and indexing
  a vector out of its bounds are errors of the model, as are a failed assertion and an exception.
  The uptime proofs of the enclosing list that a state updates are threaded; they are absent
  when the state has no list. Messages to the log are not modelled, and with them the
  node's own keys, which only choose the message.
\<close>

section \<open>Data\<close>

datatype state_error = SwarmError swarm_error | NullQuorum | OutOfBounds

fun liftE :: "swarm_error + 'a \<Rightarrow> state_error + 'a" where
  "liftE (Inl e) = Inl (SwarmError e)"
| "liftE (Inr a) = Inr a"

lemma liftE_Inr_iff [simp]: "liftE x = Inr a \<longleftrightarrow> x = Inr a"
  by (cases x) auto

record quorum_manager =
  qm_obligations :: "quorum option"
  qm_checkpointing :: "quorum option"
  qm_blink :: "quorum option"

definition quorum_manager_get :: "quorum_manager \<Rightarrow> quorum_type \<Rightarrow> quorum option" where
  "quorum_manager_get qm type =
     (case type of obligations \<Rightarrow> qm_obligations qm | checkpointing \<Rightarrow> qm_checkpointing qm | blink \<Rightarrow> qm_blink qm)"

definition no_quorums :: quorum_manager where
  "no_quorums = \<lparr>qm_obligations = None, qm_checkpointing = None, qm_blink = None\<rparr>"

record key_image_blacklist_entry =
  bl_version :: u8
  bl_key_image :: pod32
  bl_unlock_height :: u64
  bl_amount :: u64

type_synonym frame_pixs_infos_t = "(pod32 \<times> frame_pix_info) list"

record state_t =
  st_block_hash :: pod32
  only_loaded_quorums :: bool
  frame_pixs_infos :: frame_pixs_infos_t
  key_image_blacklist :: "key_image_blacklist_entry list"
  st_height :: u64
  st_quorums :: quorum_manager

definition initial_state :: state_t where
  "initial_state = \<lparr>st_block_hash = null_pod, only_loaded_quorums = False, frame_pixs_infos = [], key_image_blacklist = [],
     st_height = 0, st_quorums = no_quorums\<rparr>"

type_synonym state_set = "state_t list"

definition state_set_find :: "u64 \<Rightarrow> state_set \<Rightarrow> state_t option" where
  "state_set_find height states = find (\<lambda>s. st_height s = height) states"

record checkpoint_vote_record =
  cv_height :: u64
  cv_voted :: bool

abbreviation (input) INVALID_HEIGHT :: u64 where "INVALID_HEIGHT \<equiv> U64_MAX"
abbreviation (input) CHECKPOINT_NUM_QUORUMS_TO_PARTICIPATE_IN :: nat where "CHECKPOINT_NUM_QUORUMS_TO_PARTICIPATE_IN \<equiv> 2"

definition default_vote_record :: checkpoint_vote_record where
  "default_vote_record = \<lparr>cv_height = INVALID_HEIGHT, cv_voted = True\<rparr>"

record proof_info =
  pr_timestamp :: u64
  effective_timestamp :: u64
  pr_votes :: "checkpoint_vote_record list"
  vote_index :: u8
  public_ips :: "(u32 \<times> u64) list"
  storage_server_reachable :: bool
  storage_server_reachable_timestamp :: u64
  public_ip :: u32
  storage_port :: u16
  storage_lmq_port :: u16
  quorumnet_port :: u16
  pr_version :: "u16 list"
  pr_pubkey_ed25519 :: pod32
  pr_pubkey_x25519 :: pod32

definition default_proof :: proof_info where
  "default_proof = \<lparr>pr_timestamp = 0, effective_timestamp = 0,
     pr_votes = replicate CHECKPOINT_NUM_QUORUMS_TO_PARTICIPATE_IN default_vote_record, vote_index = 0,
     public_ips = [(0, 0), (0, 0)], storage_server_reachable = True, storage_server_reachable_timestamp = 0,
     public_ip = 0, storage_port = 0, storage_lmq_port = 0, quorumnet_port = 0, pr_version = [0, 0, 0],
     pr_pubkey_ed25519 = null_pod, pr_pubkey_x25519 = null_pod\<rparr>"

text \<open>
  What a state sees of its list: the proofs, the records written to the database with
  \<^verbatim>\<open>set_frame_pix_proof\<close> in the order of the calls, and whether the list is rescanning.
\<close>

record proofs_env =
  proofs :: "(pod32 \<times> proof_info) list"
  proof_writes :: "(pod32 \<times> proof_info) list"
  m_rescanning :: bool

definition proof_at :: "proofs_env \<Rightarrow> pod32 \<Rightarrow> proof_info" where
  "proof_at env key = (case map_of (proofs env) key of None \<Rightarrow> default_proof | Some p \<Rightarrow> p)"

definition set_proof :: "pod32 \<Rightarrow> proof_info \<Rightarrow> proofs_env \<Rightarrow> proofs_env" where
  "set_proof key p env = env\<lparr>proofs := AList.update key p (proofs env)\<rparr>"

definition store_proof :: "pod32 \<Rightarrow> proof_info \<Rightarrow> proofs_env \<Rightarrow> proofs_env" where
  "store_proof key p env = env\<lparr>proof_writes := proof_writes env @ [(key, p)]\<rparr>"

text \<open>What the list uses of the chain, of the cryptography and of the random number generator.\<close>

record 'r chain_ops =
  tx_ops :: tx_crypto
  get_block_hash :: "block \<Rightarrow> pod32"
  db_get_block_from_height :: "u64 \<Rightarrow> block option"
  db_get_tx :: "pod32 \<Rightarrow> transaction option"
  rng_init :: "u64 \<Rightarrow> 'r"
  rng_next :: "'r rng"
  sort_sizes :: size_sort

section \<open>Transactions of a block\<close>

definition null_vvc :: vote_verification_context where
  "null_vvc = \<lparr>m_verification_failed = False, m_invalid_block_height = False, m_duplicate_voters = False,
     m_validator_index_out_of_bounds = False, m_worker_index_out_of_bounds = False, m_signature_not_valid = False,
     m_added_to_pool = False, m_not_enough_votes = False, m_incorrect_voting_group = False, m_invalid_vote_type = False,
     m_votes_not_sorted = False\<rparr>"

definition null_tvc :: tx_verification_context where
  "null_tvc = \<lparr>m_should_be_relayed = False, m_verifivation_failed = False, m_verifivation_impossible = False,
     m_tx_added_to_pool = False, m_low_mixin = False, m_double_spend = False, m_invalid_input = False,
     m_invalid_output = False, m_too_big = False, m_overspend = False, m_fee_too_low = False, m_not_rct = False,
     m_invalid_version = False, m_invalid_type = False, m_key_image_locked_by_snode = False,
     m_key_image_blacklisted = False, m_tx_extra_too_big = False, m_verbose_error = [], m_vote_ctx = null_vvc\<rparr>"

definition get_pubkey_from_quorum :: "quorum \<Rightarrow> u8 \<Rightarrow> nat \<Rightarrow> pod32 option" where
  "get_pubkey_from_quorum q grp quorum_index =
     (if grp = QG_VALIDATOR then (if quorum_index \<ge> length (validators q) then None else Some (validators q ! quorum_index))
      else if grp = QG_WORKER then (if quorum_index \<ge> length (workers q) then None else Some (workers q ! quorum_index))
      else None)"

text \<open>
  The search of the alternative states: every state of the height is tried, and the quorums kept are
  those of the last one tried, if it verified.
\<close>

fun alt_quorums_loop :: "crypto_ops \<Rightarrow> tx_extra_frame_pix_state_change \<Rightarrow> u64 \<Rightarrow> u8 \<Rightarrow> (pod32 \<times> state_t) list
    \<Rightarrow> tx_verification_context \<Rightarrow> quorum_manager option \<Rightarrow> state_error + quorum_manager option" where
  "alt_quorums_loop cr state_change height hf_version [] tvc quorums = Inr quorums"
| "alt_quorums_loop cr state_change height hf_version ((hash, alt_state) # alts) tvc quorums =
     (if st_height alt_state \<noteq> sc_block_height state_change
      then alt_quorums_loop cr state_change height hf_version alts tvc quorums
      else case qm_obligations (st_quorums alt_state) of
             None \<Rightarrow> Inl NullQuorum
           | Some q \<Rightarrow>
               let (ok, tvc') = verify_tx_state_change cr state_change height tvc q hf_version
               in alt_quorums_loop cr state_change height hf_version alts tvc' (if ok then Some (st_quorums alt_state) else None))"

definition blacklist_node :: "network_type \<Rightarrow> u64 \<Rightarrow> frame_pix_info \<Rightarrow> key_image_blacklist_entry list" where
  "blacklist_node nettype height info =
     concat (map (\<lambda>contributor. map (\<lambda>contribution. \<lparr>bl_version = 1, bl_key_image = ct_key_image contribution,
         bl_unlock_height = height + staking_num_lock_blocks nettype, bl_amount = ct_amount contribution\<rparr>)
       (locked_contributions contributor)) (contributors info))"

text \<open>The change of one node, once the quorum has been found; the block gives the version, the height and the time.\<close>

definition change_node_state :: "network_type \<Rightarrow> u8 \<Rightarrow> u64 \<Rightarrow> u64 \<Rightarrow> u16 \<Rightarrow> pod32 \<Rightarrow> frame_pix_info \<Rightarrow> state_t
    \<Rightarrow> proofs_env option \<Rightarrow> bool \<times> state_t \<times> proofs_env option" where
  "change_node_state nettype hf_version height time state key info s env =
     (let put = (\<lambda>info'. s\<lparr>frame_pixs_infos := AList.update key info' (frame_pixs_infos s)\<rparr>)
      in if state = NS_DEREGISTER then
           (True, s\<lparr>key_image_blacklist := key_image_blacklist s @
                      (if hf_version \<ge> 11 then blacklist_node nettype height info else []),
                    frame_pixs_infos := AList.delete key (frame_pixs_infos s)\<rparr>, env)
         else if state = NS_DECOMMISSION then
           if hf_version < 12 then (False, s, env)
           else if is_decommissioned info then (False, s, env)
           else (True,
                 put (info\<lparr>active_since_height := - active_since_height info,
                           last_decommission_height := height,
                           decommission_count := decommission_count info + 1,
                           swarm_id := (if hf_version \<ge> 13 then UNASSIGNED_SWARM_ID else swarm_id info)\<rparr>),
                 map_option (\<lambda>e. if m_rescanning e then e
                   else let proof = (proof_at e key)\<lparr>pr_timestamp := 0, effective_timestamp := 0\<rparr>
                        in store_proof key proof (set_proof key proof e)) env)
         else if state = NS_RECOMMISSION then
           if hf_version < 12 then (False, s, env)
           else if \<not> is_decommissioned info then (False, s, env)
           else (True,
                 put (info\<lparr>active_since_height := height,
                           last_reward_block_height := height,
                           last_reward_transaction_index := - 1\<rparr>),
                 map_option (\<lambda>e. set_proof key ((proof_at e key)\<lparr>effective_timestamp := time,
                     pr_votes := replicate CHECKPOINT_NUM_QUORUMS_TO_PARTICIPATE_IN default_vote_record\<rparr>) e) env)
         else if state = NS_IP_CHANGE_PENALTY then
           if hf_version < 12 then (False, s, env)
           else if is_decommissioned info then (False, s, env)
           else (True,
                 put (info\<lparr>last_reward_block_height := height,
                           last_reward_transaction_index := - 1,
                           last_ip_change_height := height\<rparr>), env)
         else (False, s, env))"

definition process_state_change_tx :: "crypto_ops \<Rightarrow> state_set \<Rightarrow> state_set \<Rightarrow> (pod32 \<times> state_t) list \<Rightarrow> network_type
    \<Rightarrow> block \<Rightarrow> transaction \<Rightarrow> state_t \<Rightarrow> proofs_env option \<Rightarrow> state_error + bool \<times> state_t \<times> proofs_env option" where
  "process_state_change_tx cr state_history state_archive alt_states nettype blk tx s env =
     (if tx_type tx \<noteq> TXTYPE_STATE_CHANGE then Inr (False, s, env)
      else let hf_version = major_version blk; height = get_block_height blk
      in case get_frame_pix_state_change_from_tx_extra (extra tx) hf_version of
        None \<Rightarrow> Inr (False, s, env)
      | Some state_change \<Rightarrow>
         (case (case state_set_find (sc_block_height state_change) state_history of
                  None \<Rightarrow> state_set_find (sc_block_height state_change) state_archive
                | found \<Rightarrow> found) of
            None \<Rightarrow> Inr (False, s, env)
          | Some entry \<Rightarrow>
             (case qm_obligations (st_quorums entry) of
                None \<Rightarrow> Inl NullQuorum
              | Some q \<Rightarrow>
                 let (ok, tvc) = verify_tx_state_change cr state_change height null_tvc q hf_version
                 in bindE (if ok then Inr (Some (st_quorums entry))
                           else alt_quorums_loop cr state_change height hf_version alt_states tvc None)
                   (\<lambda>quorums. case quorums of
                      None \<Rightarrow> Inr (False, s, env)
                    | Some qm \<Rightarrow>
                       (case qm_obligations qm of
                          None \<Rightarrow> Inl NullQuorum
                        | Some ob \<Rightarrow>
                           (case get_pubkey_from_quorum ob QG_WORKER (unat (frame_pix_index state_change)) of
                              None \<Rightarrow> Inr (False, s, env)
                            | Some key \<Rightarrow>
                               (case map_of (frame_pixs_infos s) key of
                                  None \<Rightarrow> Inr (False, s, env)
                                | Some info \<Rightarrow>
                                   Inr (change_node_state nettype hf_version height (timestamp blk) (sc_state state_change)
                                          key info s env))))))))"

text \<open>The contributor that locked the key image, by the first of its contributions with that image.\<close>

fun find_unlock :: "pod32 \<Rightarrow> contributor_t list \<Rightarrow> contribution_t option" where
  "find_unlock ki [] = None"
| "find_unlock ki (c # cs) =
     (case find (\<lambda>contribution. ki = ct_key_image contribution) (locked_contributions c) of
        None \<Rightarrow> find_unlock ki cs
      | Some cit \<Rightarrow> Some cit)"

definition process_key_image_unlock_tx :: "crypto_ops \<Rightarrow> network_type \<Rightarrow> u64 \<Rightarrow> transaction \<Rightarrow> state_t \<Rightarrow> bool \<times> state_t" where
  "process_key_image_unlock_tx cr nettype height tx s =
     (case get_frame_pix_pubkey_from_tx_extra (extra tx) of
        None \<Rightarrow> (False, s)
      | Some snode_key \<Rightarrow>
         (case map_of (frame_pixs_infos s) snode_key of
            None \<Rightarrow> (False, s)
          | Some node_info \<Rightarrow>
              if requested_unlock_height node_info \<noteq> KEY_IMAGE_AWAITING_UNLOCK_HEIGHT then (False, s)
              else (case get_tx_key_image_unlock_from_tx_extra (extra tx) of
                 None \<Rightarrow> (False, s)
               | Some unlock \<Rightarrow>
                  let unlock_height = get_locked_key_image_unlock_height nettype (registration_height node_info) height
                  in (case find_unlock (unlock_key_image unlock) (contributors node_info) of
                       None \<Rightarrow> (False, s)
                     | Some cit \<Rightarrow>
                         let hash = generate_request_stake_unlock_hash (unlock_nonce unlock)
                         in if check_signature cr hash (key_image_pub_key cit) (unlock_signature unlock)
                            then (True, s\<lparr>frame_pixs_infos := AList.update snode_key
                                    (node_info\<lparr>requested_unlock_height := unlock_height\<rparr>) (frame_pixs_infos s)\<rparr>)
                            else (False, s)))))"

definition process_registration_tx :: "tx_crypto \<Rightarrow> network_type \<Rightarrow> block \<Rightarrow> transaction \<Rightarrow> u32 \<Rightarrow> state_t
    \<Rightarrow> proofs_env option \<Rightarrow> bool \<times> state_t \<times> proofs_env option" where
  "process_registration_tx cr nettype blk tx index s env =
     (let hf_version = major_version blk; time = timestamp blk; height = get_block_height blk
      in case is_registration_tx cr nettype hf_version tx time height index default_info of
           None \<Rightarrow> (False, s, env)
         | Some (key, info) \<Rightarrow>
            (let put = (\<lambda>info'. s\<lparr>frame_pixs_infos := AList.update key info' (frame_pixs_infos s)\<rparr>)
             in if hf_version \<ge> 11 then
                  (case map_of (frame_pixs_infos s) key of
                     Some old_info \<Rightarrow> (False, s, env)
                   | None \<Rightarrow>
                      (True, put info,
                       map_option (\<lambda>e. if m_rescanning e then e else store_proof key default_proof (set_proof key default_proof e)) env))
                else
                  (case map_of (frame_pixs_infos s) key of
                     None \<Rightarrow> (True, put info, env)
                   | Some old_info \<Rightarrow>
                      if hf_version \<ge> 10 then
                        let expiry_height = registration_height old_info + staking_num_lock_blocks nettype
                        in if height < expiry_height then (False, s, env)
                           else (True, put (info\<lparr>last_reward_block_height := last_reward_block_height old_info,
                                                 last_reward_transaction_index := last_reward_transaction_index old_info\<rparr>), env)
                      else (False, s, env))))"

definition process_contribution_tx :: "tx_crypto \<Rightarrow> network_type \<Rightarrow> block \<Rightarrow> transaction \<Rightarrow> u32 \<Rightarrow> state_t \<Rightarrow> bool \<times> state_t" where
  "process_contribution_tx cr nettype blk tx index s =
     (let height = get_block_height blk; hf_version = major_version blk
      in case get_frame_pix_pubkey_from_tx_extra (extra tx) of
           None \<Rightarrow> (False, s)
         | Some pubkey \<Rightarrow>
            (case get_contribution cr nettype hf_version tx height of
               None \<Rightarrow> (False, s)
             | Some parsed \<Rightarrow>
                (case map_of (frame_pixs_infos s) pubkey of
                   None \<Rightarrow> (False, s)
                 | Some curinfo \<Rightarrow>
                     if is_fully_funded curinfo then (False, s)
                     else (case get_tx_secret_key_from_tx_extra (extra tx) of
                        None \<Rightarrow> (False, s)
                      | Some tx_key \<Rightarrow>
                          if \<not> contribution_acceptable hf_version curinfo parsed then (False, s)
                          else let info = add_contribution hf_version height index parsed curinfo
                               in (is_fully_funded info,
                                   s\<lparr>frame_pixs_infos := AList.update pubkey info (frame_pixs_infos s)\<rparr>)))))"

section \<open>Expiry\<close>

definition expired_by_record :: "network_type \<Rightarrow> u64 \<Rightarrow> frame_pix_info \<Rightarrow> bool" where
  "expired_by_record nettype height info =
     (if registration_hf_version info \<ge> 11
      then requested_unlock_height info \<noteq> KEY_IMAGE_AWAITING_UNLOCK_HEIGHT \<and> height > requested_unlock_height info
      else height > registration_height info + staking_num_lock_blocks nettype + STAKING_REQUIREMENT_LOCK_BLOCKS_EXCESS)"

definition get_expired_nodes :: "'r chain_ops \<Rightarrow> network_type \<Rightarrow> u8 \<Rightarrow> u64 \<Rightarrow> state_t \<Rightarrow> pod32 list" where
  "get_expired_nodes ops nettype hf_version height s =
     (let lock_blocks = staking_num_lock_blocks nettype
      in if hf_version = 9 then
           if height \<le> lock_blocks then []
           else let expired_nodes_block_height = height - lock_blocks
                in (case db_get_block_from_height ops expired_nodes_block_height of
                      None \<Rightarrow> []
                    | Some blk \<Rightarrow>
                        if major_version blk < 9 then []
                        else List.map_filter
                               (\<lambda>hash. case db_get_tx ops hash of
                                  None \<Rightarrow> None
                                | Some tx \<Rightarrow> map_option fst (is_registration_tx (tx_ops ops) nettype 9 tx (timestamp blk)
                                               expired_nodes_block_height 0 default_info))
                               (tx_hashes blk))
         else map fst (filter (\<lambda>e. expired_by_record nettype height (snd e)) (frame_pixs_infos s)))"

section \<open>The winner of a block\<close>

record payout_entry =
  payout_address :: account_public_address
  payout_portions :: u64

record block_winner =
  winner_key :: pod32
  payouts :: "payout_entry list"

definition null_block_winner :: block_winner where
  "null_block_winner = \<lparr>winner_key = null_pod, payouts = [\<lparr>payout_address = null_address, payout_portions = STAKING_PORTIONS\<rparr>]\<rparr>"

type_synonym waiting = "u64 \<times> u32 \<times> pod32"

definition waiting_less :: "waiting \<Rightarrow> waiting \<Rightarrow> bool" where
  "waiting_less a b = (case a of (h1, i1, k1) \<Rightarrow> case b of (h2, i2, k2) \<Rightarrow>
     h1 < h2 \<or> (h1 = h2 \<and> (i1 < i2 \<or> (i1 = i2 \<and> k1 < k2))))"

definition oldest_step :: "pod32 \<times> frame_pix_info \<Rightarrow> waiting \<times> frame_pix_info option \<Rightarrow> waiting \<times> frame_pix_info option" where
  "oldest_step entry acc =
     (case entry of (key, sninfo) \<Rightarrow>
        if is_active sninfo \<and>
           waiting_less (last_reward_block_height sninfo, last_reward_transaction_index sninfo, key) (fst acc)
        then ((last_reward_block_height sninfo, last_reward_transaction_index sninfo, key), Some sninfo)
        else acc)"

definition payout_of :: "frame_pix_info \<Rightarrow> contributor_t \<Rightarrow> payout_entry" where
  "payout_of info contributor =
     (let remaining_portions = STAKING_PORTIONS - portions_for_operator info
      in case mul128 (cb_amount contributor) remaining_portions of (hi, lo) \<Rightarrow>
         case div128_64 hi lo (staking_requirement info) of (resulthi, resultlo, _) \<Rightarrow>
           \<lparr>payout_address = cb_address contributor,
            payout_portions = (if cb_address contributor = operator_address info
              then resultlo + portions_for_operator info else resultlo)\<rparr>)"

definition get_block_winner :: "state_t \<Rightarrow> block_winner" where
  "get_block_winner s =
     (case fold oldest_step (frame_pixs_infos s) ((U64_MAX, - 1, null_pod), None) of
        ((_, _, key), info) \<Rightarrow>
          if key = null_pod then null_block_winner
          else case info of
                 None \<Rightarrow> null_block_winner
               | Some i \<Rightarrow> \<lparr>winner_key = key, payouts = map (payout_of i) (contributors i)\<rparr>)"

section \<open>Quorums\<close>

definition sort_and_filter :: "(frame_pix_info \<Rightarrow> bool) \<Rightarrow> frame_pixs_infos_t \<Rightarrow> frame_pixs_infos_t" where
  "sort_and_filter p infos = sort_key fst (filter (\<lambda>e. p (snd e)) infos)"

definition active_frame_pixs_infos :: "state_t \<Rightarrow> frame_pixs_infos_t" where
  "active_frame_pixs_infos s = sort_and_filter is_active (frame_pixs_infos s)"

definition decommissioned_frame_pixs_infos :: "state_t \<Rightarrow> frame_pixs_infos_t" where
  "decommissioned_frame_pixs_infos s =
     sort_and_filter (\<lambda>info. is_decommissioned info \<and> is_fully_funded info) (frame_pixs_infos s)"

definition quorum_type_number :: "quorum_type \<Rightarrow> u64" where
  "quorum_type_number type = (case type of obligations \<Rightarrow> 0 | checkpointing \<Rightarrow> 1 | blink \<Rightarrow> 2)"

definition hash_seed :: "pod32 \<Rightarrow> u64" where
  "hash_seed hash = word_of_le (take 8 (bytes_of_pod hash))"

definition generate_shuffled_frame_pix_index_list :: "'r chain_ops \<Rightarrow> nat \<Rightarrow> pod32 \<Rightarrow> quorum_type \<Rightarrow> nat \<Rightarrow> nat
    \<Rightarrow> state_error + nat list" where
  "generate_shuffled_frame_pix_index_list ops list_size hash type sublist_size sublist_up_to =
     (let result = [0..<list_size];
          seed = hash_seed hash + quorum_type_number type;
          shuffle = (\<lambda>xs. liftE (shuffle_portable (rng_init ops) (rng_next ops) xs seed))
      in if (0 < sublist_size \<and> sublist_size < list_size) \<and> (0 < sublist_up_to \<and> sublist_up_to < list_size) then
           if \<not> sublist_size \<le> sublist_up_to then Inl (SwarmError AssertFailed)
           else bindE (shuffle (take sublist_up_to result))
             (\<lambda>front. let result1 = front @ drop sublist_up_to result
               in bindE (shuffle (drop sublist_size result1)) (\<lambda>back. Inr (take sublist_size result1 @ back)))
         else shuffle result)"

text \<open>The end of the loop over the quorum types: the keys at the first indexes, then those at the next.\<close>

definition fill_quorum :: "frame_pixs_infos_t \<Rightarrow> frame_pixs_infos_t \<Rightarrow> nat list \<Rightarrow> nat \<Rightarrow> nat \<Rightarrow> state_error + quorum" where
  "fill_quorum active_snode_list decomm_snode_list pub_keys_indexes num_validators num_workers =
     (let vs = take num_validators pub_keys_indexes;
          ws = take num_workers (drop num_validators pub_keys_indexes);
          n = length active_snode_list
      in if length pub_keys_indexes < num_validators + num_workers \<or> list_ex (\<lambda>j. j \<ge> n) vs
            \<or> list_ex (\<lambda>j. j \<ge> n + length decomm_snode_list) ws
         then Inl OutOfBounds
         else Inr \<lparr>validators = map (\<lambda>j. fst (active_snode_list ! j)) vs,
                   workers = map (\<lambda>j. if j < n then fst (active_snode_list ! j) else fst (decomm_snode_list ! (j - n))) ws\<rparr>)"

definition generate_obligations :: "'r chain_ops \<Rightarrow> state_t \<Rightarrow> frame_pixs_infos_t \<Rightarrow> frame_pixs_infos_t \<Rightarrow> state_error + quorum" where
  "generate_obligations ops s active_snode_list decomm_snode_list =
     (let total_nodes = length active_snode_list + length decomm_snode_list;
          num_validators = min (length active_snode_list) STATE_CHANGE_QUORUM_SIZE
      in bindE (generate_shuffled_frame_pix_index_list ops total_nodes (st_block_hash s) obligations num_validators
                  (length active_snode_list))
        (\<lambda>pub_keys_indexes.
          let num_remaining_nodes = total_nodes - num_validators;
              num_workers = min num_remaining_nodes
                (max STATE_CHANGE_MIN_NODES_TO_TEST (num_remaining_nodes div STATE_CHANGE_NTH_OF_THE_NETWORK_TO_TEST))
          in fill_quorum active_snode_list decomm_snode_list pub_keys_indexes num_validators num_workers))"

definition generate_checkpointing :: "'r chain_ops \<Rightarrow> network_type \<Rightarrow> state_t \<Rightarrow> frame_pixs_infos_t \<Rightarrow> frame_pixs_infos_t
    \<Rightarrow> state_error + quorum option" where
  "generate_checkpointing ops nettype s active_snode_list decomm_snode_list =
     (if (st_height s + REORG_SAFETY_BUFFER_BLOCKS_POST_HF12) mod CHECKPOINT_INTERVAL \<noteq> 0 then Inr None
      else let total_nodes = length active_snode_list +
                 (if nettype = TESTNET \<and> st_height s < 85357 then length decomm_snode_list else 0)
           in if total_nodes \<ge> CHECKPOINT_QUORUM_SIZE then
                bindE (generate_shuffled_frame_pix_index_list ops total_nodes (st_block_hash s) checkpointing 0 0)
                  (\<lambda>pub_keys_indexes. bindE (fill_quorum active_snode_list decomm_snode_list pub_keys_indexes
                     (min (length pub_keys_indexes) CHECKPOINT_QUORUM_SIZE) 0) (\<lambda>q. Inr (Some q)))
              else Inr (Some \<lparr>validators = [], workers = []\<rparr>))"

definition generate_blink :: "'r chain_ops \<Rightarrow> state_t \<Rightarrow> frame_pixs_infos_t \<Rightarrow> state_error + quorum option" where
  "generate_blink ops s all_active =
     (if st_height s mod BLINK_QUORUM_INTERVAL \<noteq> 0 then Inr None
      else let active_until = st_height s + BLINK_EXPIRY_BUFFER;
               active_snode_list = filter (\<lambda>e. \<not> (requested_unlock_height (snd e) \<noteq> KEY_IMAGE_AWAITING_UNLOCK_HEIGHT
                 \<and> requested_unlock_height (snd e) \<le> active_until)) all_active;
               total_nodes = length active_snode_list
           in if total_nodes \<ge> BLINK_MIN_VOTES then
                bindE (generate_shuffled_frame_pix_index_list ops total_nodes (st_block_hash s) blink 0 0)
                  (\<lambda>pub_keys_indexes. bindE (fill_quorum active_snode_list [] pub_keys_indexes
                     (min (length pub_keys_indexes) BLINK_SUBQUORUM_SIZE) 0) (\<lambda>q. Inr (Some q)))
              else Inr (Some \<lparr>validators = [], workers = []\<rparr>))"

definition generate_quorums :: "'r chain_ops \<Rightarrow> network_type \<Rightarrow> u8 \<Rightarrow> state_t \<Rightarrow> state_error + quorum_manager" where
  "generate_quorums ops nettype hf_version s =
     (if st_block_hash s = null_pod then Inl (SwarmError AssertFailed)
      else let active_snode_list = active_frame_pixs_infos s;
               decomm_snode_list = (if hf_version \<ge> 12 then decommissioned_frame_pixs_infos s else []);
               max_type = max_quorum_type_for_hf hf_version
           in bindE (generate_obligations ops s active_snode_list decomm_snode_list)
             (\<lambda>ob. bindE (if quorum_type_number checkpointing \<le> quorum_type_number max_type
                          then generate_checkpointing ops nettype s active_snode_list decomm_snode_list else Inr None)
               (\<lambda>cp. bindE (if quorum_type_number blink \<le> quorum_type_number max_type
                            then generate_blink ops s active_snode_list else Inr None)
                 (\<lambda>bl. Inr \<lparr>qm_obligations = Some ob, qm_checkpointing = cp, qm_blink = bl\<rparr>))))"

section \<open>A block\<close>

fun process_txs :: "'r chain_ops \<Rightarrow> state_set \<Rightarrow> state_set \<Rightarrow> (pod32 \<times> state_t) list \<Rightarrow> network_type \<Rightarrow> block \<Rightarrow> nat
    \<Rightarrow> transaction list \<Rightarrow> bool \<Rightarrow> state_t \<Rightarrow> proofs_env option \<Rightarrow> state_error + bool \<times> state_t \<times> proofs_env option" where
  "process_txs ops hist arch alts nettype blk index [] need_swarm_update s env = Inr (need_swarm_update, s, env)"
| "process_txs ops hist arch alts nettype blk index (tx # txs) need_swarm_update s env =
     (let max_tx_type = get_max_type_for_hf (major_version blk);
          staking_tx_type = (if max_tx_type < TXTYPE_STAKE then TXTYPE_STANDARD else TXTYPE_STAKE)
      in if tx_type tx = staking_tx_type then
           (case process_registration_tx (tx_ops ops) nettype blk tx (of_nat index) s env of (_, s1, env1) \<Rightarrow>
            case process_contribution_tx (tx_ops ops) nettype blk tx (of_nat index) s1 of (funded, s2) \<Rightarrow>
              process_txs ops hist arch alts nettype blk (Suc index) txs (need_swarm_update \<or> funded) s2 env1)
         else if tx_type tx = TXTYPE_STATE_CHANGE then
           bindE (process_state_change_tx (base_crypto (tx_ops ops)) hist arch alts nettype blk tx s env)
             (\<lambda>(changed, s1, env1). process_txs ops hist arch alts nettype blk (Suc index) txs (need_swarm_update \<or> changed) s1 env1)
         else if tx_type tx = TXTYPE_KEY_IMAGE_UNLOCK then
           (case process_key_image_unlock_tx (base_crypto (tx_ops ops)) nettype (get_block_height blk) tx s of (_, s1) \<Rightarrow>
              process_txs ops hist arch alts nettype blk (Suc index) txs need_swarm_update s1 env)
         else process_txs ops hist arch alts nettype blk (Suc index) txs need_swarm_update s env)"

definition existing_swarms :: "frame_pixs_infos_t \<Rightarrow> swarm_snode_map_t" where
  "existing_swarms active =
     fold (\<lambda>(key, info) m. swarm_update (swarm_id info) (\<lambda>v. v @ [key]) (swarm_insert (swarm_id info) [] m)) active []"

fun apply_swarms :: "(u64 \<times> pod32) list \<Rightarrow> frame_pixs_infos_t \<Rightarrow> state_error + frame_pixs_infos_t" where
  "apply_swarms [] infos = Inr infos"
| "apply_swarms ((sid, snode) # rest) infos =
     (case map_of infos snode of
        None \<Rightarrow> Inl (SwarmError OutOfRange)
      | Some info \<Rightarrow>
          if swarm_id info = sid then apply_swarms rest infos
          else apply_swarms rest (AList.update snode (info\<lparr>swarm_id := sid\<rparr>) infos))"

definition update_swarms :: "'r chain_ops \<Rightarrow> block \<Rightarrow> state_t \<Rightarrow> state_error + state_t" where
  "update_swarms ops blk s =
     bindE (liftE (calc_swarm_changes (rng_init ops) (rng_next ops) (sort_sizes ops)
                    (existing_swarms (active_frame_pixs_infos s)) (hash_seed (get_block_hash ops blk))))
       (\<lambda>swarms. bindE (apply_swarms (concat (map (\<lambda>(sid, snodes). map (Pair sid) snodes) swarms)) (frame_pixs_infos s))
         (\<lambda>infos. Inr (s\<lparr>frame_pixs_infos := infos\<rparr>)))"

definition expire_nodes :: "pod32 list \<Rightarrow> frame_pixs_infos_t \<Rightarrow> bool \<times> frame_pixs_infos_t" where
  "expire_nodes keys infos =
     fold (\<lambda>pubkey (need_swarm_update, infos). case map_of infos pubkey of
              None \<Rightarrow> (need_swarm_update, infos)
            | Some info \<Rightarrow> (need_swarm_update \<or> is_active info, AList.delete pubkey infos)) keys (False, infos)"

definition advance_winner :: "pod32 \<Rightarrow> u64 \<Rightarrow> frame_pixs_infos_t \<Rightarrow> frame_pixs_infos_t" where
  "advance_winner winner_pubkey height infos =
     (case map_of infos winner_pubkey of
        None \<Rightarrow> infos
      | Some info \<Rightarrow> AList.update winner_pubkey
          (info\<lparr>last_reward_block_height := height, last_reward_transaction_index := - 1\<rparr>) infos)"

text \<open>What happens before the transactions: the height, the blacklist, the expired nodes and the winner.\<close>

definition begin_block :: "'r chain_ops \<Rightarrow> network_type \<Rightarrow> block \<Rightarrow> state_t \<Rightarrow> bool \<times> state_t" where
  "begin_block ops nettype blk s =
     (let height = get_block_height blk;
          hf_version = major_version blk;
          s1 = s\<lparr>st_height := st_height s + 1, st_quorums := no_quorums, st_block_hash := get_block_hash ops blk,
                 key_image_blacklist := (if hf_version \<ge> 11
                   then filter (\<lambda>entry. \<not> height \<ge> bl_unlock_height entry) (key_image_blacklist s)
                   else key_image_blacklist s)\<rparr>;
          (need_swarm_update, infos) = expire_nodes (get_expired_nodes ops nettype hf_version height s1) (frame_pixs_infos s1);
          winner_pubkey = get_frame_pix_winner_from_tx_extra (extra (miner_tx blk))
      in (need_swarm_update, s1\<lparr>frame_pixs_infos := advance_winner winner_pubkey height infos\<rparr>))"

definition update_from_block :: "'r chain_ops \<Rightarrow> network_type \<Rightarrow> state_set \<Rightarrow> state_set \<Rightarrow> (pod32 \<times> state_t) list
    \<Rightarrow> block \<Rightarrow> transaction list \<Rightarrow> state_t \<Rightarrow> proofs_env option \<Rightarrow> state_error + state_t \<times> proofs_env option" where
  "update_from_block ops nettype state_history state_archive alt_states blk txs s env =
     (if st_height s + 1 \<noteq> get_block_height blk then Inl (SwarmError AssertFailed)
      else case begin_block ops nettype blk s of (expired_active, s2) \<Rightarrow>
        bindE (process_txs ops state_history state_archive alt_states nettype blk 0 txs expired_active s2 env)
          (\<lambda>(need_swarm_update, s3, env3).
            bindE (if need_swarm_update then update_swarms ops blk s3 else Inr s3)
              (\<lambda>s4. bindE (generate_quorums ops nettype (major_version blk) s4)
                (\<lambda>quorums. Inr (s4\<lparr>st_quorums := quorums\<rparr>, env3)))))"

section \<open>The invariant of a state\<close>

definition infos_ok :: "frame_pixs_infos_t \<Rightarrow> bool" where
  "infos_ok infos \<longleftrightarrow> distinct (map fst infos) \<and> (\<forall>key info. map_of infos key = Some info \<longrightarrow> info_ok info)"

named_theorems info_updates

lemma info_ok_updates [info_updates, simp]:
  "info_ok (info\<lparr>last_reward_block_height := h\<rparr>) = info_ok info"
  "info_ok (info\<lparr>last_reward_transaction_index := i\<rparr>) = info_ok info"
  "info_ok (info\<lparr>requested_unlock_height := h\<rparr>) = info_ok info"
  "info_ok (info\<lparr>active_since_height := h\<rparr>) = info_ok info"
  "info_ok (info\<lparr>last_decommission_height := h\<rparr>) = info_ok info"
  "info_ok (info\<lparr>decommission_count := i\<rparr>) = info_ok info"
  "info_ok (info\<lparr>swarm_id := h\<rparr>) = info_ok info"
  "info_ok (info\<lparr>last_ip_change_height := h\<rparr>) = info_ok info"
  by (simp_all add: info_ok_def)

lemma infos_ok_Nil [simp]: "infos_ok []"
  by (simp add: infos_ok_def)

lemma infos_ok_update: "infos_ok infos \<Longrightarrow> info_ok info \<Longrightarrow> infos_ok (AList.update key info infos)"
  by (auto simp: infos_ok_def distinct_update update_conv' split: if_splits)

lemma infos_ok_delete: "infos_ok infos \<Longrightarrow> infos_ok (AList.delete key infos)"
  by (auto simp: infos_ok_def distinct_delete delete_conv' split: if_splits)

lemma infos_ok_lookup: "infos_ok infos \<Longrightarrow> map_of infos key = Some info \<Longrightarrow> info_ok info"
  by (simp add: infos_ok_def)

lemmas infos_ok_intros = infos_ok_update infos_ok_delete

lemma expire_nodes_ok: "infos_ok infos \<Longrightarrow> infos_ok (snd (expire_nodes keys infos))"
proof -
  have "infos_ok (snd acc) \<Longrightarrow> infos_ok (snd (fold (\<lambda>pubkey (need, infos). case map_of infos pubkey of
      None \<Rightarrow> (need, infos) | Some info \<Rightarrow> (need \<or> is_active info, AList.delete pubkey infos)) keys acc))" for acc :: "bool \<times> _"
    by (induction keys arbitrary: acc) (auto simp: infos_ok_delete split: option.splits prod.splits)
  then show "infos_ok infos \<Longrightarrow> ?thesis" by (simp add: expire_nodes_def)
qed

lemma advance_winner_ok: "infos_ok infos \<Longrightarrow> infos_ok (advance_winner key height infos)"
  by (auto simp: advance_winner_def split: option.splits intro!: infos_ok_update intro: infos_ok_lookup)

lemma apply_swarms_ok: "apply_swarms ids infos = Inr infos' \<Longrightarrow> infos_ok infos \<Longrightarrow> infos_ok infos'"
proof (induction ids infos rule: apply_swarms.induct)
  case (2 sid snode rest infos)
  then obtain info where i: "map_of infos snode = Some info" by (auto split: option.splits)
  have "infos_ok (AList.update snode (info\<lparr>swarm_id := sid\<rparr>) infos)"
    using "2.prems"(2) infos_ok_lookup [OF "2.prems"(2) i] by (simp add: infos_ok_update)
  then show ?case using 2 i by (cases "swarm_id info = sid") simp_all
qed simp

lemma update_swarms_ok:
  "update_swarms ops blk s = Inr s' \<Longrightarrow> infos_ok (frame_pixs_infos s) \<Longrightarrow> infos_ok (frame_pixs_infos s')"
  by (auto simp: update_swarms_def bindE_Inr_iff dest: apply_swarms_ok)

lemma change_node_state_ok:
  assumes "infos_ok (frame_pixs_infos s)" "map_of (frame_pixs_infos s) key = Some info"
  shows "infos_ok (frame_pixs_infos (fst (snd (change_node_state nettype hf height time state key info s env))))"
  using assms infos_ok_lookup [OF assms] by (simp add: change_node_state_def Let_def infos_ok_intros)

lemma process_state_change_tx_ok:
  assumes "process_state_change_tx cr hist arch alts nettype blk tx s env = Inr (b, s', env')" "infos_ok (frame_pixs_infos s)"
  shows "infos_ok (frame_pixs_infos s')"
  using assms(1) change_node_state_ok [OF assms(2)] assms(2) unfolding process_state_change_tx_def Let_def
  by (auto simp: bindE_Inr_iff split: if_splits option.splits prod.splits) (metis fst_conv snd_conv)+

lemma process_key_image_unlock_tx_ok:
  "infos_ok (frame_pixs_infos s) \<Longrightarrow> infos_ok (frame_pixs_infos (snd (process_key_image_unlock_tx cr nettype height tx s)))"
  by (auto simp: process_key_image_unlock_tx_def Let_def split: option.splits intro!: infos_ok_update intro: infos_ok_lookup)

lemma process_registration_tx_ok:
  "infos_ok (frame_pixs_infos s) \<Longrightarrow> infos_ok (frame_pixs_infos (fst (snd (process_registration_tx cr nettype blk tx index s env))))"
  by (auto simp: process_registration_tx_def Let_def split: option.splits intro!: infos_ok_update dest: is_registration_tx_ok(1))

lemma process_contribution_tx_ok:
  "infos_ok (frame_pixs_infos s) \<Longrightarrow> infos_ok (frame_pixs_infos (snd (process_contribution_tx cr nettype blk tx index s)))"
  by (auto simp: process_contribution_tx_def Let_def split: option.splits
      intro!: infos_ok_update add_contribution_props(1) intro: infos_ok_lookup)

lemma process_txs_ok:
  "process_txs ops hist arch alts nettype blk index txs need s env = Inr (need', s', env') \<Longrightarrow> infos_ok (frame_pixs_infos s)
   \<Longrightarrow> infos_ok (frame_pixs_infos s')"
proof (induction txs arbitrary: index need s env)
  case (Cons tx txs)
  let ?reg = "process_registration_tx (tx_ops ops) nettype blk tx (of_nat index) s env"
  let ?con = "process_contribution_tx (tx_ops ops) nettype blk tx (of_nat index) (fst (snd ?reg))"
  let ?key = "process_key_image_unlock_tx (base_crypto (tx_ops ops)) nettype (get_block_height blk) tx s"
  have "infos_ok (frame_pixs_infos (fst (snd ?reg)))" using Cons.prems(2) by (rule process_registration_tx_ok)
  then have "infos_ok (frame_pixs_infos (snd ?con))" by (rule process_contribution_tx_ok)
  moreover have "infos_ok (frame_pixs_infos (snd ?key))" using Cons.prems(2) by (rule process_key_image_unlock_tx_ok)
  ultimately show ?case
    using Cons.prems Cons.IH process_state_change_tx_ok [of "base_crypto (tx_ops ops)" hist arch alts nettype blk tx s env]
    by (auto simp: Let_def bindE_Inr_iff split: if_splits prod.splits)
qed simp

lemma begin_block_props:
  "st_height (snd (begin_block ops nettype blk s)) = st_height s + 1"
  "st_block_hash (snd (begin_block ops nettype blk s)) = get_block_hash ops blk"
  "only_loaded_quorums (snd (begin_block ops nettype blk s)) = only_loaded_quorums s"
  by (simp_all add: begin_block_def Let_def split: prod.splits)

lemma begin_block_ok:
  assumes "infos_ok (frame_pixs_infos s)"
  shows "infos_ok (frame_pixs_infos (snd (begin_block ops nettype blk s)))"
  using expire_nodes_ok [OF assms]
  by (simp add: begin_block_def Let_def advance_winner_ok split: prod.split) (metis snd_conv advance_winner_ok)

lemma update_from_block_Inr:
  assumes "update_from_block ops nettype hist arch alts blk txs s env = Inr (s', env')"
  obtains need s3 s4 quorums where "st_height s + 1 = get_block_height blk"
    "process_txs ops hist arch alts nettype blk 0 txs (fst (begin_block ops nettype blk s)) (snd (begin_block ops nettype blk s)) env
       = Inr (need, s3, env')"
    "(if need then update_swarms ops blk s3 else Inr s3) = Inr s4"
    "generate_quorums ops nettype (major_version blk) s4 = Inr quorums" "s' = s4\<lparr>st_quorums := quorums\<rparr>"
proof (cases "begin_block ops nettype blk s")
  case (Pair ea s2)
  then show ?thesis
    using assms that by (auto simp: update_from_block_def bindE_Inr_iff split: if_split_asm)
qed

lemma update_from_block_ok:
  assumes "update_from_block ops nettype hist arch alts blk txs s env = Inr (s', env')" "infos_ok (frame_pixs_infos s)"
  shows "infos_ok (frame_pixs_infos s')"
  using assms(1)
proof (rule update_from_block_Inr)
  fix need s3 s4 quorums
  assume p: "process_txs ops hist arch alts nettype blk 0 txs (fst (begin_block ops nettype blk s)) (snd (begin_block ops nettype blk s)) env
       = Inr (need, s3, env')" and w: "(if need then update_swarms ops blk s3 else Inr s3) = Inr s4"
    and r: "s' = s4\<lparr>st_quorums := quorums\<rparr>"
  have "infos_ok (frame_pixs_infos s3)" using process_txs_ok [OF p] begin_block_ok assms(2) by blast
  then have "infos_ok (frame_pixs_infos s4)" using w update_swarms_ok by (cases need) auto
  then show ?thesis by (simp add: r)
qed

section \<open>The winner has waited longest\<close>

definition waiting_of :: "pod32 \<times> frame_pix_info \<Rightarrow> waiting" where
  "waiting_of e = (last_reward_block_height (snd e), last_reward_transaction_index (snd e), fst e)"

lemma waiting_less_trans: "waiting_less a b \<Longrightarrow> waiting_less b c \<Longrightarrow> waiting_less a c"
  by (auto simp: waiting_less_def split: prod.splits)

lemma waiting_less_irrefl [simp]: "\<not> waiting_less a a"
  by (auto simp: waiting_less_def split: prod.splits)

lemma waiting_less_total: "a = b \<or> waiting_less a b \<or> waiting_less b a"
  by (auto simp: waiting_less_def split: prod.splits)

lemma waiting_not_less_trans: "\<not> waiting_less b a \<Longrightarrow> \<not> waiting_less c b \<Longrightarrow> \<not> waiting_less c a"
  using waiting_less_trans waiting_less_total by metis

lemma oldest_step_cases:
  "oldest_step e acc = (if is_active (snd e) \<and> waiting_less (waiting_of e) (fst acc) then (waiting_of e, Some (snd e)) else acc)"
  by (cases e) (simp add: oldest_step_def waiting_of_def)

lemma fold_oldest:
  "fold oldest_step infos acc = (w, oi) \<Longrightarrow>
     ((w, oi) = acc \<or> (\<exists>e \<in> set infos. is_active (snd e) \<and> w = waiting_of e \<and> oi = Some (snd e) \<and> waiting_less w (fst acc)))
     \<and> (\<forall>e \<in> set infos. is_active (snd e) \<longrightarrow> \<not> waiting_less (waiting_of e) w) \<and> \<not> waiting_less (fst acc) w"
proof (induction infos arbitrary: acc)
  case (Cons e infos)
  from Cons.IH [of "oldest_step e acc"] Cons.prems show ?case
    unfolding oldest_step_cases
    by (cases "is_active (snd e) \<and> waiting_less (waiting_of e) (fst acc)")
      (auto intro: waiting_less_trans dest: waiting_less_trans waiting_not_less_trans)
qed simp

text \<open>
  C10. The winner of a block is the active service node that has waited longest: every other active node
  has a strictly later last reward, by height, then by position in the block, then by key. The
  order in which the hash table is iterated does not matter. The payouts are those of the contributors of
  the winner.
\<close>

theorem get_block_winner_oldest:
  assumes "distinct (map fst (frame_pixs_infos s))" "null_pod \<notin> set (map fst (frame_pixs_infos s))"
    "\<forall>e \<in> set (frame_pixs_infos s). last_reward_block_height (snd e) < U64_MAX"
    "\<exists>e \<in> set (frame_pixs_infos s). is_active (snd e)"
  shows "\<exists>info. map_of (frame_pixs_infos s) (winner_key (get_block_winner s)) = Some info \<and> is_active info
    \<and> payouts (get_block_winner s) = map (payout_of info) (contributors info)
    \<and> (\<forall>key other. map_of (frame_pixs_infos s) key = Some other \<and> is_active other \<and> key \<noteq> winner_key (get_block_winner s)
         \<longrightarrow> waiting_less (waiting_of (winner_key (get_block_winner s), info)) (waiting_of (key, other)))"
proof -
  let ?infos = "frame_pixs_infos s" and ?init = "((U64_MAX, - 1, null_pod), None) :: waiting \<times> frame_pix_info option"
  obtain w oi where f: "fold oldest_step ?infos ?init = (w, oi)" by fastforce
  obtain a where a: "a \<in> set ?infos" "is_active (snd a)" using assms(4) by blast
  have "waiting_less (waiting_of a) (fst ?init)" using assms(3) a(1) by (simp add: waiting_less_def waiting_of_def)
  then have "(w, oi) \<noteq> ?init" using fold_oldest [OF f] a by auto
  then obtain e where e: "e \<in> set ?infos" "is_active (snd e)" "w = waiting_of e" "oi = Some (snd e)"
    and least: "\<forall>e \<in> set ?infos. is_active (snd e) \<longrightarrow> \<not> waiting_less (waiting_of e) w"
    using fold_oldest [OF f] by blast
  have k: "fst e \<noteq> null_pod" using assms(2) e(1) by auto
  have win: "get_block_winner s = \<lparr>winner_key = fst e, payouts = map (payout_of (snd e)) (contributors (snd e))\<rparr>"
    using k f e(3,4) by (simp add: get_block_winner_def waiting_of_def)
  have "map_of ?infos (fst e) = Some (snd e)" using assms(1) e(1) by simp
  moreover have "waiting_less (waiting_of (fst e, snd e)) (waiting_of (key, other))"
    if "map_of ?infos key = Some other" "is_active other" "key \<noteq> fst e" for key other
    using least map_of_SomeD [OF that(1)] that(2,3) e(3) waiting_less_total [of w "waiting_of (key, other)"]
    by (auto simp: waiting_of_def)
  ultimately show ?thesis using e(2) by (auto simp: win)
qed

definition sample_state :: state_t where
  "sample_state = initial_state\<lparr>frame_pixs_infos :=
     [(7, sample_info\<lparr>last_reward_block_height := 20, total_contributed := 100\<rparr>), (9, sample_info\<lparr>last_reward_block_height := 12, total_contributed := 100\<rparr>),
      (4, sample_info\<lparr>last_reward_block_height := 3\<rparr>)]\<rparr>"

theorem get_block_winner_oldest_witness:
  "\<exists>info. map_of (frame_pixs_infos sample_state) (winner_key (get_block_winner sample_state)) = Some info \<and> is_active info
     \<and> (winner_key (get_block_winner sample_state) \<noteq> 7 \<longrightarrow>
          waiting_less (waiting_of (winner_key (get_block_winner sample_state), info))
            (waiting_of (7, sample_info\<lparr>last_reward_block_height := 20, total_contributed := 100\<rparr>)))"
proof -
  note defs = sample_state_def initial_state_def sample_info_def default_info_def is_active_def is_fully_funded_def is_decommissioned_def
  have "distinct (map fst (frame_pixs_infos sample_state))" "null_pod \<notin> set (map fst (frame_pixs_infos sample_state))"
    "\<forall>e \<in> set (frame_pixs_infos sample_state). last_reward_block_height (snd e) < U64_MAX"
    "\<exists>e \<in> set (frame_pixs_infos sample_state). is_active (snd e)"
    "map_of (frame_pixs_infos sample_state) 7 = Some (sample_info\<lparr>last_reward_block_height := 20, total_contributed := 100\<rparr>)"
    "is_active (sample_info\<lparr>last_reward_block_height := 20, total_contributed := 100\<rparr>)"
    by (simp_all add: defs)
  then show ?thesis using get_block_winner_oldest [of sample_state] by metis
qed

section \<open>The payouts share one reward\<close>

lemma sum_list_one_match:
  "distinct (map f cs) \<Longrightarrow> a \<in> set (map f cs) \<Longrightarrow> (\<Sum>c\<leftarrow>cs. if f c = a then k else 0) = (k :: nat)"
proof (induction cs)
  case (Cons c cs)
  have "a \<notin> set (map f cs) \<Longrightarrow> (\<Sum>c\<leftarrow>cs. if f c = a then k else 0) = 0"
    by (induction cs) auto
  then show ?case using Cons by (cases "f c = a") auto
qed simp

definition share_of :: "frame_pix_info \<Rightarrow> contributor_t \<Rightarrow> nat" where
  "share_of info c = unat (cb_amount c) * (18446744073709551612 - unat (portions_for_operator info)) div unat (staking_requirement info)"

lemma info_ok_bounds:
  assumes "info_ok info"
  shows "0 < unat (staking_requirement info)" "portions_for_operator info \<le> STAKING_PORTIONS"
    "unat (portions_for_operator info) \<le> 18446744073709551612"
  using assms by (auto simp: info_ok_def word_less_nat_alt word_le_nat_alt)

lemma payout_portions_unat:
  assumes "info_ok info" "c \<in> set (contributors info)"
  shows "unat (payout_portions (payout_of info c)) =
    share_of info c + (if cb_address c = operator_address info then unat (portions_for_operator info) else 0)"
proof -
  let ?P = "STAKING_PORTIONS" and ?O = "portions_for_operator info" and ?S = "staking_requirement info"
  have s: "0 < unat ?S" and o: "?O \<le> ?P" using info_ok_bounds [OF assms(1)] by blast+
  have r: "unat (?P - ?O) = 18446744073709551612 - unat ?O" using unat_sub_u64_no_wrap [OF o] by simp
  obtain i where i: "i < length (contributors info)" "contributors info ! i = c" using assms(2) by (auto simp: in_set_conv_nth)
  have "totals_ok (contributors info) (total_contributed info) (total_reserved info) ?S" using assms(1) by (simp add: info_ok_def)
  from contributor_room(2-4) [OF this i(1)] have a: "unat (cb_amount c) \<le> unat ?S" using i(2) by simp
  obtain hi lo where m: "mul128 (cb_amount c) (?P - ?O) = (hi, lo)" by fastforce
  obtain qh ql rm where d: "div128_64 hi lo ?S = (qh, ql, rm)" by (cases "div128_64 hi lo ?S")
  have "share_of info c \<le> unat ?S * (18446744073709551612 - unat ?O) div unat ?S"
    unfolding share_of_def using a by (intro div_le_mono mult_le_mono1)
  then have le: "share_of info c \<le> 18446744073709551612 - unat ?O" using s by simp
  have "?S \<noteq> 0" using s by auto
  then have "unat ql = share_of info c mod 2 ^ 64"
    using div128_64_lo [OF d] mul128_exact [OF m] by (simp add: share_of_def r)
  then have q: "unat ql = share_of info c" using le by simp
  have "unat ?O \<le> 18446744073709551612" using o by (simp add: word_le_nat_alt)
  then have "unat (ql + ?O) = share_of info c + unat ?O"
    using le q by (subst unat_add_u64_no_wrap) simp_all
  then show ?thesis using q by (simp add: payout_of_def Let_def m d)
qed

lemma sum_div_ge: "0 < k \<Longrightarrow> (\<Sum>x\<leftarrow>xs. f x) \<le> (\<Sum>x\<leftarrow>xs. f x div k) * k + length xs * (k :: nat)"
proof (induction xs)
  case (Cons x xs)
  have "f x \<le> f x div k * k + k" using Cons.prems by (metis div_mult_mod_eq add_le_cancel_left less_imp_le mod_less_divisor)
  then show ?case using Cons by (simp add: algebra_simps)
qed simp

lemma payouts_sum:
  assumes "info_ok info"
  shows "(\<Sum>p\<leftarrow>map (payout_of info) (contributors info). unat (payout_portions p)) =
    (\<Sum>c\<leftarrow>contributors info. share_of info c) + unat (portions_for_operator info)"
proof -
  let ?op = "\<lambda>c. if cb_address c = operator_address info then unat (portions_for_operator info) else 0"
  have "(\<Sum>p\<leftarrow>map (payout_of info) (contributors info). unat (payout_portions p)) =
      (\<Sum>c\<leftarrow>contributors info. share_of info c + ?op c)"
    unfolding map_map o_def by (intro arg_cong [where f = sum_list] list.map_cong0 payout_portions_unat [OF assms])
  also have "\<dots> = (\<Sum>c\<leftarrow>contributors info. share_of info c) + (\<Sum>c\<leftarrow>contributors info. ?op c)" by (rule sum_list_addf)
  also have "(\<Sum>c\<leftarrow>contributors info. ?op c) = unat (portions_for_operator info)"
    using assms by (intro sum_list_one_match) (simp_all add: info_ok_def)
  finally show ?thesis .
qed

lemma payouts_portions:
  assumes "info_ok info"
  shows "(\<Sum>p\<leftarrow>map (payout_of info) (contributors info). unat (payout_portions p)) \<le> unat STAKING_PORTIONS
    \<and> (is_fully_funded info \<longrightarrow>
        unat STAKING_PORTIONS \<le> (\<Sum>p\<leftarrow>map (payout_of info) (contributors info). unat (payout_portions p)) + length (contributors info))"
proof -
  let ?R = "18446744073709551612 - unat (portions_for_operator info)" and ?S = "unat (staking_requirement info)"
  note s = info_ok_bounds(1) [OF assms] and o = info_ok_bounds(3) [OF assms]
  have a: "(\<Sum>c\<leftarrow>contributors info. unat (cb_amount c)) = unat (total_contributed info)"
    using assms by (simp add: info_ok_def totals_ok_def)
  have tot: "(\<Sum>c\<leftarrow>contributors info. unat (cb_amount c) * ?R) = unat (total_contributed info) * ?R"
    by (simp add: sum_list_mult_const a)
  have le: "unat (total_contributed info) \<le> ?S" using info_ok_contributed_le [OF assms] by (simp add: word_le_nat_alt)
  have "(\<Sum>c\<leftarrow>contributors info. share_of info c) \<le> unat (total_contributed info) * ?R div ?S"
    using sum_div_le [of "\<lambda>c. unat (cb_amount c) * ?R" ?S "contributors info"] by (simp add: share_of_def tot)
  also have "\<dots> \<le> ?S * ?R div ?S" using le by (intro div_le_mono mult_le_mono1)
  finally have up: "(\<Sum>c\<leftarrow>contributors info. share_of info c) \<le> ?R" using s by simp
  have "?R \<le> (\<Sum>c\<leftarrow>contributors info. share_of info c) + length (contributors info)" if "is_fully_funded info"
  proof -
    have "unat (total_contributed info) = ?S" using that le by (simp add: is_fully_funded_def word_le_nat_alt)
    then have "?S * ?R \<le> ((\<Sum>c\<leftarrow>contributors info. share_of info c) + length (contributors info)) * ?S"
      using sum_div_ge [OF s, of "\<lambda>c. unat (cb_amount c) * ?R" "contributors info"] tot by (simp add: share_of_def add_mult_distrib)
    then show ?thesis using s by (metis mult.commute mult_le_cancel1)
  qed
  then show ?thesis using up o payouts_sum [OF assms] by auto
qed

text \<open>
  C12. The portions paid out to the contributors of a service node never exceed the portions of one reward,
  and for a fully funded node they fall short of it by at most one portion per contributor. Each
  contributor gets its share of what the operator does not take, the operator its fee on top.
\<close>

theorem payouts_bounded:
  assumes "info_ok info"
  shows "(\<Sum>p\<leftarrow>map (payout_of info) (contributors info). unat (payout_portions p)) \<le> unat STAKING_PORTIONS
    \<and> (is_fully_funded info \<longrightarrow>
        unat STAKING_PORTIONS \<le> (\<Sum>p\<leftarrow>map (payout_of info) (contributors info). unat (payout_portions p)) + length (contributors info))"
  using assms by (rule payouts_portions)

theorem payouts_bounded_witness:
  "(\<Sum>p\<leftarrow>map (payout_of sample_info) (contributors sample_info). unat (payout_portions p)) \<le> unat STAKING_PORTIONS"
  using payouts_bounded [OF sample_info_ok] by blast

end
