(* ===== verification/Framepix_Quorums.thy ===== *)
theory Framepix_Quorums
  imports Framepix_State
begin

text \<open>
  The quorums a state generates for its height, and the whole update of a state by a block: with a live
  random number generator \<^const>\<open>generate_quorums\<close> returns, the members of a quorum are distinct nodes
  of the right kind and number, and a validator of the obligations quorum never tests itself. A
  block keeps the records of the nodes in order, and only a vote of a stored quorum changes
  the state of a node.
\<close>

section \<open>Indexes\<close>

lemma set_mset_upt: "mset r = mset [0..<n] \<Longrightarrow> set r = {..<n} \<and> distinct r \<and> length r = n"
proof -
  assume m: "mset r = mset [0..<n]"
  then have "set r = {..<n}" by (metis set_mset_mset atLeast_upt)
  moreover have "distinct r" using m by (metis distinct_upt mset_eq_imp_distinct_iff)
  moreover have "length r = n" using m by (metis mset_eq_length length_upt minus_nat.diff_0)
  ultimately show ?thesis by blast
qed

lemma shuffled_indexes:
  fixes ops :: "'r chain_ops" and hash :: pod32 and type :: quorum_type
  assumes "rng_live (rng_next ops)" "n < 2 ^ 64" "k \<le> m" "m \<le> n"
  shows "\<exists>r. generate_shuffled_frame_pix_index_list ops n hash type k m = Inr r \<and> mset r = mset [0..<n] \<and> set (take k r) \<subseteq> {..<m}"
proof -
  let ?seed = "hash_seed hash + quorum_type_number type"
  have sh: "\<exists>ys. shuffle_portable (rng_init ops) (rng_next ops) xs ?seed = Inr ys \<and> mset ys = mset xs"
    if "length xs \<le> n" for xs :: "nat list"
    using shuffle_portable_returns [OF assms(1), of xs "rng_init ops" ?seed] that assms(2) by simp
  show ?thesis
  proof (cases "(0 < k \<and> k < n) \<and> (0 < m \<and> m < n)")
    case True
    obtain f where f: "shuffle_portable (rng_init ops) (rng_next ops) (take m [0..<n]) ?seed = Inr f" "mset f = mset (take m [0..<n])"
      using sh [of "take m [0..<n]"] assms(4) by auto
    define rr where "rr = f @ drop m [0..<n]"
    have mr: "mset rr = mset [0..<n]" unfolding rr_def using f(2) by (metis append_take_drop_id mset_append)
    then have len: "length rr = n" by (metis mset_eq_length length_upt minus_nat.diff_0)
    obtain b where b: "shuffle_portable (rng_init ops) (rng_next ops) (drop k rr) ?seed = Inr b" "mset b = mset (drop k rr)"
      using sh [of "drop k rr"] len by auto
    have "take m [0..<n] = [0..<m]" using assms(4) by (simp add: take_upt)
    then have fm: "set f = {..<m}" "length f = m" using set_mset_upt f(2) by metis+
    have run: "generate_shuffled_frame_pix_index_list ops n hash type k m = Inr (take k rr @ b)"
      using True assms(3) f(1) b(1) unfolding rr_def by (simp only: generate_shuffled_frame_pix_index_list_def Let_def liftE.simps bindE.simps if_True not_True_eq_False if_False simp_thms)
    have "mset (take k rr @ b) = mset rr" using b(2) by (metis append_take_drop_id mset_append)
    moreover have "take k (take k rr @ b) = take k f" using assms(3) fm(2) len True by (simp add: rr_def)
    ultimately show ?thesis using run mr fm(1) by (metis set_take_subset)
  next
    case False
    obtain r where r: "shuffle_portable (rng_init ops) (rng_next ops) [0..<n] ?seed = Inr r" "mset r = mset [0..<n]"
      using sh [of "[0..<n]"] by auto
    have "set (take k r) \<subseteq> {..<m}"
    proof (cases "k = 0")
      case f: False
      then have "m = n" using False assms(3,4) by linarith
      then show ?thesis using set_mset_upt [OF r(2)] set_take_subset by metis
    qed simp
    then show ?thesis using r False by (auto simp: generate_shuffled_frame_pix_index_list_def Let_def)
  qed
qed

section \<open>Filling a quorum\<close>

definition member_at :: "frame_pixs_infos_t \<Rightarrow> frame_pixs_infos_t \<Rightarrow> nat \<Rightarrow> pod32" where
  "member_at active decomm j = fst ((active @ decomm) ! j)"

lemma fill_quorum_Inr:
  assumes "mset r = mset [0..<n]" "n \<le> length active + length decomm" "nv + nw \<le> n" "set (take nv r) \<subseteq> {..<length active}"
  shows "fill_quorum active decomm r nv nw =
    Inr \<lparr>validators = map (member_at active decomm) (take nv r), workers = map (member_at active decomm) (take nw (drop nv r))\<rparr>"
proof -
  note r = set_mset_upt [OF assms(1)]
  have w: "j < length active + length decomm" if "j \<in> set (take nw (drop nv r))" for j
    using in_set_dropD [OF in_set_takeD [OF that]] r assms(2) by auto
  have v: "j < length active" if "j \<in> set (take nv r)" for j using that assms(4) by auto
  have "\<not> list_ex (\<lambda>j. j \<ge> length active) (take nv r)" using v by (fastforce simp: list_ex_iff)
  moreover have "\<not> list_ex (\<lambda>j. j \<ge> length active + length decomm) (take nw (drop nv r))" using w by (fastforce simp: list_ex_iff)
  moreover have "map (\<lambda>j. fst (active ! j)) (take nv r) = map (member_at active decomm) (take nv r)"
    using v by (intro list.map_cong0) (simp add: member_at_def nth_append)
  moreover have "map (\<lambda>j. if j < length active then fst (active ! j) else fst (decomm ! (j - length active))) (take nw (drop nv r)) =
      map (member_at active decomm) (take nw (drop nv r))"
    by (intro list.map_cong0) (simp add: member_at_def nth_append)
  ultimately show ?thesis using r assms(3) by (simp add: fill_quorum_def Let_def)
qed

lemma quorum_members:
  assumes "mset r = mset [0..<n]" "n \<le> length active + length decomm" "distinct (map fst (active @ decomm))"
    "nv + nw \<le> n" "set (take nv r) \<subseteq> {..<length active}"
  defines "vs \<equiv> map (member_at active decomm) (take nv r)" and "ws \<equiv> map (member_at active decomm) (take nw (drop nv r))"
  shows "distinct (vs @ ws)" "set vs \<subseteq> fst ` set active" "set ws \<subseteq> fst ` set active \<union> fst ` set decomm" "length vs = nv" "length ws = nw"
proof -
  note r = set_mset_upt [OF assms(1)]
  have all: "vs @ ws = map (member_at active decomm) (take (nv + nw) r)"
    by (simp add: vs_def ws_def take_add)
  have "inj_on (member_at active decomm) {..<n} \<longleftrightarrow> inj_on ((!) (map fst (active @ decomm))) {..<n}"
    using assms(2) by (intro inj_on_cong) (simp add: member_at_def del: map_append)
  moreover have "inj_on ((!) (map fst (active @ decomm))) {..<n}"
    using assms(2) by (intro inj_on_nth [OF assms(3)]) auto
  ultimately have "inj_on (member_at active decomm) {..<n}" by blast
  then have "inj_on (member_at active decomm) (set (take (nv + nw) r))"
    by (rule inj_on_subset) (use r in \<open>auto dest: in_set_takeD\<close>)
  then show "distinct (vs @ ws)" unfolding all distinct_map using r by simp
  show "set vs \<subseteq> fst ` set active"
    unfolding vs_def set_map
  proof (rule image_subsetI)
    fix j assume "j \<in> set (take nv r)"
    then have "j < length active" using assms(5) by blast
    then show "member_at active decomm j \<in> fst ` set active" by (simp add: member_at_def nth_append)
  qed
  show "set ws \<subseteq> fst ` set active \<union> fst ` set decomm"
    unfolding ws_def set_map image_Un [symmetric] set_append [symmetric]
  proof (rule image_subsetI)
    fix j assume "j \<in> set (take nw (drop nv r))"
    then have "j \<in> set r" by (auto dest!: in_set_takeD in_set_dropD)
    then have "j < length (active @ decomm)" using r assms(2) by simp
    then show "member_at active decomm j \<in> fst ` set (active @ decomm)"
      unfolding member_at_def by (intro imageI nth_mem)
  qed
  show "length vs = nv" "length ws = nw" using r assms(4) by (simp_all add: vs_def ws_def)
qed

section \<open>The lists the members are drawn from\<close>

definition node_is :: "state_t \<Rightarrow> (frame_pix_info \<Rightarrow> bool) \<Rightarrow> pod32 \<Rightarrow> bool" where
  "node_is s P key \<longleftrightarrow> (\<exists>info. map_of (frame_pixs_infos s) key = Some info \<and> P info)"

lemma sort_and_filter_keys:
  assumes "distinct (map fst infos)"
  shows "distinct (map fst (sort_and_filter P infos))"
    "fst ` set (sort_and_filter P infos) = {key. \<exists>info. map_of infos key = Some info \<and> P info}"
proof -
  have "mset (map fst (sort_and_filter P infos)) = mset (map fst (filter (\<lambda>e. P (snd e)) infos))"
    by (simp add: sort_and_filter_def)
  then show "distinct (map fst (sort_and_filter P infos))"
    using distinct_map_filter [OF assms] by (metis mset_eq_imp_distinct_iff)
  have "key \<in> fst ` set (sort_and_filter P infos) \<longleftrightarrow> (\<exists>info. (key, info) \<in> set infos \<and> P info)" for key
    by (force simp: sort_and_filter_def)
  then show "fst ` set (sort_and_filter P infos) = {key. \<exists>info. map_of infos key = Some info \<and> P info}"
    using assms by auto
qed

definition decomm_list :: "u8 \<Rightarrow> state_t \<Rightarrow> frame_pixs_infos_t" where
  "decomm_list hf s = (if hf \<ge> 12 then decommissioned_frame_pixs_infos s else [])"

lemma snode_lists:
  assumes "distinct (map fst (frame_pixs_infos s))"
  shows "distinct (map fst (active_frame_pixs_infos s @ decomm_list hf s))"
    "fst ` set (active_frame_pixs_infos s) = {key. node_is s is_active key}"
    "fst ` set (decomm_list hf s) \<subseteq> {key. 12 \<le> hf \<and> node_is s (\<lambda>i. is_decommissioned i \<and> is_fully_funded i) key}"
    "length (active_frame_pixs_infos s) + length (decomm_list hf s) \<le> length (frame_pixs_infos s)"
proof -
  show a: "fst ` set (active_frame_pixs_infos s) = {key. node_is s is_active key}"
    unfolding active_frame_pixs_infos_def node_is_def by (rule sort_and_filter_keys [OF assms])
  show d: "fst ` set (decomm_list hf s) \<subseteq> {key. 12 \<le> hf \<and> node_is s (\<lambda>i. is_decommissioned i \<and> is_fully_funded i) key}"
    unfolding decomm_list_def decommissioned_frame_pixs_infos_def node_is_def
    using sort_and_filter_keys(2) [OF assms, of "\<lambda>i. is_decommissioned i \<and> is_fully_funded i"] by (cases "12 \<le> hf") simp_all
  have dis: "fst ` set (active_frame_pixs_infos s) \<inter> fst ` set (decomm_list hf s) = {}"
    using a d by (auto simp: node_is_def is_active_def)
  then show dd: "distinct (map fst (active_frame_pixs_infos s @ decomm_list hf s))"
    using sort_and_filter_keys(1) [OF assms]
    by (auto simp: active_frame_pixs_infos_def decomm_list_def decommissioned_frame_pixs_infos_def)
  have "set (map fst (active_frame_pixs_infos s @ decomm_list hf s)) \<subseteq> set (map fst (frame_pixs_infos s))"
  proof
    fix key assume "key \<in> set (map fst (active_frame_pixs_infos s @ decomm_list hf s))"
    then have "\<exists>info. map_of (frame_pixs_infos s) key = Some info" using a d by (auto simp: node_is_def)
    then show "key \<in> set (map fst (frame_pixs_infos s))" by (metis domI dom_map_of_conv_image_fst set_map)
  qed
  from card_mono [OF _ this] have "card (set (map fst (active_frame_pixs_infos s @ decomm_list hf s))) \<le> length (frame_pixs_infos s)"
    using card_length [of "map fst (frame_pixs_infos s)"] by simp
  then show "length (active_frame_pixs_infos s) + length (decomm_list hf s) \<le> length (frame_pixs_infos s)"
    using distinct_card [OF dd] by simp
qed

section \<open>The three quorums\<close>

definition obligations_ok :: "u8 \<Rightarrow> state_t \<Rightarrow> quorum \<Rightarrow> bool" where
  "obligations_ok hf s q \<longleftrightarrow>
     distinct (validators q @ workers q)
     \<and> (\<forall>key \<in> set (validators q). node_is s is_active key)
     \<and> (\<forall>key \<in> set (workers q). node_is s is_active key \<or> 12 \<le> hf \<and> node_is s (\<lambda>i. is_decommissioned i \<and> is_fully_funded i) key)
     \<and> length (validators q) = min (length (active_frame_pixs_infos s)) 5
     \<and> length (workers q) = (let rest = length (active_frame_pixs_infos s) + length (decomm_list hf s) - length (validators q)
                             in min rest (max 50 (rest div 100)))"

definition node_count :: "state_t \<Rightarrow> (frame_pix_info \<Rightarrow> bool) \<Rightarrow> nat" where
  "node_count s P = length (filter (\<lambda>e. P (snd e)) (frame_pixs_infos s))"

text \<open>A quorum without workers: none below the least number of nodes, up to the most otherwise.\<close>

definition validators_only :: "state_t \<Rightarrow> (frame_pix_info \<Rightarrow> bool) \<Rightarrow> nat \<Rightarrow> nat \<Rightarrow> quorum \<Rightarrow> bool" where
  "validators_only s P least most q \<longleftrightarrow>
     workers q = [] \<and> distinct (validators q) \<and> (\<forall>key \<in> set (validators q). node_is s P key)
     \<and> length (validators q) = (if node_count s P < least then 0 else min (node_count s P) most)"

lemma generate_obligations_ok:
  assumes "rng_live (rng_next ops)" "distinct (map fst (frame_pixs_infos s))" "length (frame_pixs_infos s) < 2 ^ 64"
  shows "\<exists>q. generate_obligations ops s (active_frame_pixs_infos s) (decomm_list hf s) = Inr q \<and> obligations_ok hf s q"
proof -
  let ?a = "active_frame_pixs_infos s" and ?d = "decomm_list hf s"
  let ?n = "length ?a + length ?d" and ?nv = "min (length ?a) 5"
  let ?nw = "min (?n - ?nv) (max 50 ((?n - ?nv) div 100))"
  note l = snode_lists(1) [OF assms(2), of hf] snode_lists(2) [OF assms(2)] snode_lists(3,4) [OF assms(2), of hf]
  obtain r where r: "generate_shuffled_frame_pix_index_list ops ?n (st_block_hash s) obligations ?nv (length ?a) = Inr r"
      "mset r = mset [0..<?n]" "set (take ?nv r) \<subseteq> {..<length ?a}"
    using shuffled_indexes [OF assms(1), of ?n ?nv "length ?a" "st_block_hash s" obligations] l(4) assms(3) by auto
  have n: "?nv + ?nw \<le> ?n" by linarith
  note q = fill_quorum_Inr [OF r(2) _ n r(3)] quorum_members [OF r(2) _ l(1) n r(3)]
  have "generate_obligations ops s ?a ?d = Inr \<lparr>validators = map (member_at ?a ?d) (take ?nv r),
      workers = map (member_at ?a ?d) (take ?nw (drop ?nv r))\<rparr>"
    using r(1) q(1) by (simp add: generate_obligations_def Let_def)
  moreover have "obligations_ok hf s \<lparr>validators = map (member_at ?a ?d) (take ?nv r), workers = map (member_at ?a ?d) (take ?nw (drop ?nv r))\<rparr>"
    unfolding obligations_ok_def Let_def quorum.select_convs q(5) [OF order_refl] q(6) [OF order_refl]
  proof (intro conjI ballI)
    show "node_is s is_active key" if "key \<in> set (map (member_at ?a ?d) (take ?nv r))" for key
      using that q(3) [OF order_refl] l(2) by blast
    show "node_is s is_active key \<or> 12 \<le> hf \<and> node_is s (\<lambda>i. is_decommissioned i \<and> is_fully_funded i) key"
      if "key \<in> set (map (member_at ?a ?d) (take ?nw (drop ?nv r)))" for key
      using that q(4) [OF order_refl] l(2,3) by blast
  qed (rule refl q(2) [OF order_refl])+
  ultimately show ?thesis by blast
qed

lemma plain_quorum_ok:
  assumes "rng_live (rng_next ops)" "distinct (map fst active)" "length active < 2 ^ 64" "\<And>key. key \<in> fst ` set active \<Longrightarrow> node_is s P key"
    "length active = node_count s P" "least \<le> length active"
  shows "\<exists>r q. generate_shuffled_frame_pix_index_list ops (length active) hash type 0 0 = Inr r
    \<and> fill_quorum active decomm r (min (length r) n) 0 = Inr q \<and> validators_only s P least n q"
proof -
  obtain r where r: "generate_shuffled_frame_pix_index_list ops (length active) hash type 0 0 = Inr r" "mset r = mset [0..<length active]"
    using shuffled_indexes [OF assms(1,3), of 0 0 hash type] by auto
  have len: "length r = length active" "set r = {..<length active}" using set_mset_upt [OF r(2)] by simp_all
  then have v: "set (take (min (length r) n) r) \<subseteq> {..<length active}" using set_take_subset by metis
  have m: "length active \<le> length active + length decomm" "min (length r) n + 0 \<le> length active" using len by simp_all
  have f: "fill_quorum active decomm r (min (length r) n) 0 =
      Inr \<lparr>validators = map (member_at active decomm) (take (min (length r) n) r), workers = []\<rparr>"
    using fill_quorum_Inr [OF r(2) m v] by simp
  have eq: "map (member_at active decomm) (take (min (length r) n) r) = map (member_at active []) (take (min (length r) n) r)"
    using v by (intro list.map_cong0) (auto simp: member_at_def nth_append)
  have "distinct (map fst (active @ []))" using assms(2) by simp
  from quorum_members [OF r(2) _ this, of "min (length r) n" 0] v m
  have "distinct (map (member_at active []) (take (min (length r) n) r))"
    "set (map (member_at active []) (take (min (length r) n) r)) \<subseteq> fst ` set active"
    "length (map (member_at active []) (take (min (length r) n) r)) = min (length r) n" by simp_all
  then have "validators_only s P least n \<lparr>validators = map (member_at active decomm) (take (min (length r) n) r), workers = []\<rparr>"
    unfolding validators_only_def eq using assms(4-6) len(1) by auto
  then show ?thesis using r(1) f by blast
qed

lemma validators_only_none: "node_count s P < least \<Longrightarrow> validators_only s P least most \<lparr>validators = [], workers = []\<rparr>"
  by (simp add: validators_only_def)

lemma active_node_count: "length (active_frame_pixs_infos s) = node_count s is_active"
  by (simp add: active_frame_pixs_infos_def sort_and_filter_def node_count_def)

lemma active_filter_count: "length (filter (\<lambda>e. Q (snd e)) (active_frame_pixs_infos s)) = node_count s (\<lambda>i. is_active i \<and> Q i)"
proof -
  have "mset (filter (\<lambda>e. Q (snd e)) (active_frame_pixs_infos s)) = mset (filter (\<lambda>e. is_active (snd e) \<and> Q (snd e)) (frame_pixs_infos s))"
    by (simp add: active_frame_pixs_infos_def sort_and_filter_def filter_filter_mset conj_commute)
  from mset_eq_length [OF this] show ?thesis by (simp add: node_count_def)
qed

lemma generate_checkpointing_ok:
  assumes "rng_live (rng_next ops)" "distinct (map fst (frame_pixs_infos s))" "length (frame_pixs_infos s) < 2 ^ 64"
    "nettype = TESTNET \<and> st_height s < 85357 \<longrightarrow> d = []"
  shows "\<exists>oq. generate_checkpointing ops nettype s (active_frame_pixs_infos s) d = Inr oq
    \<and> (oq = None \<longleftrightarrow> (st_height s + 11) mod 4 \<noteq> 0) \<and> (\<forall>q. oq = Some q \<longrightarrow> validators_only s is_active 2 2 q)"
proof -
  let ?a = "active_frame_pixs_infos s"
  have d: "distinct (map fst ?a)" and n: "length ?a < 2 ^ 64" and m: "\<And>key. key \<in> fst ` set ?a \<Longrightarrow> node_is s is_active key"
    using snode_lists(1) [OF assms(2), of 0] snode_lists(2) [OF assms(2)] snode_lists(4) [OF assms(2), of 0] assms(3) by auto
  have total: "length ?a + (if nettype = TESTNET \<and> st_height s < 85357 then length d else 0) = length ?a" using assms(4) by simp
  show ?thesis
  proof (cases "2 \<le> length ?a")
    case True
    then obtain r q where q: "generate_shuffled_frame_pix_index_list ops (length ?a) (st_block_hash s) checkpointing 0 0 = Inr r"
        "fill_quorum ?a d r (min (length r) 2) 0 = Inr q" "validators_only s is_active 2 2 q"
      using plain_quorum_ok [of ops ?a s is_active 2 "st_block_hash s" checkpointing d 2, OF assms(1) d n m active_node_count] by blast
    then show ?thesis
      unfolding generate_checkpointing_def Let_def total using True by (cases "(st_height s + 11) mod 4 = 0") simp_all
  next
    case False
    then have "validators_only s is_active 2 2 \<lparr>validators = [], workers = []\<rparr>"
      by (intro validators_only_none) (simp add: active_node_count)
    then show ?thesis
      unfolding generate_checkpointing_def Let_def total using False by (cases "(st_height s + 11) mod 4 = 0") simp_all
  qed
qed

abbreviation (input) stays_staked :: "state_t \<Rightarrow> frame_pix_info \<Rightarrow> bool" where
  "stays_staked s i \<equiv> is_active i \<and> (requested_unlock_height i = 0 \<or> requested_unlock_height i > st_height s + 45)"

lemma generate_blink_ok:
  assumes "rng_live (rng_next ops)" "distinct (map fst (frame_pixs_infos s))" "length (frame_pixs_infos s) < 2 ^ 64"
  shows "\<exists>oq. generate_blink ops s (active_frame_pixs_infos s) = Inr oq
    \<and> (oq = None \<longleftrightarrow> st_height s mod 5 \<noteq> 0) \<and> (\<forall>q. oq = Some q \<longrightarrow> validators_only s (\<lambda>i. stays_staked s i) 3 4 q)"
proof -
  let ?a = "active_frame_pixs_infos s"
  define b where "b = filter (\<lambda>e. \<not> (requested_unlock_height (snd e) \<noteq> 0 \<and> requested_unlock_height (snd e) \<le> st_height s + 45)) ?a"
  have "distinct (map fst ?a)" "length ?a < 2 ^ 64"
    using snode_lists(1) [OF assms(2), of 0] snode_lists(4) [OF assms(2), of 0] assms(3) by auto
  then have d: "distinct (map fst b)" and n: "length b < 2 ^ 64"
    unfolding b_def by (simp only: distinct_map_filter, meson length_filter_le le_less_trans)
  have m: "node_is s (\<lambda>i. stays_staked s i) key" if "key \<in> fst ` set b" for key
  proof -
    obtain info where i: "(key, info) \<in> set ?a" "\<not> (requested_unlock_height info \<noteq> 0 \<and> requested_unlock_height info \<le> st_height s + 45)"
      using \<open>key \<in> fst ` set b\<close> by (auto simp: b_def)
    have "map_of (frame_pixs_infos s) key = Some info" "is_active info"
      using i(1) assms(2) by (auto simp: active_frame_pixs_infos_def sort_and_filter_def)
    then show ?thesis using i(2) by (auto simp: node_is_def not_le)
  qed
  have count: "length b = node_count s (\<lambda>i. stays_staked s i)"
    using active_filter_count [of "\<lambda>i. \<not> (requested_unlock_height i \<noteq> 0 \<and> requested_unlock_height i \<le> st_height s + 45)" s]
    by (simp add: b_def not_le)
  show ?thesis
  proof (cases "3 \<le> length b")
    case True
    then obtain r q where q: "generate_shuffled_frame_pix_index_list ops (length b) (st_block_hash s) blink 0 0 = Inr r"
        "fill_quorum b [] r (min (length r) 4) 0 = Inr q" "validators_only s (\<lambda>i. stays_staked s i) 3 4 q"
      using plain_quorum_ok [of ops b s "\<lambda>i. stays_staked s i" 3 "st_block_hash s" blink "[]" 4, OF assms(1) d n m count] by blast
    then show ?thesis
      unfolding generate_blink_def Let_def b_def [symmetric] using True by (cases "st_height s mod 5 = 0") simp_all
  next
    case False
    then have "validators_only s (\<lambda>i. stays_staked s i) 3 4 \<lparr>validators = [], workers = []\<rparr>"
      by (intro validators_only_none) (simp add: count)
    then show ?thesis
      unfolding generate_blink_def Let_def b_def [symmetric] using False by (cases "st_height s mod 5 = 0") simp_all
  qed
qed

lemma generate_quorums_returns:
  assumes "rng_live (rng_next ops)" "distinct (map fst (frame_pixs_infos s))" "length (frame_pixs_infos s) < 2 ^ 64"
    "st_block_hash s \<noteq> null_pod"
    "nettype = TESTNET \<and> st_height s < 85357 \<longrightarrow> hf < 13 \<or> decommissioned_frame_pixs_infos s = []"
  shows "\<exists>qm ob. generate_quorums ops nettype hf s = Inr qm \<and> qm_obligations qm = Some ob \<and> obligations_ok hf s ob
    \<and> (qm_checkpointing qm = None \<longleftrightarrow> hf < 13 \<or> (st_height s + 11) mod 4 \<noteq> 0)
    \<and> (\<forall>q. qm_checkpointing qm = Some q \<longrightarrow> validators_only s is_active 2 2 q)
    \<and> (qm_blink qm = None \<longleftrightarrow> hf < 14 \<or> st_height s mod 5 \<noteq> 0)
    \<and> (\<forall>q. qm_blink qm = Some q \<longrightarrow> validators_only s (\<lambda>i. stays_staked s i) 3 4 q)"
proof -
  obtain ob where ob: "generate_obligations ops s (active_frame_pixs_infos s) (decomm_list hf s) = Inr ob" "obligations_ok hf s ob"
    using generate_obligations_ok [OF assms(1-3)] by blast
  obtain cp where cp: "\<not> hf < 13 \<Longrightarrow> generate_checkpointing ops nettype s (active_frame_pixs_infos s) (decomm_list hf s) = Inr cp"
      "\<not> hf < 13 \<Longrightarrow> cp = None \<longleftrightarrow> (st_height s + 11) mod 4 \<noteq> 0" "\<not> hf < 13 \<Longrightarrow> \<forall>q. cp = Some q \<longrightarrow> validators_only s is_active 2 2 q"
  proof (cases "hf < 13")
    case False
    then have "nettype = TESTNET \<and> st_height s < 85357 \<longrightarrow> decomm_list hf s = []" using assms(5) by (simp add: decomm_list_def)
    from generate_checkpointing_ok [OF assms(1-3) this] show ?thesis by (elim exE conjE) (rule that)
  next
    case True
    then show ?thesis by (intro that [of None]) simp_all
  qed
  obtain bl where bl: "generate_blink ops s (active_frame_pixs_infos s) = Inr bl"
      "bl = None \<longleftrightarrow> st_height s mod 5 \<noteq> 0" "\<forall>q. bl = Some q \<longrightarrow> validators_only s (\<lambda>i. stays_staked s i) 3 4 q"
    using generate_blink_ok [OF assms(1-3)] by (elim exE conjE) (rule that)
  have hf: "hf \<le> 12 \<longleftrightarrow> hf < 13" "hf < 13 \<Longrightarrow> hf < 14"
    by (auto simp: word_le_nat_alt word_less_nat_alt)
  have two: "\<not> (2 :: u64) \<le> 1" by (simp add: word_le_nat_alt)
  have c: "quorum_type_number checkpointing \<le> quorum_type_number (max_quorum_type_for_hf hf) \<longleftrightarrow> \<not> hf < 13"
    and b: "quorum_type_number blink \<le> quorum_type_number (max_quorum_type_for_hf hf) \<longleftrightarrow> \<not> hf < 14"
    using hf two by (auto simp: quorum_type_number_def max_quorum_type_for_hf_def)
  have "generate_quorums ops nettype hf s = Inr \<lparr>qm_obligations = Some ob, qm_checkpointing = (if hf < 13 then None else cp),
      qm_blink = (if hf < 14 then None else bl)\<rparr>"
    unfolding generate_quorums_def Let_def decomm_list_def [symmetric] c b using assms(4) ob(1) cp(1) bl(1) by (cases "hf < 13") simp_all
  then show ?thesis using ob(2) cp(2,3) bl(2,3) by (cases "hf < 13"; cases "hf < 14") auto
qed

text \<open>
  C2. With a live random number generator the quorums of a height are always generated, except on the test
  network below height 85357 from hard fork 13 on while a node is decommissioned, a case the next theorem treats. The obligations
  quorum has five active validators, or all when there are fewer, and tests the prescribed number of other nodes,
  active or (from hard fork 12) decommissioned; no node has two seats, so no validator tests itself.
  The checkpointing and blink quorums exist exactly at their intervals from hard forks 13 and 14 on.
  A checkpointing quorum has two distinct active nodes, and none when there are fewer; a blink quorum has
  four distinct active nodes whose stake is not about to be unlocked, three when there are no more,
  and none when there are fewer.
\<close>

theorem generate_quorums_sound:
  assumes "rng_live (rng_next ops)" "distinct (map fst (frame_pixs_infos s))" "length (frame_pixs_infos s) < 2 ^ 64"
    "st_block_hash s \<noteq> null_pod"
    "nettype = TESTNET \<and> st_height s < 85357 \<longrightarrow> hf < 13 \<or> decommissioned_frame_pixs_infos s = []"
  shows "\<exists>qm ob. generate_quorums ops nettype hf s = Inr qm \<and> qm_obligations qm = Some ob \<and> obligations_ok hf s ob
    \<and> (qm_checkpointing qm = None \<longleftrightarrow> hf < 13 \<or> (st_height s + 11) mod 4 \<noteq> 0)
    \<and> (\<forall>q. qm_checkpointing qm = Some q \<longrightarrow> validators_only s is_active 2 2 q)
    \<and> (qm_blink qm = None \<longleftrightarrow> hf < 14 \<or> st_height s mod 5 \<noteq> 0)
    \<and> (\<forall>q. qm_blink qm = Some q \<longrightarrow> validators_only s (\<lambda>i. stays_staked s i) 3 4 q)"
  using assms by (rule generate_quorums_returns)

definition sample_ops :: "u64 chain_ops" where
  "sample_ops = \<lparr>tx_ops = open_crypto 30000000000, get_block_hash = (\<lambda>b. 1), db_get_block_from_height = (\<lambda>h. None),
     db_get_tx = (\<lambda>h. None), rng_init = id, rng_next = (\<lambda>s. (s, s + 1)), sort_sizes = sort_key snd\<rparr>"

lemma rng_live_sample_ops: "rng_live (rng_next sample_ops)"
  using rng_live_counter by (simp add: sample_ops_def)

theorem generate_quorums_sound_witness:
  "\<exists>qm ob. generate_quorums sample_ops MAINNET 16 (sample_state\<lparr>st_block_hash := 5, st_height := 9\<rparr>) = Inr qm
     \<and> qm_obligations qm = Some ob \<and> qm_checkpointing qm \<noteq> None \<and> qm_blink qm = None"
proof -
  let ?s = "sample_state\<lparr>st_block_hash := 5, st_height := 9\<rparr>"
  have "distinct (map fst (frame_pixs_infos ?s))" "length (frame_pixs_infos ?s) < 2 ^ 64"
    by (simp_all add: sample_state_def initial_state_def)
  from generate_quorums_sound [OF rng_live_sample_ops this, of MAINNET 16] show ?thesis by auto
qed

text \<open>
  C33. On the test network below height 85357 the checkpointing quorum counts the decommissioned nodes but
  looks its validators up in the list of active nodes only. With fewer than two active nodes
  and at least two in all, one of the two indexes is beyond the end of that list, whatever the shuffle.
\<close>

theorem testnet_checkpointing_out_of_bounds:
  assumes "rng_live (rng_next ops)" "st_height s < 85357" "(st_height s + 11) mod 4 = 0"
    "length active < 2" "2 \<le> length active + length decomm" "length active + length decomm < 2 ^ 64"
  shows "generate_checkpointing ops TESTNET s active decomm = Inl OutOfBounds"
proof -
  let ?n = "length active + length decomm"
  obtain r where r: "generate_shuffled_frame_pix_index_list ops ?n (st_block_hash s) checkpointing 0 0 = Inr r" "mset r = mset [0..<?n]"
    using shuffled_indexes [OF assms(1,6), of 0 0 "st_block_hash s" checkpointing] by auto
  note i = set_mset_upt [OF r(2)]
  obtain a b t where ab: "r = a # b # t" using i assms(5) by (cases r; cases "tl r") auto
  then have "a \<noteq> b" using i by auto
  then have oob: "list_ex (\<lambda>j. j \<ge> length active) (take 2 r)" using assms(4) by (auto simp: ab)
  have l: "min (length r) 2 = 2" using i assms(5) by simp
  have "fill_quorum active decomm r 2 0 = Inl OutOfBounds" using oob by (simp add: fill_quorum_def Let_def)
  then show ?thesis using assms(2,3,5) r(1) l by (simp add: generate_checkpointing_def Let_def)
qed

theorem testnet_checkpointing_out_of_bounds_witness:
  "generate_checkpointing sample_ops TESTNET (sample_state\<lparr>st_height := 1\<rparr>) [(7, sample_info)] [(9, sample_info)] = Inl OutOfBounds"
proof -
  have "st_height (sample_state\<lparr>st_height := 1\<rparr>) < 85357" "(st_height (sample_state\<lparr>st_height := 1\<rparr>) + 11) mod 4 = 0" by simp_all
  from testnet_checkpointing_out_of_bounds [OF rng_live_sample_ops this, of "[(7, sample_info)]" "[(9, sample_info)]"] show ?thesis by simp
qed

section \<open>Only a stored quorum changes the state of a node\<close>

definition voted_by :: "crypto_ops \<Rightarrow> tx_extra_frame_pix_state_change \<Rightarrow> u64 \<Rightarrow> u8 \<Rightarrow> state_t \<Rightarrow> quorum \<Rightarrow> bool" where
  "voted_by cr sc height hf st q \<longleftrightarrow> st_height st = sc_block_height sc \<and> qm_obligations (st_quorums st) = Some q
     \<and> (\<exists>tvc. fst (verify_tx_state_change cr sc height tvc q hf))"

lemma alt_quorums_loop_Some:
  "alt_quorums_loop cr sc height hf alts tvc quorums = Inr (Some qm) \<Longrightarrow>
     quorums = Some qm \<or> (\<exists>st \<in> snd ` set alts. \<exists>q. st_quorums st = qm \<and> voted_by cr sc height hf st q)"
proof (induction cr sc height hf alts tvc quorums rule: alt_quorums_loop.induct)
  case (2 cr sc height hf hash st alts tvc quorums)
  show ?case
  proof (cases "st_height st = sc_block_height sc")
    case True
    obtain q ok tvc' where q: "qm_obligations (st_quorums st) = Some q" "verify_tx_state_change cr sc height tvc q hf = (ok, tvc')"
      using "2.prems" True by (auto split: option.splits prod.splits)
    then have "fst (verify_tx_state_change cr sc height tvc q hf)" if ok using that by simp
    then have "ok \<Longrightarrow> voted_by cr sc height hf st q" using True q(1) unfolding voted_by_def by blast
    then show ?thesis using "2.prems" "2.IH"(2) [OF _ q(1) q(2) [symmetric]] True q by (cases ok) (auto split: if_splits)
  next
    case False
    then show ?thesis using "2.prems" "2.IH"(1) by auto
  qed
qed simp

lemma state_set_find_Some: "state_set_find h states = Some st \<Longrightarrow> st \<in> set states \<and> st_height st = h"
  by (auto simp: state_set_find_def find_Some_iff)

lemma get_pubkey_worker: "get_pubkey_from_quorum q QG_WORKER i = Some key \<Longrightarrow> i < length (workers q) \<and> key = workers q ! i"
  by (auto simp: get_pubkey_from_quorum_def split: if_splits)

lemma change_node_state_others:
  "k \<noteq> key \<Longrightarrow> map_of (frame_pixs_infos (fst (snd (change_node_state nettype hf height time state key info s env)))) k =
     map_of (frame_pixs_infos s) k"
  by (simp add: change_node_state_def Let_def update_conv' delete_conv')

lemma process_state_change_tx_cases:
  assumes "process_state_change_tx cr hist arch alts nettype blk tx s env = Inr r"
  obtains "r = (False, s, env)"
  | sc st q key info where "get_frame_pix_state_change_from_tx_extra (extra tx) (major_version blk) = Some sc"
      "st \<in> set hist \<union> set arch \<union> snd ` set alts" "voted_by cr sc (get_block_height blk) (major_version blk) st q"
      "unat (frame_pix_index sc) < length (workers q)" "key = workers q ! unat (frame_pix_index sc)"
      "map_of (frame_pixs_infos s) key = Some info"
      "r = change_node_state nettype (major_version blk) (get_block_height blk) (timestamp blk) (sc_state sc) key info s env"
proof (cases "r = (False, s, env)")
  case False
  let ?hf = "major_version blk" and ?h = "get_block_height blk"
  note p = assms [unfolded process_state_change_tx_def Let_def]
  obtain sc where sc: "get_frame_pix_state_change_from_tx_extra (extra tx) ?hf = Some sc"
    using p False by (auto split: if_splits option.splits)
  obtain st0 where st0: "(case state_set_find (sc_block_height sc) hist of None \<Rightarrow> state_set_find (sc_block_height sc) arch
       | Some x \<Rightarrow> Some x) = Some st0"
    using p False sc by (auto split: if_splits option.splits)
  then have m0: "st0 \<in> set hist \<union> set arch" "st_height st0 = sc_block_height sc"
    by (auto split: option.splits dest: state_set_find_Some)
  obtain q0 ok tvc where q0: "qm_obligations (st_quorums st0) = Some q0" "verify_tx_state_change cr sc ?h null_tvc q0 ?hf = (ok, tvc)"
    using p False sc st0 by (auto split: if_splits option.splits prod.splits)
  obtain qm where qm: "(if ok then Inr (Some (st_quorums st0)) else alt_quorums_loop cr sc ?h ?hf alts tvc None) = Inr (Some qm)"
    and rest: "(case qm_obligations qm of None \<Rightarrow> Inl NullQuorum | Some ob \<Rightarrow>
       (case get_pubkey_from_quorum ob QG_WORKER (unat (frame_pix_index sc)) of None \<Rightarrow> Inr (False, s, env) | Some key \<Rightarrow>
         (case map_of (frame_pixs_infos s) key of None \<Rightarrow> Inr (False, s, env) | Some info \<Rightarrow>
            Inr (change_node_state nettype ?hf ?h (timestamp blk) (sc_state sc) key info s env)))) = Inr r"
    using p False sc st0 q0 by (auto simp: bindE_Inr_iff split: if_split_asm option.split_asm)
  have "ok \<Longrightarrow> fst (verify_tx_state_change cr sc ?h null_tvc q0 ?hf)" using q0(2) by simp
  then have v0: "ok \<Longrightarrow> voted_by cr sc ?h ?hf st0 q0" using m0 q0(1) unfolding voted_by_def by blast
  have "\<exists>st \<in> set hist \<union> set arch \<union> snd ` set alts. \<exists>q. st_quorums st = qm \<and> voted_by cr sc ?h ?hf st q"
    using qm v0 m0 alt_quorums_loop_Some [of cr sc ?h ?hf alts tvc None qm] by (cases ok) auto
  then obtain st q where st: "st \<in> set hist \<union> set arch \<union> snd ` set alts" "st_quorums st = qm" "voted_by cr sc ?h ?hf st q" by blast
  then have "qm_obligations qm = Some q" by (auto simp: voted_by_def)
  with rest False that(2) [OF sc st(1,3)] get_pubkey_worker [of q "unat (frame_pix_index sc)"] show ?thesis
    by (auto split: option.split_asm)
qed (use that in blast)

text \<open>
  C14. A state change transaction alters the list of nodes only when it carries a state change that verifies
  against the obligations quorum stored for its height, in the history, the archive or an
  alternative chain, and then only the node at the voted position among the workers of that quorum.
\<close>

theorem state_change_needs_quorum:
  assumes "process_state_change_tx cr hist arch alts nettype blk tx s env = Inr (changed, s', env')" "s' \<noteq> s"
  shows "\<exists>sc st q. get_frame_pix_state_change_from_tx_extra (extra tx) (major_version blk) = Some sc
    \<and> st \<in> set hist \<union> set arch \<union> snd ` set alts \<and> st_height st = sc_block_height sc \<and> qm_obligations (st_quorums st) = Some q
    \<and> (\<exists>tvc. fst (verify_tx_state_change cr sc (get_block_height blk) tvc q (major_version blk)))
    \<and> unat (frame_pix_index sc) < length (workers q)
    \<and> (\<forall>key. key \<noteq> workers q ! unat (frame_pix_index sc) \<longrightarrow> map_of (frame_pixs_infos s') key = map_of (frame_pixs_infos s) key)"
  using assms(1)
proof (cases rule: process_state_change_tx_cases)
  case (2 sc st q key info)
  have "map_of (frame_pixs_infos s') k = map_of (frame_pixs_infos s) k" if "k \<noteq> workers q ! unat (frame_pix_index sc)" for k
    using change_node_state_others [of k key nettype "major_version blk" "get_block_height blk" "timestamp blk" "sc_state sc" info s env]
      2(5) 2(7) [symmetric] that by simp
  then show ?thesis using 2(1-4) unfolding voted_by_def by blast
qed (use assms(2) in simp)

definition sample_block :: "u64 \<Rightarrow> block" where
  "sample_block height = \<lparr>major_version = 16, minor_version = 16, timestamp = 500, prev_id = 0, nonce = 0,
     miner_tx = \<lparr>tx_version = 4, tx_type = TXTYPE_STANDARD, unlock_time = 0, vin = [txin_gen height], vout = [], extra = [],
       output_unlock_times = [], rct_signatures = \<lparr>rct_type = 0, txnFee = 0, rct_rest = []\<rparr>\<rparr>,
     tx_hashes = []\<rparr>"

definition sample_change :: tx_extra_frame_pix_state_change where
  "sample_change = \<lparr>sc_state = NS_DEREGISTER, sc_block_height = 90, frame_pix_index = 0,
     sc_votes = [\<lparr>scv_signature = (0, 0), validator_index = 0\<rparr>]\<rparr>"

definition sample_history :: state_set where
  "sample_history = [initial_state\<lparr>st_height := 90, st_quorums := no_quorums\<lparr>qm_obligations := Some \<lparr>validators = [4], workers = [7]\<rparr>\<rparr>\<rparr>]"

definition change_tx :: transaction where
  "change_tx = (staking_tx [tx_extra_state_change sample_change])\<lparr>tx_type := TXTYPE_STATE_CHANGE, vout := [], output_unlock_times := []\<rparr>"

lemma sample_block_height: "get_block_height (sample_block h) = h"
  by (simp add: get_block_height_def sample_block_def)

lemma change_tx_extra: "get_frame_pix_state_change_from_tx_extra (extra change_tx) 16 = Some sample_change"
proof -
  have ok: "extra_ok [tx_extra_state_change sample_change]" by (simp add: extra_ok_def sample_change_def)
  show ?thesis
    by (simp add: get_frame_pix_state_change_from_tx_extra_def change_tx_def staking_tx_simps first_of_type_saved [OF ok]
        del: save_fields.simps)
qed

lemma sample_change_verifies:
  "fst (verify_tx_state_change (base_crypto (open_crypto a)) sample_change 100 tvc \<lparr>validators = [4], workers = [7]\<rparr> 16)"
  by (simp add: verify_tx_state_change_def sample_change_def bounds_check_worker_index_def bounds_check_validator_index_def
      open_crypto_def VOTE_LIFETIME_def BLOCKS_EXPECTED_IN_HOURS_def Let_def)

lemma sample_change_applied:
  "process_state_change_tx (base_crypto (open_crypto a)) sample_history [] [] MAINNET (sample_block 100) change_tx sample_state None =
     Inr (True, sample_state\<lparr>frame_pixs_infos := AList.delete 7 (frame_pixs_infos sample_state)\<rparr>, None)"
proof -
  have hf: "major_version (sample_block 100) = 16" "tx_type change_tx = TXTYPE_STATE_CHANGE"
    by (simp_all add: sample_block_def change_tx_def)
  obtain tvc where v: "verify_tx_state_change (base_crypto (open_crypto a)) sample_change 100 null_tvc \<lparr>validators = [4], workers = [7]\<rparr> 16 = (True, tvc)"
    using sample_change_verifies [of a null_tvc] by (metis prod.collapse)
  have i: "map_of (frame_pixs_infos sample_state) 7 = Some (sample_info\<lparr>last_reward_block_height := 20, total_contributed := 100\<rparr>)"
    "key_image_blacklist sample_state = []" by (simp_all add: sample_state_def initial_state_def)
  have b: "blacklist_node n h (sample_info\<lparr>last_reward_block_height := 20, total_contributed := 100\<rparr>) = []" for n h
    by (simp add: blacklist_node_def sample_info_def default_info_def default_contributor_def)
  have st: "state_set_find (sc_block_height sample_change) sample_history = Some (hd sample_history)"
    "qm_obligations (st_quorums (hd sample_history)) = Some \<lparr>validators = [4], workers = [7]\<rparr>"
    "sc_state sample_change = 0" "frame_pix_index sample_change = 0"
    by (simp_all add: state_set_find_def sample_history_def sample_change_def initial_state_def)
  show ?thesis
    unfolding process_state_change_tx_def Let_def hf
    by (simp add: change_tx_extra st v sample_block_height get_pubkey_from_quorum_def i change_node_state_def b)
qed

theorem state_change_needs_quorum_witness:
  "\<exists>sc st q. get_frame_pix_state_change_from_tx_extra (extra change_tx) 16 = Some sc \<and> st \<in> set sample_history
     \<and> qm_obligations (st_quorums st) = Some q \<and> (\<exists>tvc. fst (verify_tx_state_change (base_crypto (open_crypto 0)) sc 100 tvc q 16))"
proof -
  have "sample_state\<lparr>frame_pixs_infos := AList.delete 7 (frame_pixs_infos sample_state)\<rparr> \<noteq> sample_state"
    by (simp add: sample_state_def initial_state_def)
  from state_change_needs_quorum [OF sample_change_applied this, of 0] show ?thesis
    by (auto simp: sample_block_height) (auto simp: sample_block_def)
qed

section \<open>A block keeps the records in order\<close>

definition same_frame :: "state_t \<Rightarrow> state_t \<Rightarrow> bool" where
  "same_frame s s' \<longleftrightarrow> st_height s' = st_height s \<and> st_block_hash s' = st_block_hash s \<and> only_loaded_quorums s' = only_loaded_quorums s"

lemma same_frame_refl [simp]: "same_frame s s"
  by (simp add: same_frame_def)

lemma same_frame_trans: "same_frame a b \<Longrightarrow> same_frame b c \<Longrightarrow> same_frame a c"
  by (simp add: same_frame_def)

lemma process_frames:
  "same_frame s (fst (snd (process_registration_tx cr nettype blk tx index s env)))"
  "same_frame s (snd (process_contribution_tx cr nettype blk tx index s))"
  "same_frame s (snd (process_key_image_unlock_tx c nettype height tx s))"
  "same_frame s (fst (snd (change_node_state nettype hf height time state key info s env)))"
  by (simp_all add: same_frame_def process_registration_tx_def process_contribution_tx_def process_key_image_unlock_tx_def
      change_node_state_def Let_def split: option.split prod.split)

lemma process_state_change_tx_frame:
  assumes "process_state_change_tx cr hist arch alts nettype blk tx s env = Inr (b, s', env')"
  shows "same_frame s s'"
  using assms
proof (cases rule: process_state_change_tx_cases)
  case (2 sc st q key info)
  show ?thesis
    using process_frames(4) [of s nettype "major_version blk" "get_block_height blk" "timestamp blk" "sc_state sc" key info env]
    unfolding 2(7) [symmetric] by simp
qed simp

lemma process_txs_frame:
  "process_txs ops hist arch alts nettype blk index txs need s env = Inr (need', s', env') \<Longrightarrow> same_frame s s'"
proof (induction txs arbitrary: index need s env)
  case (Cons tx txs)
  let ?reg = "process_registration_tx (tx_ops ops) nettype blk tx (of_nat index) s env"
  let ?con = "process_contribution_tx (tx_ops ops) nettype blk tx (of_nat index) (fst (snd ?reg))"
  let ?key = "process_key_image_unlock_tx (base_crypto (tx_ops ops)) nettype (get_block_height blk) tx s"
  have "same_frame s (snd ?con)" using same_frame_trans process_frames(1,2) by blast
  moreover have "same_frame s (snd ?key)" by (rule process_frames)
  ultimately show ?case
    using Cons.prems Cons.IH process_state_change_tx_frame [of "base_crypto (tx_ops ops)" hist arch alts nettype blk tx s env]
    by (auto simp: Let_def bindE_Inr_iff split: if_splits prod.splits) (metis same_frame_trans)+
qed simp

lemma update_swarms_frame: "update_swarms ops blk s = Inr s' \<Longrightarrow> same_frame s s'"
  by (auto simp: update_swarms_def bindE_Inr_iff same_frame_def)

lemma update_from_block_frame:
  assumes "update_from_block ops nettype hist arch alts blk txs s env = Inr (s', env')"
  shows "st_height s' = st_height s + 1" "st_block_hash s' = get_block_hash ops blk" "only_loaded_quorums s' = only_loaded_quorums s"
    "st_height s + 1 = get_block_height blk"
proof -
  from assms obtain need s3 s4 quorums where h: "st_height s + 1 = get_block_height blk"
    and p: "process_txs ops hist arch alts nettype blk 0 txs (fst (begin_block ops nettype blk s)) (snd (begin_block ops nettype blk s)) env
       = Inr (need, s3, env')" and w: "(if need then update_swarms ops blk s3 else Inr s3) = Inr s4"
    and r: "s' = s4\<lparr>st_quorums := quorums\<rparr>" by (rule update_from_block_Inr)
  have "same_frame s3 s4" using w update_swarms_frame by (cases need) auto
  then have "same_frame (snd (begin_block ops nettype blk s)) s4" using process_txs_frame [OF p] same_frame_trans by blast
  then show "st_height s' = st_height s + 1" "st_block_hash s' = get_block_hash ops blk" "only_loaded_quorums s' = only_loaded_quorums s"
    by (simp_all add: r same_frame_def begin_block_props)
  show "st_height s + 1 = get_block_height blk" by (fact h)
qed

text \<open>
  C1. Updating a state by a block keeps every record of the list in order, whatever registrations,
  contributions, state changes and unlocks the block holds and whichever nodes expire: keys stay distinct and each record
  keeps its totals, within its staking requirement. The state moves to the height and the hash of the block.
\<close>

theorem update_from_block_keeps_order:
  assumes "update_from_block ops nettype hist arch alts blk txs s env = Inr (s', env')" "infos_ok (frame_pixs_infos s)"
  shows "distinct (map fst (frame_pixs_infos s')) \<and> (\<forall>key info. map_of (frame_pixs_infos s') key = Some info \<longrightarrow> info_ok info)
    \<and> st_height s' = get_block_height blk \<and> st_block_hash s' = get_block_hash ops blk"
  using update_from_block_ok [OF assms] update_from_block_frame [OF assms(1)] by (auto simp: infos_ok_def)

lemma sample_registration_processed:
  "\<exists>s'. process_txs sample_ops [] [] [] FAKECHAIN (sample_block 100) 0 [staking_tx sample_registration] False
      (initial_state\<lparr>st_height := 100, st_block_hash := 1\<rparr>) None = Inr (False, s', None)
     \<and> map fst (frame_pixs_infos s') = [77]"
proof -
  let ?tx = "staking_tx sample_registration" and ?s = "initial_state\<lparr>st_height := 100, st_block_hash := 1\<rparr>" and ?cr = "open_crypto 30000000000"
  obtain info where i: "is_registration_tx ?cr FAKECHAIN 16 ?tx 500 100 0 default_info = Some (77, info)"
      "staking_requirement info = 100000000000" using sample_registration_accepted by blast
  note ok = is_registration_tx_ok [OF i(1)]
  define parsed where "parsed = \<lparr>pc_address = alice, transferred = 30000000000, pc_tx_key = 5,
     pc_locked_contributions = [\<lparr>ct_version = 0, key_image_pub_key = 1, ct_key_image = 8, ct_amount = 30000000000 :: u64\<rparr>]\<rparr>"
  have c: "get_contribution ?cr FAKECHAIN 16 ?tx 100 = Some parsed"
    unfolding sample_registration_parts(2) parsed_def by simp
  define info' where "info' = add_contribution 16 100 0 parsed info"
  have "unat (total_contributed info') \<le> 30000000000"
    using add_contribution_props(2) [OF ok(1), of 16 100 0 parsed] ok(2) by (simp add: info'_def parsed_def)
  then have nf: "\<not> is_fully_funded info'"
    using add_contribution_props(5) [OF ok(1), of 16 100 0 parsed] i(2) by (simp add: is_fully_funded_def info'_def word_le_nat_alt)
  have b: "major_version (sample_block 100) = 16" "timestamp (sample_block 100) = 500" by (simp_all add: sample_block_def)
  have reg: "process_registration_tx ?cr FAKECHAIN (sample_block 100) ?tx 0 ?s None = (True, ?s\<lparr>frame_pixs_infos := [(77, info)]\<rparr>, None)"
    unfolding process_registration_tx_def Let_def b sample_block_height using i(1) by (simp add: initial_state_def)
  obtain k where k: "get_tx_secret_key_from_tx_extra (extra ?tx) = Some k"
    using c by (auto simp: get_contribution_def bind_eq_Some_conv)
  have con: "\<exists>s'. process_contribution_tx ?cr FAKECHAIN (sample_block 100) ?tx 0 (?s\<lparr>frame_pixs_infos := [(77, info)]\<rparr>) = (False, s')
      \<and> map fst (frame_pixs_infos s') = [77]"
    unfolding process_contribution_tx_def Let_def b sample_block_height
    using c k ok(4) nf by (simp add: staking_tx_simps sample_registration_parts info'_def)
  have ty: "(if get_max_type_for_hf 16 < TXTYPE_STAKE then TXTYPE_STANDARD else TXTYPE_STAKE) = TXTYPE_STAKE"
    by (simp add: get_max_type_for_hf_def)
  have ops: "tx_ops sample_ops = ?cr" by (simp add: sample_ops_def)
  show ?thesis
    using con by (auto simp: Let_def b ty ops staking_tx_simps reg)
qed

theorem update_from_block_keeps_order_witness:
  "\<exists>s'. update_from_block sample_ops FAKECHAIN [] [] [] (sample_block 100) [staking_tx sample_registration]
      (initial_state\<lparr>st_height := 99\<rparr>) None = Inr (s', None)
     \<and> map fst (frame_pixs_infos s') = [77] \<and> st_height s' = 100 \<and> (\<forall>key info. map_of (frame_pixs_infos s') key = Some info \<longrightarrow> info_ok info)"
proof -
  let ?s = "initial_state\<lparr>st_height := 99\<rparr>"
  obtain s' where s': "process_txs sample_ops [] [] [] FAKECHAIN (sample_block 100) 0 [staking_tx sample_registration] False
      (initial_state\<lparr>st_height := 100, st_block_hash := 1\<rparr>) None = Inr (False, s', None)" "map fst (frame_pixs_infos s') = [77]"
    using sample_registration_processed by (elim exE conjE) (rule that)
  have b: "begin_block sample_ops FAKECHAIN (sample_block 100) ?s = (False, initial_state\<lparr>st_height := 100, st_block_hash := 1\<rparr>)"
    by (simp add: begin_block_def Let_def expire_nodes_def get_expired_nodes_def advance_winner_def initial_state_def sample_ops_def sample_block_def)
  have "same_frame (initial_state\<lparr>st_height := 100, st_block_hash := 1\<rparr>) s'" by (rule process_txs_frame [OF s'(1)])
  then have h: "st_block_hash s' \<noteq> null_pod" by (simp add: same_frame_def)
  have l: "distinct (map fst (frame_pixs_infos s'))" "length (frame_pixs_infos s') < 2 ^ 64"
    using s'(2) length_map [of fst "frame_pixs_infos s'"] by simp_all
  have t: "FAKECHAIN = TESTNET \<and> st_height s' < 85357 \<longrightarrow> (16 :: u8) < 13 \<or> decommissioned_frame_pixs_infos s' = []" by simp
  obtain qm where qm: "generate_quorums sample_ops FAKECHAIN 16 s' = Inr qm"
    using generate_quorums_returns [OF rng_live_sample_ops l h t] by (elim exE conjE) (rule that)
  have hf: "major_version (sample_block 100) = 16" by (simp add: sample_block_def)
  have run: "update_from_block sample_ops FAKECHAIN [] [] [] (sample_block 100) [staking_tx sample_registration] ?s None =
      Inr (s'\<lparr>st_quorums := qm\<rparr>, None)"
    using s'(1) qm hf by (simp add: update_from_block_def sample_block_height b del: process_txs.simps)
  have "infos_ok (frame_pixs_infos ?s)" by (simp add: initial_state_def)
  from update_from_block_keeps_order [OF run this] run s'(2) show ?thesis by (auto simp: sample_block_height)
qed

end
