(* ===== verification/Framepix_Store.thy ===== *)
theory Framepix_Store
  imports Framepix_Quorums
begin

text \<open>
  What the service node list writes to the database, of \<^verbatim>\<open>src/src/cryptonote_core/frame_pix_list.h\<close> and
  \<^verbatim>\<open>frame_pix_list.cpp\<close>: the serializers of the records and of the states, the conversion of a state to its
  stored form and back. The stored form has the obligations and the checkpointing quorum, not the blink
  quorum, which a loaded state therefore lacks.
\<close>

section \<open>Serializers of the records\<close>

definition get_contribution_t :: "contribution_t reader" where
  "get_contribution_t bs = do {
     (ver, bs) \<leftarrow> enum_field (\<lambda>v. v < 1) bs;
     (pub, bs) \<leftarrow> get_pod bs;
     (ki, bs) \<leftarrow> get_pod bs;
     (amount, bs) \<leftarrow> serialize_varint bs;
     Some (\<lparr>ct_version = ver, key_image_pub_key = pub, ct_key_image = ki, ct_amount = amount\<rparr>, bs) }"

definition put_contribution_t :: "contribution_t \<Rightarrow> byte list" where
  "put_contribution_t c = write_varint (ct_version c) @ bytes_of_pod (key_image_pub_key c)
     @ bytes_of_pod (ct_key_image c) @ write_varint (ct_amount c)"

definition get_contributor_t :: "contributor_t reader" where
  "get_contributor_t bs = do {
     (ver, bs) \<leftarrow> serialize_varint bs;
     (amount, bs) \<leftarrow> serialize_varint bs;
     (res, bs) \<leftarrow> serialize_varint bs;
     (address, bs) \<leftarrow> get_address bs;
     (locked, bs) \<leftarrow> get_container get_contribution_t bs;
     Some (\<lparr>cb_version = ver, cb_amount = amount, cb_reserved = res, cb_address = address, locked_contributions = locked\<rparr>, bs) }"

definition put_contributor_t :: "contributor_t \<Rightarrow> byte list" where
  "put_contributor_t c = write_varint (cb_version c) @ write_varint (cb_amount c) @ write_varint (cb_reserved c)
     @ put_address (cb_address c) @ put_container put_contribution_t (locked_contributions c)"

text \<open>
  The fields that older versions of a record had are read and dropped. A version that has no
  \<^verbatim>\<open>registration_hf_version\<close> leaves the default.
\<close>

definition get_old_ports :: "u8 \<Rightarrow> unit reader" where
  "get_old_ports ver bs =
     (if ver < INFO_V4_NOPROOFS then do {
        (fake_ip, bs) \<leftarrow> (serialize_varint :: u32 reader) bs;
        (fake_port, bs) \<leftarrow> (serialize_varint :: u16 reader) bs;
        Some ((), bs) }
      else Some ((), bs))"

definition put_old_ports :: "u8 \<Rightarrow> byte list" where
  "put_old_ports ver = (if ver < INFO_V4_NOPROOFS then write_varint (0 :: u32) @ write_varint (0 :: u16) else [])"

definition get_old_keys :: "u8 \<Rightarrow> unit reader" where
  "get_old_keys ver bs =
     (if ver \<ge> INFO_V2_ED25519 \<and> ver < INFO_V4_NOPROOFS then do {
        (fake_pk, bs) \<leftarrow> get_pod bs;
        if ver \<ge> INFO_V3_QUORUMNET then do {
          (fake_port, bs) \<leftarrow> (serialize_varint :: u16 reader) bs;
          Some ((), bs) }
        else Some ((), bs) }
      else Some ((), bs))"

definition put_old_keys :: "u8 \<Rightarrow> byte list" where
  "put_old_keys ver =
     (if ver \<ge> INFO_V2_ED25519 \<and> ver < INFO_V4_NOPROOFS
      then bytes_of_pod null_pod @ (if ver \<ge> INFO_V3_QUORUMNET then write_varint (0 :: u16) else []) else [])"

definition get_hf_version :: "u8 \<Rightarrow> u8 reader" where
  "get_hf_version ver bs = (if ver \<ge> 1 then serialize_varint bs else Some (0, bs))"

definition put_hf_version :: "u8 \<Rightarrow> u8 \<Rightarrow> byte list" where
  "put_hf_version ver hf = (if ver \<ge> 1 then write_varint hf else [])"

definition get_info :: "frame_pix_info reader" where
  "get_info bs = do {
     (ver, bs) \<leftarrow> enum_field (\<lambda>v. v < 5) bs;
     (reg_height, bs) \<leftarrow> serialize_varint bs;
     (unlock, bs) \<leftarrow> serialize_varint bs;
     (reward_height, bs) \<leftarrow> serialize_varint bs;
     (reward_index, bs) \<leftarrow> serialize_varint bs;
     (count, bs) \<leftarrow> serialize_varint bs;
     (active, bs) \<leftarrow> serialize_varint bs;
     (decomm, bs) \<leftarrow> serialize_varint bs;
     (contribs, bs) \<leftarrow> get_container get_contributor_t bs;
     (contributed, bs) \<leftarrow> serialize_varint bs;
     (res, bs) \<leftarrow> serialize_varint bs;
     (requirement, bs) \<leftarrow> serialize_varint bs;
     (portions, bs) \<leftarrow> serialize_varint bs;
     (operator, bs) \<leftarrow> get_address bs;
     (swarm, bs) \<leftarrow> serialize_varint bs;
     (_, bs) \<leftarrow> get_old_ports ver bs;
     (ip_change, bs) \<leftarrow> serialize_varint bs;
     (hf, bs) \<leftarrow> get_hf_version ver bs;
     (_, bs) \<leftarrow> get_old_keys ver bs;
     Some (\<lparr>registration_height = reg_height, requested_unlock_height = unlock, last_reward_block_height = reward_height,
       last_reward_transaction_index = reward_index, decommission_count = count, active_since_height = active,
       last_decommission_height = decomm, contributors = contribs, total_contributed = contributed, total_reserved = res,
       staking_requirement = requirement, portions_for_operator = portions, swarm_id = swarm, operator_address = operator,
       last_ip_change_height = ip_change, info_version = ver, registration_hf_version = hf\<rparr>, bs) }"

definition put_info :: "frame_pix_info \<Rightarrow> byte list" where
  "put_info i = write_varint (info_version i) @ write_varint (registration_height i) @ write_varint (requested_unlock_height i)
     @ write_varint (last_reward_block_height i) @ write_varint (last_reward_transaction_index i)
     @ write_varint (decommission_count i) @ write_varint (active_since_height i) @ write_varint (last_decommission_height i)
     @ put_container put_contributor_t (contributors i) @ write_varint (total_contributed i) @ write_varint (total_reserved i)
     @ write_varint (staking_requirement i) @ write_varint (portions_for_operator i) @ put_address (operator_address i)
     @ write_varint (swarm_id i) @ put_old_ports (info_version i) @ write_varint (last_ip_change_height i)
     @ put_hf_version (info_version i) (registration_hf_version i) @ put_old_keys (info_version i)"

definition get_pubkey_info :: "(pod32 \<times> frame_pix_info) reader" where
  "get_pubkey_info bs = do { (key, bs) \<leftarrow> get_pod bs; (info, bs) \<leftarrow> get_info bs; Some ((key, info), bs) }"

definition put_pubkey_info :: "pod32 \<times> frame_pix_info \<Rightarrow> byte list" where
  "put_pubkey_info ki = bytes_of_pod (fst ki) @ put_info (snd ki)"

definition get_blacklist_entry :: "key_image_blacklist_entry reader" where
  "get_blacklist_entry bs = do {
     (ver, bs) \<leftarrow> enum_field (\<lambda>v. v < 2) bs;
     (ki, bs) \<leftarrow> get_pod bs;
     (unlock, bs) \<leftarrow> serialize_varint bs;
     (amount, bs) \<leftarrow> (if ver \<ge> 1 then serialize_varint bs else Some (0, bs));
     Some (\<lparr>bl_version = ver, bl_key_image = ki, bl_unlock_height = unlock, bl_amount = amount\<rparr>, bs) }"

definition put_blacklist_entry :: "key_image_blacklist_entry \<Rightarrow> byte list" where
  "put_blacklist_entry e = write_varint (bl_version e) @ bytes_of_pod (bl_key_image e) @ write_varint (bl_unlock_height e)
     @ (if bl_version e \<ge> 1 then write_varint (bl_amount e) else [])"

definition get_quorum_fields :: "quorum reader" where
  "get_quorum_fields bs = do {
     (vs, bs) \<leftarrow> get_container get_pod bs;
     (ws, bs) \<leftarrow> get_container get_pod bs;
     Some (\<lparr>validators = vs, workers = ws\<rparr>, bs) }"

definition put_quorum_fields :: "quorum \<Rightarrow> byte list" where
  "put_quorum_fields q = put_container bytes_of_pod (validators q) @ put_container bytes_of_pod (workers q)"

section \<open>The stored form\<close>

record quorum_for_serialization =
  qs_version :: u8
  qs_height :: u64
  qs_obligations :: quorum
  qs_checkpointing :: quorum

record state_serialized =
  ss_version :: u8
  ss_height :: u64
  ss_infos :: "(pod32 \<times> frame_pix_info) list"
  ss_key_image_blacklist :: "key_image_blacklist_entry list"
  ss_quorums :: quorum_for_serialization
  only_stored_quorums :: bool
  ss_block_hash :: pod32

record data_for_serialization =
  ds_version :: u8
  ds_quorum_states :: "quorum_for_serialization list"
  ds_states :: "state_serialized list"

definition get_stored_quorums :: "quorum_for_serialization reader" where
  "get_stored_quorums bs = do {
     (ver, bs) \<leftarrow> serialize_uint 1 bs;
     (height, bs) \<leftarrow> serialize_uint 8 bs;
     (ob, bs) \<leftarrow> get_quorum_fields bs;
     (cp, bs) \<leftarrow> get_quorum_fields bs;
     Some (\<lparr>qs_version = ver, qs_height = height, qs_obligations = ob, qs_checkpointing = cp\<rparr>, bs) }"

definition put_stored_quorums :: "quorum_for_serialization \<Rightarrow> byte list" where
  "put_stored_quorums q = le_bytes 1 (qs_version q) @ le_bytes 8 (qs_height q) @ put_quorum_fields (qs_obligations q)
     @ put_quorum_fields (qs_checkpointing q)"

text \<open>A \<^verbatim>\<open>bool\<close> is one byte.\<close>

definition get_bool :: "bool reader" where
  "get_bool bs = do { (b, bs) \<leftarrow> (serialize_uint 1 :: u8 reader) bs; Some (b \<noteq> 0, bs) }"

definition put_bool :: "bool \<Rightarrow> byte list" where
  "put_bool b = le_bytes 1 (if b then 1 else 0 :: u8)"

definition get_state_serialized :: "state_serialized reader" where
  "get_state_serialized bs = do {
     (ver, bs) \<leftarrow> enum_field (\<lambda>v. v < 2) bs;
     (height, bs) \<leftarrow> serialize_varint bs;
     (infos, bs) \<leftarrow> get_container get_pubkey_info bs;
     (blacklist, bs) \<leftarrow> get_container get_blacklist_entry bs;
     (quorums, bs) \<leftarrow> get_stored_quorums bs;
     (only, bs) \<leftarrow> get_bool bs;
     (hash, bs) \<leftarrow> (if ver \<ge> 1 then get_pod bs else Some (null_pod, bs));
     Some (\<lparr>ss_version = ver, ss_height = height, ss_infos = infos, ss_key_image_blacklist = blacklist, ss_quorums = quorums,
       only_stored_quorums = only, ss_block_hash = hash\<rparr>, bs) }"

definition put_state_serialized :: "state_serialized \<Rightarrow> byte list" where
  "put_state_serialized s = write_varint (ss_version s) @ write_varint (ss_height s) @ put_container put_pubkey_info (ss_infos s)
     @ put_container put_blacklist_entry (ss_key_image_blacklist s) @ put_stored_quorums (ss_quorums s)
     @ put_bool (only_stored_quorums s) @ (if ss_version s \<ge> 1 then bytes_of_pod (ss_block_hash s) else [])"

definition get_data :: "data_for_serialization reader" where
  "get_data bs = do {
     (ver, bs) \<leftarrow> enum_field (\<lambda>v. v < 1) bs;
     (quorums, bs) \<leftarrow> get_container get_stored_quorums bs;
     (states, bs) \<leftarrow> get_container get_state_serialized bs;
     Some (\<lparr>ds_version = ver, ds_quorum_states = quorums, ds_states = states\<rparr>, bs) }"

definition put_data :: "data_for_serialization \<Rightarrow> byte list" where
  "put_data d = write_varint (ds_version d) @ put_container put_stored_quorums (ds_quorum_states d)
     @ put_container put_state_serialized (ds_states d)"

section \<open>States and their stored form\<close>

definition empty_quorum :: quorum where
  "empty_quorum = \<lparr>validators = [], workers = []\<rparr>"

definition serialize_quorum_state :: "u64 \<Rightarrow> quorum_manager \<Rightarrow> quorum_for_serialization" where
  "serialize_quorum_state height quorums =
     \<lparr>qs_version = 0, qs_height = height,
      qs_obligations = (case qm_obligations quorums of None \<Rightarrow> empty_quorum | Some q \<Rightarrow> q),
      qs_checkpointing = (case qm_checkpointing quorums of None \<Rightarrow> empty_quorum | Some q \<Rightarrow> q)\<rparr>"

abbreviation (input) SERIALIZE_VERSION_1 :: u8 where "SERIALIZE_VERSION_1 \<equiv> 1"

definition serialize_frame_pix_state_object :: "state_t \<Rightarrow> bool \<Rightarrow> state_serialized" where
  "serialize_frame_pix_state_object state only_serialize_quorums =
     (let result = \<lparr>ss_version = SERIALIZE_VERSION_1, ss_height = st_height state, ss_infos = [], ss_key_image_blacklist = [],
            ss_quorums = serialize_quorum_state (st_height state) (st_quorums state),
            only_stored_quorums = only_loaded_quorums state \<or> only_serialize_quorums, ss_block_hash = null_pod\<rparr>
      in if only_serialize_quorums then result
         else result\<lparr>ss_infos := frame_pixs_infos state, ss_key_image_blacklist := key_image_blacklist state,
                ss_block_hash := st_block_hash state\<rparr>)"

definition quorum_for_serialization_to_quorum_manager :: "quorum_for_serialization \<Rightarrow> quorum_manager" where
  "quorum_for_serialization_to_quorum_manager source =
     \<lparr>qm_obligations = Some (qs_obligations source),
      qm_checkpointing =
        (if (qs_height source + REORG_SAFETY_BUFFER_BLOCKS_POST_HF12) mod CHECKPOINT_INTERVAL = 0
         then Some (qs_checkpointing source) else None),
      qm_blink = None\<rparr>"

text \<open>The constructor of a state from its stored form; the two arguments are what it asks the chain for.\<close>

definition upgrade_info :: "(u64 \<Rightarrow> u8) \<Rightarrow> frame_pix_info \<Rightarrow> frame_pix_info" where
  "upgrade_info get_hard_fork_version info =
     (let info = (if info_version info < 1
                  then info\<lparr>info_version := 1, registration_hf_version := get_hard_fork_version (registration_height info)\<rparr> else info)
      in if info_version info < INFO_V4_NOPROOFS then info\<lparr>info_version := INFO_V4_NOPROOFS\<rparr> else info)"

definition emplace_info :: "(u64 \<Rightarrow> u8) \<Rightarrow> pod32 \<times> frame_pix_info \<Rightarrow> frame_pixs_infos_t \<Rightarrow> frame_pixs_infos_t" where
  "emplace_info get_hard_fork_version ki infos =
     (case map_of infos (fst ki) of Some _ \<Rightarrow> infos | None \<Rightarrow> infos @ [(fst ki, upgrade_info get_hard_fork_version (snd ki))])"

text \<open>
  The code asserts that every record has the newest version after its upgrade, which is so for every version
  that the reader accepts.
\<close>

definition state_of_serialized :: "(u64 \<Rightarrow> pod32) \<Rightarrow> (u64 \<Rightarrow> u8) \<Rightarrow> state_serialized \<Rightarrow> state_t" where
  "state_of_serialized get_block_id_by_height get_hard_fork_version state =
     \<lparr>st_block_hash = (if ss_version state = 0 then get_block_id_by_height (ss_height state) else ss_block_hash state),
      only_loaded_quorums = only_stored_quorums state,
      frame_pixs_infos = fold (emplace_info get_hard_fork_version) (ss_infos state) [],
      key_image_blacklist = ss_key_image_blacklist state,
      st_height = ss_height state,
      st_quorums = quorum_for_serialization_to_quorum_manager (ss_quorums state)\<rparr>"

section \<open>The serializers keep their contract\<close>

definition contributor_stored_ok :: "contributor_t \<Rightarrow> bool" where
  "contributor_stored_ok c \<longleftrightarrow> length (locked_contributions c) < 2 ^ 64 \<and> list_all (\<lambda>c. ct_version c < 1) (locked_contributions c)"

definition info_stored_ok :: "frame_pix_info \<Rightarrow> bool" where
  "info_stored_ok i \<longleftrightarrow> info_version i < 5 \<and> (info_version i < 1 \<longrightarrow> registration_hf_version i = 0)
     \<and> length (contributors i) < 2 ^ 64 \<and> list_all contributor_stored_ok (contributors i)"

definition blacklist_stored_ok :: "key_image_blacklist_entry \<Rightarrow> bool" where
  "blacklist_stored_ok e \<longleftrightarrow> bl_version e < 2 \<and> (bl_version e < 1 \<longrightarrow> bl_amount e = 0)"

interpretation c_contribution: codec_pos put_contribution_t get_contribution_t "\<lambda>c. ct_version c < 1"
  by unfold_locales
    (auto simp: get_contribution_t_def put_contribution_t_def get_put_simps bind_eq_Some_conv dest!: get_oks)

interpretation c_contributions: codec_pos "put_container put_contribution_t" "get_container get_contribution_t"
    "\<lambda>v. length v < 2 ^ 64 \<and> list_all (\<lambda>c. ct_version c < 1) v"
  by (rule c_contribution.codec_container)

interpretation c_contributor: codec_pos put_contributor_t get_contributor_t contributor_stored_ok
  by unfold_locales
    (auto simp: get_contributor_t_def put_contributor_t_def get_put_simps contributor_stored_ok_def c_contributions.get_put
      c_address.get_put bind_eq_Some_conv dest!: get_oks c_contributions.get_ok c_address.get_ok)

interpretation c_contributors: codec_pos "put_container put_contributor_t" "get_container get_contributor_t"
    "\<lambda>v. length v < 2 ^ 64 \<and> list_all contributor_stored_ok v"
  by (rule c_contributor.codec_container)

interpretation c_old_ports: codec "\<lambda>_. put_old_ports ver" "get_old_ports ver" "\<lambda>_ :: unit. True" for ver
  by unfold_locales
    (auto simp: get_old_ports_def put_old_ports_def get_put_simps bind_eq_Some_conv split: if_splits dest!: get_oks)

interpretation c_old_keys: codec "\<lambda>_. put_old_keys ver" "get_old_keys ver" "\<lambda>_ :: unit. True" for ver
  by unfold_locales
    (auto simp: get_old_keys_def put_old_keys_def get_put_simps bind_eq_Some_conv split: if_splits dest!: get_oks)

interpretation c_hf_version: codec "put_hf_version ver" "get_hf_version ver" "\<lambda>hf. ver < 1 \<longrightarrow> hf = 0" for ver
  by unfold_locales
    (auto simp: get_hf_version_def put_hf_version_def get_put_simps not_le not_less split: if_splits dest!: get_oks)

lemma old_fields_get_put:
  "get_old_ports ver (put_old_ports ver @ rest) = Some ((), rest)" "get_old_keys ver (put_old_keys ver @ rest) = Some ((), rest)"
  by (rule c_old_ports.get_put c_old_keys.get_put; simp)+

lemmas info_get_puts = get_put_simps c_contributors.get_put c_address.get_put c_hf_version.get_put
  old_fields_get_put

lemmas info_get_oks = get_oks c_contributors.get_ok c_address.get_ok c_hf_version.get_ok c_old_ports.get_ok c_old_keys.get_ok

interpretation c_info: codec_pos put_info get_info info_stored_ok
proof unfold_locales
  show "get_info (put_info x @ rest) = Some (x, rest)" if "info_stored_ok x" for x rest
    using that by (simp add: get_info_def put_info_def info_get_puts info_stored_ok_def)
  show "put_info x \<noteq> []" for x by (simp add: put_info_def)
  have ok: "info_stored_ok x \<and> length rest \<le> length bs" if "get_info bs = Some (x, rest)" for bs x rest
    using that by (auto simp: get_info_def bind_eq_Some_conv info_stored_ok_def dest!: info_get_oks)
  show "info_stored_ok x" "length rest \<le> length bs" if "get_info bs = Some (x, rest)" for bs x rest
    using ok [OF that] by simp_all
qed

interpretation c_pubkey_info: codec_pos put_pubkey_info get_pubkey_info "\<lambda>ki. info_stored_ok (snd ki)"
  by unfold_locales
    (auto simp: get_pubkey_info_def put_pubkey_info_def get_put_simps c_info.get_put c_pod.put_pos bind_eq_Some_conv
      dest!: get_oks c_info.get_ok)

interpretation c_pubkey_infos: codec_pos "put_container put_pubkey_info" "get_container get_pubkey_info"
    "\<lambda>v. length v < 2 ^ 64 \<and> list_all (\<lambda>ki. info_stored_ok (snd ki)) v"
  by (rule c_pubkey_info.codec_container)

interpretation c_blacklist_entry: codec_pos put_blacklist_entry get_blacklist_entry blacklist_stored_ok
  by unfold_locales
    (auto simp: get_blacklist_entry_def put_blacklist_entry_def get_put_simps blacklist_stored_ok_def bind_eq_Some_conv not_le
      split: if_splits dest!: get_oks)

interpretation c_blacklist: codec_pos "put_container put_blacklist_entry" "get_container get_blacklist_entry"
    "\<lambda>v. length v < 2 ^ 64 \<and> list_all blacklist_stored_ok v"
  by (rule c_blacklist_entry.codec_container)

definition quorum_stored_ok :: "quorum \<Rightarrow> bool" where
  "quorum_stored_ok q \<longleftrightarrow> length (validators q) < 2 ^ 64 \<and> length (workers q) < 2 ^ 64"

interpretation c_quorum: codec_pos put_quorum_fields get_quorum_fields quorum_stored_ok
  by unfold_locales
    (auto simp: get_quorum_fields_def put_quorum_fields_def get_put_simps quorum_stored_ok_def list_all_iff c_pods.put_pos
      bind_eq_Some_conv dest!: get_oks)

definition quorums_stored_ok :: "quorum_for_serialization \<Rightarrow> bool" where
  "quorums_stored_ok q \<longleftrightarrow> quorum_stored_ok (qs_obligations q) \<and> quorum_stored_ok (qs_checkpointing q)"

interpretation c_stored_quorums: codec_pos put_stored_quorums get_stored_quorums quorums_stored_ok
  by unfold_locales
    (auto simp: get_stored_quorums_def put_stored_quorums_def get_put_simps quorums_stored_ok_def c_quorum.get_put
      bind_eq_Some_conv dest!: get_oks c_quorum.get_ok)

interpretation c_stored_quorums_list: codec_pos "put_container put_stored_quorums" "get_container get_stored_quorums"
    "\<lambda>v. length v < 2 ^ 64 \<and> list_all quorums_stored_ok v"
  by (rule c_stored_quorums.codec_container)

interpretation c_bool: codec_pos put_bool get_bool "\<lambda>_. True"
  by unfold_locales (auto simp: get_bool_def put_bool_def get_put_simps bind_eq_Some_conv dest!: get_oks)

definition state_stored_ok :: "state_serialized \<Rightarrow> bool" where
  "state_stored_ok s \<longleftrightarrow> ss_version s < 2 \<and> (ss_version s < 1 \<longrightarrow> ss_block_hash s = null_pod)
     \<and> length (ss_infos s) < 2 ^ 64 \<and> list_all (\<lambda>ki. info_stored_ok (snd ki)) (ss_infos s)
     \<and> length (ss_key_image_blacklist s) < 2 ^ 64 \<and> list_all blacklist_stored_ok (ss_key_image_blacklist s)
     \<and> quorums_stored_ok (ss_quorums s)"

interpretation c_state: codec_pos put_state_serialized get_state_serialized state_stored_ok
  by unfold_locales
    (auto simp: get_state_serialized_def put_state_serialized_def get_put_simps state_stored_ok_def c_pubkey_infos.get_put
      c_blacklist.get_put c_stored_quorums.get_put c_bool.get_put bind_eq_Some_conv not_le split: if_splits
      dest!: get_oks c_pubkey_infos.get_ok c_blacklist.get_ok c_stored_quorums.get_ok c_bool.get_ok)

interpretation c_states: codec_pos "put_container put_state_serialized" "get_container get_state_serialized"
    "\<lambda>v. length v < 2 ^ 64 \<and> list_all state_stored_ok v"
  by (rule c_state.codec_container)

definition data_stored_ok :: "data_for_serialization \<Rightarrow> bool" where
  "data_stored_ok d \<longleftrightarrow> ds_version d < 1 \<and> length (ds_quorum_states d) < 2 ^ 64
     \<and> list_all quorums_stored_ok (ds_quorum_states d) \<and> length (ds_states d) < 2 ^ 64 \<and> list_all state_stored_ok (ds_states d)"

interpretation c_data: codec_pos put_data get_data data_stored_ok
  by unfold_locales
    (auto simp: get_data_def put_data_def get_put_simps data_stored_ok_def c_stored_quorums_list.get_put c_states.get_put
      bind_eq_Some_conv dest!: get_oks c_stored_quorums_list.get_ok c_states.get_ok)

section \<open>A state and its stored form\<close>

definition state_storable :: "state_t \<Rightarrow> bool" where
  "state_storable s \<longleftrightarrow> distinct (map fst (frame_pixs_infos s)) \<and> length (frame_pixs_infos s) < 2 ^ 64
     \<and> list_all (\<lambda>ki. info_stored_ok (snd ki) \<and> info_version (snd ki) = INFO_V4_NOPROOFS) (frame_pixs_infos s)
     \<and> length (key_image_blacklist s) < 2 ^ 64 \<and> list_all blacklist_stored_ok (key_image_blacklist s)
     \<and> pred_option quorum_stored_ok (qm_obligations (st_quorums s)) \<and> pred_option quorum_stored_ok (qm_checkpointing (st_quorums s))"

text \<open>What comes back: the quorums without the blink quorum, an absent quorum as an empty one.\<close>

definition reloaded_quorums :: "u64 \<Rightarrow> quorum_manager \<Rightarrow> quorum_manager" where
  "reloaded_quorums height qm =
     \<lparr>qm_obligations = Some (case qm_obligations qm of None \<Rightarrow> empty_quorum | Some q \<Rightarrow> q),
      qm_checkpointing =
        (if (height + REORG_SAFETY_BUFFER_BLOCKS_POST_HF12) mod CHECKPOINT_INTERVAL = 0
         then Some (case qm_checkpointing qm of None \<Rightarrow> empty_quorum | Some q \<Rightarrow> q) else None),
      qm_blink = None\<rparr>"

lemma reloaded_quorums_eq:
  "quorum_for_serialization_to_quorum_manager (serialize_quorum_state height qm) = reloaded_quorums height qm"
  by (simp add: quorum_for_serialization_to_quorum_manager_def serialize_quorum_state_def reloaded_quorums_def)

lemma quorums_stored_ok_serialize:
  "pred_option quorum_stored_ok (qm_obligations qm) \<Longrightarrow> pred_option quorum_stored_ok (qm_checkpointing qm) \<Longrightarrow>
   quorums_stored_ok (serialize_quorum_state height qm)"
  by (auto simp: quorums_stored_ok_def serialize_quorum_state_def empty_quorum_def quorum_stored_ok_def pred_option_def split: option.splits)

lemma state_stored_ok_serialize: "state_storable s \<Longrightarrow> state_stored_ok (serialize_frame_pix_state_object s only)"
  by (auto simp: state_storable_def state_stored_ok_def serialize_frame_pix_state_object_def Let_def quorums_stored_ok_serialize
      list_all_iff)

lemma upgrade_info_current: "info_version info = INFO_V4_NOPROOFS \<Longrightarrow> upgrade_info hf info = info"
  by (simp add: upgrade_info_def)

lemma fold_emplace_info:
  "distinct (map fst (acc @ infos)) \<Longrightarrow> list_all (\<lambda>ki. info_version (snd ki) = INFO_V4_NOPROOFS) infos \<Longrightarrow>
   fold (emplace_info hf) infos acc = acc @ infos"
proof (induction infos arbitrary: acc)
  case (Cons ki infos)
  have "map_of acc (fst ki) = None" using Cons.prems(1) by (simp add: map_of_eq_None_iff)
  then have "emplace_info hf ki acc = acc @ [ki]"
    using Cons.prems(2) by (simp add: emplace_info_def upgrade_info_current)
  then show ?case using Cons.IH [of "acc @ [ki]"] Cons.prems by simp
qed simp

lemma state_of_serialize:
  assumes "state_storable s"
  shows "state_of_serialized ids hfs (serialize_frame_pix_state_object s False)
    = s\<lparr>st_quorums := reloaded_quorums (st_height s) (st_quorums s)\<rparr>"
proof -
  have "fold (emplace_info hfs) (frame_pixs_infos s) [] = frame_pixs_infos s"
    using fold_emplace_info [of "[]" "frame_pixs_infos s" hfs] assms by (simp add: state_storable_def list_all_iff)
  then show ?thesis
    by (cases s) (simp add: state_of_serialized_def serialize_frame_pix_state_object_def Let_def reloaded_quorums_eq)
qed

end
