(* ===== verification/Framepix_List.thy ===== *)
theory Framepix_List
  imports Framepix_Store
begin

text \<open>
  The service node list of \<^verbatim>\<open>src/src/cryptonote_core/frame_pix_list.cpp\<close>: the current state, the recent
  states it can return to, the archive, the alternative states, the uptime proofs and what is stored of
  them. The chain and the database are parameters, the two blobs the list keeps in the database are part of
  its record, and the time is an argument. The messages to the log are not modelled, and a lock is not either:
  every operation holds it from beginning to end.
\<close>

section \<open>The list\<close>

datatype list_error = StateError state_error | DbError

definition liftS :: "state_error + 'a \<Rightarrow> list_error + 'a" where
  "liftS r = (case r of Inl e \<Rightarrow> Inl (StateError e) | Inr a \<Rightarrow> Inr a)"

text \<open>What the list asks the chain, the database and libsodium for.\<close>

record 'r list_ops =
  chain :: "'r chain_ops"
  list_nettype :: network_type
  has_db :: bool
  get_current_hard_fork_version :: u8
  get_current_blockchain_height :: u64
  get_hard_fork_version :: "u64 \<Rightarrow> u8"
  get_block_id_by_height :: "u64 \<Rightarrow> pod32"
  hardfork_9_from_height :: u64
  get_all_frame_pix_proofs :: "(pod32 \<times> proof_info) list"
  crypto_sign_verify_detached :: "signature \<Rightarrow> pod32 \<Rightarrow> pod32 \<Rightarrow> bool"
  crypto_sign_ed25519_pk_to_curve25519 :: "pod32 \<Rightarrow> pod32 option"

record frame_pix_list =
  m_store_quorum_history :: u64
  old_quorum_states :: "(u64 \<times> quorum_manager) list"
  state_history :: state_set
  state_archive :: state_set
  alt_state :: "(pod32 \<times> state_t) list"
  state_added_to_archive :: bool
  m_state :: state_t
  sn_env :: proofs_env
  m_frame_pix_keys :: "frame_pix_keys option"
  x25519_to_pub :: "(pod32 \<times> pod32 \<times> u64) list"
  x25519_map_last_pruned :: u64
  db_long_term :: "byte list option"
  db_short_term :: "byte list option"
  db_removed_proofs :: "pod32 list"

abbreviation (input) STORE_LONG_TERM_STATE_INTERVAL :: u64 where "STORE_LONG_TERM_STATE_INTERVAL \<equiv> 10000"
abbreviation (input) X25519_MAP_PRUNING_INTERVAL :: u64 where "X25519_MAP_PRUNING_INTERVAL \<equiv> 300"
abbreviation (input) X25519_MAP_PRUNING_LAG :: u64 where "X25519_MAP_PRUNING_LAG \<equiv> 86400"
abbreviation (input) UPTIME_PROOF_BUFFER_IN_SECONDS :: u64 where "UPTIME_PROOF_BUFFER_IN_SECONDS \<equiv> 300"
abbreviation (input) UPTIME_PROOF_FREQUENCY_IN_SECONDS :: u64 where "UPTIME_PROOF_FREQUENCY_IN_SECONDS \<equiv> 3600"
abbreviation (input) HF_VERSION_ED25519_KEY :: u8 where "HF_VERSION_ED25519_KEY \<equiv> 13"

definition short_term_state_cull_height :: "u64 \<Rightarrow> u64" where
  "short_term_state_cull_height height =
     (let history = 6 * STATE_CHANGE_TX_LIFETIME_IN_BLOCKS in if height < history then 0 else height - history)"

text \<open>A set of states is ordered by height and keeps the state it has when another of that height is inserted.\<close>

fun state_set_insert :: "state_t \<Rightarrow> state_set \<Rightarrow> state_set" where
  "state_set_insert s [] = [s]"
| "state_set_insert s (t # ts) =
     (if st_height s < st_height t then s # t # ts
      else if st_height s = st_height t then t # ts
      else t # state_set_insert s ts)"

section \<open>Lookups\<close>

definition offset_testing_quorum_height :: "quorum_type \<Rightarrow> u64 \<Rightarrow> u64" where
  "offset_testing_quorum_height type height =
     (if type = checkpointing
      then if height < REORG_SAFETY_BUFFER_BLOCKS_POST_HF12 then 0 else height - REORG_SAFETY_BUFFER_BLOCKS_POST_HF12
      else height)"

text \<open>The old quorums are ordered by height; \<^verbatim>\<open>std::lower_bound\<close> finds the first that is not below.\<close>

definition find_quorums :: "frame_pix_list \<Rightarrow> u64 \<Rightarrow> bool \<Rightarrow> quorum_manager option" where
  "find_quorums l height include_old =
     (if height = st_height (m_state l) then Some (st_quorums (m_state l))
      else case state_set_find height (state_history l) of
        Some s \<Rightarrow> Some (st_quorums s)
      | None \<Rightarrow>
         (case state_set_find height (state_archive l) of
            Some s \<Rightarrow> Some (st_quorums s)
          | None \<Rightarrow>
             if include_old then
               (case dropWhile (\<lambda>entry. fst entry < height) (old_quorum_states l) of
                  [] \<Rightarrow> None
                | entry # _ \<Rightarrow> if fst entry = height then Some (snd entry) else None)
             else None))"

definition get_alt_quorums :: "frame_pix_list \<Rightarrow> quorum_type \<Rightarrow> u64 \<Rightarrow> quorum list" where
  "get_alt_quorums l type height =
     List.map_filter (\<lambda>(hash, s). if st_height s = height then quorum_manager_get (st_quorums s) type else None) (alt_state l)"

text \<open>The second result is what is appended to the alternative quorums when the caller asks for them.\<close>

definition get_quorum :: "frame_pix_list \<Rightarrow> quorum_type \<Rightarrow> u64 \<Rightarrow> bool \<Rightarrow> quorum option \<times> quorum list" where
  "get_quorum l type height include_old =
     (let height = offset_testing_quorum_height type height
      in case find_quorums l height include_old of
           None \<Rightarrow> (None, [])
         | Some quorums \<Rightarrow> (quorum_manager_get quorums type, get_alt_quorums l type height))"

definition get_quorum_pubkey :: "frame_pix_list \<Rightarrow> quorum_type \<Rightarrow> u8 \<Rightarrow> u64 \<Rightarrow> nat \<Rightarrow> pod32 option" where
  "get_quorum_pubkey l type grp height quorum_index =
     (case fst (get_quorum l type height False) of
        None \<Rightarrow> None
      | Some q \<Rightarrow> get_pubkey_from_quorum q grp quorum_index)"

definition get_frame_pix_count :: "frame_pix_list \<Rightarrow> nat" where
  "get_frame_pix_count l = length (frame_pixs_infos (m_state l))"

definition get_frame_pix_list_state :: "frame_pix_list \<Rightarrow> pod32 list \<Rightarrow> (pod32 \<times> frame_pix_info) list" where
  "get_frame_pix_list_state l frame_pix_pubkeys =
     (if frame_pix_pubkeys = [] then frame_pixs_infos (m_state l)
      else List.map_filter (\<lambda>key. map_option (Pair key) (map_of (frame_pixs_infos (m_state l)) key)) frame_pix_pubkeys)"

definition set_my_frame_pix_keys :: "frame_pix_keys option \<Rightarrow> frame_pix_list \<Rightarrow> frame_pix_list" where
  "set_my_frame_pix_keys ks l = l\<lparr>m_frame_pix_keys := ks\<rparr>"

definition set_quorum_history_storage :: "u64 \<Rightarrow> frame_pix_list \<Rightarrow> frame_pix_list" where
  "set_quorum_history_storage hist_size l = l\<lparr>m_store_quorum_history := (if hist_size = 1 then U64_MAX else hist_size)\<rparr>"

definition is_frame_pix :: "frame_pix_list \<Rightarrow> pod32 \<Rightarrow> bool \<Rightarrow> bool" where
  "is_frame_pix l pubkey require_active =
     (case map_of (frame_pixs_infos (m_state l)) pubkey of
        None \<Rightarrow> False
      | Some info \<Rightarrow> \<not> require_active \<or> is_active info)"

text \<open>The unlock height of the node and the contribution that locks the key image.\<close>

fun is_key_image_locked_in :: "frame_pixs_infos_t \<Rightarrow> pod32 \<Rightarrow> (u64 \<times> contribution_t) option" where
  "is_key_image_locked_in [] check_image = None"
| "is_key_image_locked_in ((key, info) # infos) check_image =
     (case find_unlock check_image (contributors info) of
        Some contribution \<Rightarrow> Some (requested_unlock_height info, contribution)
      | None \<Rightarrow> is_key_image_locked_in infos check_image)"

definition is_key_image_locked :: "frame_pix_list \<Rightarrow> pod32 \<Rightarrow> (u64 \<times> contribution_t) option" where
  "is_key_image_locked l check_image = is_key_image_locked_in (frame_pixs_infos (m_state l)) check_image"

section \<open>Blocks\<close>

text \<open>One state that leaves the recent history: it goes to the old quorums and to the archive, when they keep it.\<close>

definition cull_state :: "u64 \<Rightarrow> state_t \<Rightarrow> (u64 \<times> quorum_manager) list \<times> state_set \<times> bool
    \<Rightarrow> (u64 \<times> quorum_manager) list \<times> state_set \<times> bool" where
  "cull_state store_history it acc =
     (case acc of (old, archive, added) \<Rightarrow>
        let old = (if store_history \<noteq> 0 then old @ [(st_height it, st_quorums it)] else old);
            next_long_term_state = (st_height it div STORE_LONG_TERM_STATE_INTERVAL + 1) * STORE_LONG_TERM_STATE_INTERVAL;
            dist_to_next_long_term_state = next_long_term_state - st_height it;
            need_quorum_for_future_states =
              (dist_to_next_long_term_state \<le> VOTE_LIFETIME + VOTE_OR_TX_VERIFY_HEIGHT_BUFFER)
        in if st_height it mod STORE_LONG_TERM_STATE_INTERVAL = 0 \<or> need_quorum_for_future_states then
             let state = (if need_quorum_for_future_states
                   then it\<lparr>frame_pixs_infos := [], key_image_blacklist := [], only_loaded_quorums := True\<rparr> else it)
             in (old, state_set_insert state archive, True)
           else (old, archive, added))"

definition cull_history :: "u64 \<Rightarrow> frame_pix_list \<Rightarrow> frame_pix_list" where
  "cull_history cull_height l =
     (let gone = takeWhile (\<lambda>s. st_height s \<le> cull_height) (state_history l)
      in case fold (cull_state (m_store_quorum_history l)) gone
                (old_quorum_states l, state_archive l, state_added_to_archive l) of
           (old, archive, added) \<Rightarrow>
             l\<lparr>old_quorum_states := (if length old > unat (m_store_quorum_history l)
                                      then drop (length old - unat (m_store_quorum_history l)) old else old),
               state_archive := archive,
               state_added_to_archive := added,
               state_history := dropWhile (\<lambda>s. st_height s \<le> cull_height) (state_history l),
               alt_state := filter (\<lambda>(hash, s). \<not> st_height s < cull_height) (alt_state l)\<rparr>)"

definition process_block :: "'r list_ops \<Rightarrow> block \<Rightarrow> transaction list \<Rightarrow> frame_pix_list \<Rightarrow> state_error + frame_pix_list" where
  "process_block ops blk txs l =
     (if major_version blk < 9 then Inr l
      else
        let l = cull_history (short_term_state_cull_height (get_block_height blk)) l;
            l = l\<lparr>state_history := state_set_insert (m_state l) (state_history l)\<rparr>
        in bindE (update_from_block (chain ops) (list_nettype ops) (state_history l) (state_archive l) [] blk txs
                    (m_state l) (Some (sn_env l)))
             (\<lambda>(s, env). Inr (l\<lparr>m_state := s, sn_env := (case env of None \<Rightarrow> sn_env l | Some e \<Rightarrow> e)\<rparr>)))"

definition block_added :: "'r list_ops \<Rightarrow> block \<Rightarrow> transaction list \<Rightarrow> checkpoint_t option \<Rightarrow> frame_pix_list
    \<Rightarrow> state_error + bool \<times> frame_pix_list" where
  "block_added ops blk txs checkpoint l =
     (if major_version blk < 9 then Inr (True, l)
      else bindE (process_block ops blk txs l) (\<lambda>l.
        case checkpoint of
          Some cp \<Rightarrow>
            if major_version blk \<ge> 13 then
              (case fst (get_quorum l checkpointing (cp_height cp) False) of
                 None \<Rightarrow> Inr (False, l)
               | Some q \<Rightarrow> Inr (verify_checkpoint (base_crypto (tx_ops (chain ops))) (major_version blk) cp q, l))
            else Inr (True, l)
        | None \<Rightarrow> Inr (True, l)))"

definition starting_state :: "frame_pix_list \<Rightarrow> block \<Rightarrow> state_t option" where
  "starting_state l blk =
     (case state_set_find (get_block_height blk - 1) (state_history l) of
        Some s \<Rightarrow> if prev_id blk = st_block_hash s then Some s else map_of (alt_state l) (prev_id blk)
      | None \<Rightarrow> map_of (alt_state l) (prev_id blk))"

definition alt_block_added :: "'r list_ops \<Rightarrow> block \<Rightarrow> transaction list \<Rightarrow> checkpoint_t option \<Rightarrow> frame_pix_list
    \<Rightarrow> state_error + bool \<times> frame_pix_list" where
  "alt_block_added ops blk txs checkpoint l =
     (if major_version blk < 9 then Inr (True, l)
      else let hash = get_block_hash (chain ops) blk
      in case map_of (alt_state l) hash of
        Some _ \<Rightarrow> Inr (True, l)
      | None \<Rightarrow>
         (case starting_state l blk of
            None \<Rightarrow> Inr (False, l)
          | Some start \<Rightarrow>
             if st_block_hash start \<noteq> prev_id blk then Inr (False, l)
             else bindE (update_from_block (chain ops) (list_nettype ops) (state_history l) (state_archive l) (alt_state l)
                          blk txs start (Some (sn_env l)))
               (\<lambda>(s, env).
                 let l = l\<lparr>alt_state := AList.update hash s (alt_state l), sn_env := (case env of None \<Rightarrow> sn_env l | Some e \<Rightarrow> e)\<rparr>
                 in case checkpoint of
                      None \<Rightarrow> Inr (True, l)
                    | Some cp \<Rightarrow>
                       (case get_quorum l checkpointing (cp_height cp) False of
                          (None, _) \<Rightarrow> Inr (False, l)
                        | (Some q, alt_quorums) \<Rightarrow>
                            Inr (list_ex (verify_checkpoint (base_crypto (tx_ops (chain ops))) (major_version blk) cp)
                                   (q # alt_quorums), l)))))"

section \<open>Store and load\<close>

definition initialize_x25519_map :: "u64 \<Rightarrow> frame_pix_list \<Rightarrow> frame_pix_list" where
  "initialize_x25519_map now l =
     l\<lparr>x25519_to_pub :=
        fold (\<lambda>(key, info) m. case map_of (proofs (sn_env l)) key of
            None \<Rightarrow> m
          | Some p \<Rightarrow> if pr_pubkey_x25519 p \<noteq> null_pod \<and> map_of m (pr_pubkey_x25519 p) = None
                       then m @ [(pr_pubkey_x25519 p, key, now)] else m)
          (frame_pixs_infos (m_state l)) (x25519_to_pub l)\<rparr>"

definition reset :: "'r list_ops \<Rightarrow> bool \<Rightarrow> frame_pix_list \<Rightarrow> frame_pix_list" where
  "reset ops delete_db_entry l =
     l\<lparr>old_quorum_states := [], state_history := [], state_archive := [], alt_state := [], state_added_to_archive := False,
       m_state := initial_state\<lparr>st_height := hardfork_9_from_height ops - 1\<rparr>,
       db_long_term := (if has_db ops \<and> delete_db_entry then None else db_long_term l),
       db_short_term := (if has_db ops \<and> delete_db_entry then None else db_short_term l)\<rparr>"

definition load_state :: "'r list_ops \<Rightarrow> state_serialized \<Rightarrow> state_t" where
  "load_state ops = state_of_serialized (get_block_id_by_height ops) (get_hard_fork_version ops)"

definition without_infos :: "state_t \<Rightarrow> state_t" where
  "without_infos s = s\<lparr>frame_pixs_infos := [], key_image_blacklist := [], only_loaded_quorums := True\<rparr>"

primrec get_tx_list :: "'r chain_ops \<Rightarrow> pod32 list \<Rightarrow> transaction list option" where
  "get_tx_list ops [] = Some []"
| "get_tx_list ops (h # hs) = do { tx \<leftarrow> db_get_tx ops h; txs \<leftarrow> get_tx_list ops hs; Some (tx # txs) }"

text \<open>
  One entry of an archive of version 0, with the entry before it, whose quorums are the ones of its height.
\<close>

definition load_archive_v0_entry :: "'r list_ops \<Rightarrow> state_serialized \<times> state_serialized \<Rightarrow> frame_pix_list
    \<Rightarrow> list_error + frame_pix_list" where
  "load_archive_v0_entry ops pe l =
     (case pe of (prev_serialized_entry, serialized_entry) \<Rightarrow>
        if ss_height prev_serialized_entry mod STORE_LONG_TERM_STATE_INTERVAL = 0 then Inr l
        else
          let entry = load_state ops serialized_entry;
              entry = entry\<lparr>st_height := st_height entry - 1,
                st_quorums := quorum_for_serialization_to_quorum_manager (ss_quorums prev_serialized_entry)\<rparr>
          in if ss_height serialized_entry mod STORE_LONG_TERM_STATE_INTERVAL = 0 then
               (case db_get_block_from_height (chain ops) (st_height entry + 1) of
                  None \<Rightarrow> Inl DbError
                | Some blk \<Rightarrow>
                   (case get_tx_list (chain ops) (tx_hashes blk) of
                      None \<Rightarrow> Inl DbError
                    | Some txs \<Rightarrow>
                       bindE (liftS (update_from_block (chain ops) (list_nettype ops) [] [] [] blk txs entry (Some (sn_env l))))
                         (\<lambda>(long_term_state, env).
                           Inr (l\<lparr>state_archive := state_set_insert (without_infos entry)
                                    (state_set_insert long_term_state (state_archive l)),
                                  sn_env := (case env of None \<Rightarrow> sn_env l | Some e \<Rightarrow> e)\<rparr>))))
             else Inr (l\<lparr>state_archive := state_set_insert entry (state_archive l)\<rparr>))"

fun load_archive_v0 :: "'r list_ops \<Rightarrow> (state_serialized \<times> state_serialized) list \<Rightarrow> frame_pix_list
    \<Rightarrow> list_error + frame_pix_list" where
  "load_archive_v0 ops [] l = Inr l"
| "load_archive_v0 ops (pe # pes) l = bindE (load_archive_v0_entry ops pe l) (load_archive_v0 ops pes)"

text \<open>The result is whether loading goes on.\<close>

definition load_long_term :: "'r list_ops \<Rightarrow> frame_pix_list \<Rightarrow> list_error + bool \<times> frame_pix_list" where
  "load_long_term ops l =
     (case Option.bind (db_long_term l) (parse_binary get_data) of
        None \<Rightarrow> Inr (True, l)
      | Some data_in \<Rightarrow>
         (case ds_states data_in of
            [] \<Rightarrow> Inr (True, l)
          | first # _ \<Rightarrow>
             if ss_version first = 0 then
               if ss_height (last (ds_states data_in)) mod STORE_LONG_TERM_STATE_INTERVAL \<noteq> 0 then Inr (False, l)
               else bindE (load_archive_v0 ops (rev (zip (ds_states data_in) (tl (ds_states data_in)))) l)
                      (\<lambda>l. Inr (True, l))
             else Inr (True, l\<lparr>state_archive := fold (\<lambda>entry. state_set_insert (load_state ops entry)) (ds_states data_in) (state_archive l)\<rparr>)))"

fun load_old_quorums :: "u64 \<Rightarrow> u64 \<Rightarrow> quorum_for_serialization list \<Rightarrow> (u64 \<times> quorum_manager) list
    \<Rightarrow> bool \<times> (u64 \<times> quorum_manager) list" where
  "load_old_quorums from last_loaded_height [] old = (True, old)"
| "load_old_quorums from last_loaded_height (states # rest) old =
     (if qs_height states < from then load_old_quorums from last_loaded_height rest old
      else if qs_height states \<le> last_loaded_height then (False, old)
      else load_old_quorums from (qs_height states) rest
             (old @ [(qs_height states, quorum_for_serialization_to_quorum_manager states)]))"

definition with_block_id :: "'r list_ops \<Rightarrow> state_serialized \<Rightarrow> state_serialized" where
  "with_block_id ops entry =
     (if ss_block_hash entry = null_pod then entry\<lparr>ss_block_hash := get_block_id_by_height ops (ss_height entry)\<rparr> else entry)"

definition load_v0_entry :: "'r list_ops \<Rightarrow> state_serialized \<times> state_serialized \<Rightarrow> state_t" where
  "load_v0_entry ops pe =
     (let entry = load_state ops (snd pe)
      in entry\<lparr>st_quorums := quorum_for_serialization_to_quorum_manager (ss_quorums (fst pe)), st_height := st_height entry - 1\<rparr>)"

definition load_states :: "'r list_ops \<Rightarrow> state_serialized list \<Rightarrow> frame_pix_list \<Rightarrow> frame_pix_list" where
  "load_states ops states l =
     (if ss_version (hd states) = 0 then
        (case rev (zip states (tl states)) of
           [] \<Rightarrow> l
         | newest # pes \<Rightarrow>
            l\<lparr>m_state := load_v0_entry ops newest,
              state_archive := fold (\<lambda>pe. state_set_insert (load_v0_entry ops pe)) pes (state_archive l)\<rparr>)
      else
        l\<lparr>state_history := fold (\<lambda>entry. state_set_insert (load_state ops (with_block_id ops entry))) (butlast states) (state_history l),
          m_state := load_state ops (last states)\<rparr>)"

definition load_proofs :: "'r list_ops \<Rightarrow> frame_pix_list \<Rightarrow> frame_pix_list" where
  "load_proofs ops l =
     (let env = (sn_env l)\<lparr>proofs := get_all_frame_pix_proofs ops\<rparr>
      in l\<lparr>sn_env := (case m_frame_pix_keys l of
             None \<Rightarrow> env
           | Some ks \<Rightarrow> set_proof (key_pub ks) ((proof_at env (key_pub ks))\<lparr>pr_timestamp := 0, effective_timestamp := 0\<rparr>) env)\<rparr>)"

definition load_list :: "'r list_ops \<Rightarrow> u64 \<Rightarrow> u64 \<Rightarrow> frame_pix_list \<Rightarrow> list_error + bool \<times> frame_pix_list" where
  "load_list ops now current_height l0 =
     (let l = reset ops False l0
      in if \<not> has_db ops then Inr (False, l)
         else bindE (load_long_term ops l) (\<lambda>(go_on, l).
           if \<not> go_on then Inr (False, l)
           else case Option.bind (db_short_term l) (parse_binary get_data) of
             None \<Rightarrow> Inr (False, l)
           | Some data_in \<Rightarrow>
              if ds_states data_in = [] then Inr (False, l)
              else case load_old_quorums (current_height - m_store_quorum_history l) 0 (ds_quorum_states data_in) (old_quorum_states l) of
                (ok, old) \<Rightarrow>
                  let l = l\<lparr>old_quorum_states := old\<rparr>
                  in if \<not> ok then Inr (False, l)
                     else if only_stored_quorums (last (ds_states data_in)) then Inr (False, l)
                     else Inr (True, initialize_x25519_map now (load_proofs ops (load_states ops (ds_states data_in) l)))))"

definition init_list :: "'r list_ops \<Rightarrow> u64 \<Rightarrow> frame_pix_list \<Rightarrow> list_error + frame_pix_list" where
  "init_list ops now l =
     (if get_current_hard_fork_version ops < 9 then Inr (reset ops True l)
      else
        let current_height = get_current_blockchain_height ops
        in bindE (load_list ops now current_height l) (\<lambda>(loaded, l).
             let loaded = (loaded \<and> \<not> length (old_quorum_states l) < min (unat (m_store_quorum_history l)) 10)
             in if \<not> loaded \<or> st_height (m_state l) > current_height then Inr (reset ops True l) else Inr l))"

text \<open>
  The two caches are cleared before they are filled and always have the version 0, the only one there is.
\<close>

definition store_list :: "'r list_ops \<Rightarrow> frame_pix_list \<Rightarrow> bool \<times> frame_pix_list" where
  "store_list ops l =
     (if \<not> has_db ops then (False, l)
      else if get_current_hard_fork_version ops < 9 then (True, l)
      else
        let max_short_term_height = short_term_state_cull_height (st_height (m_state l) - 1)
              + VOTE_LIFETIME + VOTE_OR_TX_VERIFY_HEIGHT_BUFFER;
            long_term = \<lparr>ds_version = 0, ds_quorum_states = [],
              ds_states = (if state_added_to_archive l
                           then map (\<lambda>s. serialize_frame_pix_state_object s False) (state_archive l) else [])\<rparr>;
            short_term = \<lparr>ds_version = 0,
              ds_quorum_states = map (\<lambda>(height, quorums). serialize_quorum_state height quorums) (old_quorum_states l),
              ds_states = map (\<lambda>s. serialize_frame_pix_state_object s (st_height s < max_short_term_height))
                (takeWhile (\<lambda>s. st_height s \<le> max_short_term_height) (state_history l))\<rparr>
        in (True, l\<lparr>db_long_term := (if state_added_to_archive l then Some (put_data long_term) else db_long_term l),
                    db_short_term := Some (put_data short_term),
                    state_added_to_archive := False\<rparr>))"

definition state_set_upto :: "u64 \<Rightarrow> state_set \<Rightarrow> state_set" where
  "state_set_upto height states = takeWhile (\<lambda>s. st_height s \<le> height) states"

text \<open>
  Detaching goes back to the recent state of the height before, or else to the last archived state, or else
  loads the list again. What is loaded again is \<open>init_list\<close>; \<open>now\<close> is the time it is called at.
\<close>

definition blockchain_detached :: "'r list_ops \<Rightarrow> u64 \<Rightarrow> u64 \<Rightarrow> frame_pix_list \<Rightarrow> list_error + frame_pix_list" where
  "blockchain_detached ops now height l =
     (let revert_to_height = height - 1;
          prev_interval = revert_to_height - revert_to_height mod STORE_LONG_TERM_STATE_INTERVAL;
          usable = (\<lambda>found. case found of None \<Rightarrow> False | Some s \<Rightarrow> \<not> only_loaded_quorums s)
      in if usable (state_set_find revert_to_height (state_history l)) then
           let history = state_set_upto revert_to_height (state_history l)
           in Inr (l\<lparr>m_state := last history, state_history := butlast history\<rparr>)
         else if usable (state_set_find prev_interval (state_archive l)) then
           let archive = state_set_upto prev_interval (state_archive l)
           in Inr (l\<lparr>state_history := [], m_state := last archive, state_archive := butlast archive\<rparr>)
         else init_list ops now (l\<lparr>state_history := [], state_archive := []\<rparr>))"

section \<open>Uptime proofs\<close>

text \<open>The fields of the message that are read; its address and its ports are not.\<close>

record uptime_proof =
  snode_version :: "u16 list"
  up_timestamp :: u64
  up_pubkey :: pod32
  up_sig :: signature
  up_pubkey_ed25519 :: pod32
  up_sig_ed25519 :: signature

definition MIN_UPTIME_PROOF_VERSIONS :: "(u8 \<times> u16 list) list" where
  "MIN_UPTIME_PROOF_VERSIONS = [(15, [7, 1, 2]), (14, [6, 1, 0]), (13, [5, 1, 0]), (12, [4, 0, 3])]"

fun version_less :: "u16 list \<Rightarrow> u16 list \<Rightarrow> bool" where
  "version_less (a # as) (b # bs) = (a < b \<or> a = b \<and> version_less as bs)"
| "version_less [] (b # bs) = True"
| "version_less as [] = False"

definition hash_uptime_proof :: "crypto_ops \<Rightarrow> uptime_proof \<Rightarrow> pod32" where
  "hash_uptime_proof cr proof =
     cn_fast_hash cr (bytes_of_pod (up_pubkey proof) @ le_bytes 8 (up_timestamp proof) @ bytes_of_pod (up_pubkey_ed25519 proof))"

definition generate_uptime_proof :: "crypto_ops \<Rightarrow> (pod32 \<Rightarrow> signature) \<Rightarrow> u16 list \<Rightarrow> u64 \<Rightarrow> frame_pix_keys \<Rightarrow> pod32 \<Rightarrow> uptime_proof" where
  "generate_uptime_proof cr crypto_sign_detached guus_version now ks pub_ed25519 =
     (let result = \<lparr>snode_version = guus_version, up_timestamp = now, up_pubkey = key_pub ks, up_sig = (null_pod, null_pod),
            up_pubkey_ed25519 = pub_ed25519, up_sig_ed25519 = (null_pod, null_pod)\<rparr>;
          hash = hash_uptime_proof cr result
      in result\<lparr>up_sig := generate_signature cr hash (key_pub ks) (key_sec ks), up_sig_ed25519 := crypto_sign_detached hash\<rparr>)"

text \<open>The result tells whether the record in the database has to be written.\<close>

definition proof_update :: "u64 \<Rightarrow> u16 list \<Rightarrow> pod32 \<Rightarrow> pod32 \<Rightarrow> proof_info \<Rightarrow> bool \<times> proof_info" where
  "proof_update ts ver pk_ed pk_x2 p =
     (pr_timestamp p \<noteq> ts \<or> pr_version p \<noteq> ver \<or> pr_pubkey_ed25519 p \<noteq> pk_ed,
      p\<lparr>pr_timestamp := ts, pr_version := ver, pr_pubkey_ed25519 := pk_ed, effective_timestamp := ts, pr_pubkey_x25519 := pk_x2\<rparr>)"

definition update_pubkey :: "(pod32 \<Rightarrow> pod32 option) \<Rightarrow> pod32 \<Rightarrow> proof_info \<Rightarrow> proof_info" where
  "update_pubkey pk_to_curve25519 pk p =
     (if pk = pr_pubkey_ed25519 p then p
      else case (if pk \<noteq> null_pod then pk_to_curve25519 pk else None) of
             Some x \<Rightarrow> p\<lparr>pr_pubkey_x25519 := x, pr_pubkey_ed25519 := pk\<rparr>
           | None \<Rightarrow> p\<lparr>pr_pubkey_x25519 := null_pod, pr_pubkey_ed25519 := null_pod\<rparr>)"

text \<open>The checks that need only the proof; the result is the derived x25519 key, null before the hard fork that needs it.\<close>

definition check_uptime_proof :: "'r list_ops \<Rightarrow> u64 \<Rightarrow> uptime_proof \<Rightarrow> pod32 option" where
  "check_uptime_proof ops now proof =
     (let hf_version = get_current_hard_fork_version ops;
          cr = base_crypto (tx_ops (chain ops));
          hash = hash_uptime_proof cr proof
      in if up_timestamp proof < now - UPTIME_PROOF_BUFFER_IN_SECONDS \<or> up_timestamp proof > now + UPTIME_PROOF_BUFFER_IN_SECONDS
         then None
         else if list_ex (\<lambda>(hardfork, ver). hf_version \<ge> hardfork \<and> version_less (snode_version proof) ver) MIN_UPTIME_PROOF_VERSIONS
         then None
         else if \<not> check_signature cr hash (up_pubkey proof) (up_sig proof) then None
         else if hf_version \<ge> HF_VERSION_ED25519_KEY then
           if up_pubkey_ed25519 proof = null_pod then None
           else if \<not> crypto_sign_verify_detached ops (up_sig_ed25519 proof) hash (up_pubkey_ed25519 proof) then None
           else (case crypto_sign_ed25519_pk_to_curve25519 ops (up_pubkey_ed25519 proof) of
                   None \<Rightarrow> None
                 | Some x \<Rightarrow> if x = null_pod then None else Some x)
         else Some null_pod)"

text \<open>\<^verbatim>\<open>time_t\<close> is signed.\<close>

definition prune_x25519_map :: "u64 \<Rightarrow> frame_pix_list \<Rightarrow> frame_pix_list" where
  "prune_x25519_map now l =
     (if x25519_map_last_pruned l + X25519_MAP_PRUNING_INTERVAL \<le> now then
        let cutoff = now - X25519_MAP_PRUNING_LAG
        in l\<lparr>x25519_to_pub := filter (\<lambda>(x, key, seen). \<not> sint seen < sint cutoff) (x25519_to_pub l), x25519_map_last_pruned := now\<rparr>
      else l)"

definition map_x25519 :: "pod32 \<Rightarrow> pod32 \<Rightarrow> pod32 \<Rightarrow> u64 \<Rightarrow> frame_pix_list \<Rightarrow> frame_pix_list" where
  "map_x25519 old_x25519 derived pubkey now l =
     (let m = (if old_x25519 \<noteq> null_pod \<and> old_x25519 \<noteq> derived then AList.delete old_x25519 (x25519_to_pub l) else x25519_to_pub l)
      in l\<lparr>x25519_to_pub := (if derived \<noteq> null_pod then AList.update derived (pubkey, now) m else m)\<rparr>)"

text \<open>
  The result is the return value, what \<^verbatim>\<open>my_uptime_proof_confirmation\<close> is set to, if it is, and the list.
  Looking at the proof of a registered node creates an empty one when there is none.
\<close>

definition handle_uptime_proof :: "'r list_ops \<Rightarrow> u64 \<Rightarrow> uptime_proof \<Rightarrow> frame_pix_list \<Rightarrow> bool \<times> bool option \<times> frame_pix_list" where
  "handle_uptime_proof ops now proof l =
     (case check_uptime_proof ops now proof of
        None \<Rightarrow> (False, None, l)
      | Some derived \<Rightarrow>
         (case map_of (frame_pixs_infos (m_state l)) (up_pubkey proof) of
            None \<Rightarrow> (False, None, l)
          | Some _ \<Rightarrow>
             let pubkey = up_pubkey proof;
                 iproof = proof_at (sn_env l) pubkey;
                 env = set_proof pubkey iproof (sn_env l)
             in if pr_timestamp iproof \<ge> now - UPTIME_PROOF_FREQUENCY_IN_SECONDS div 2 then (False, None, l\<lparr>sn_env := env\<rparr>)
                else
                  case proof_update now (snode_version proof) (up_pubkey_ed25519 proof) derived iproof of
                    (update_db, iproof') \<Rightarrow>
                      let env = set_proof pubkey iproof' env;
                          env = (if update_db then store_proof pubkey iproof' env else env)
                      in (True, Some (case m_frame_pix_keys l of None \<Rightarrow> False | Some ks \<Rightarrow> pubkey = key_pub ks),
                          map_x25519 (pr_pubkey_x25519 iproof) derived pubkey now (prune_x25519_map now (l\<lparr>sn_env := env\<rparr>)))))"

definition cleanup_proofs :: "u64 \<Rightarrow> frame_pix_list \<Rightarrow> frame_pix_list" where
  "cleanup_proofs now l =
     (let stale = (\<lambda>(key, proof). map_of (frame_pixs_infos (m_state l)) key = None \<and> pr_timestamp proof + 6 * 60 * 60 < now)
      in l\<lparr>sn_env := (sn_env l)\<lparr>proofs := filter (Not \<circ> stale) (proofs (sn_env l))\<rparr>,
           db_removed_proofs := db_removed_proofs l @ map fst (filter stale (proofs (sn_env l)))\<rparr>)"

definition get_pubkey_from_x25519 :: "frame_pix_list \<Rightarrow> pod32 \<Rightarrow> pod32" where
  "get_pubkey_from_x25519 l x25519 = (case map_of (x25519_to_pub l) x25519 of None \<Rightarrow> null_pod | Some (key, _) \<Rightarrow> key)"

definition record_checkpoint_vote :: "pod32 \<Rightarrow> u64 \<Rightarrow> bool \<Rightarrow> frame_pix_list \<Rightarrow> frame_pix_list" where
  "record_checkpoint_vote pubkey height voted l =
     (case map_of (frame_pixs_infos (m_state l)) pubkey of
        None \<Rightarrow> l
      | Some _ \<Rightarrow>
         let info = proof_at (sn_env l) pubkey
         in l\<lparr>sn_env := set_proof pubkey
                (info\<lparr>pr_votes := (pr_votes info)[unat (vote_index info) := \<lparr>cv_height = height, cv_voted = voted\<rparr>],
                      vote_index := (vote_index info + 1) mod of_nat (length (pr_votes info))\<rparr>) (sn_env l)\<rparr>)"

end
