(* ===== verification/Framepix_History.thy ===== *)
theory Framepix_History
  imports Framepix_List
begin

text \<open>
  The history of the service node list: the recent states stay ordered by height, the quorums of the recent heights
  stay available while blocks are added, and detaching blocks returns to the state before them.
\<close>

section \<open>Sets of states\<close>

definition heights_ascend :: "state_set \<Rightarrow> bool" where
  "heights_ascend states = sorted_wrt (\<lambda>a b. st_height a < st_height b) states"

lemma state_set_insert_last:
  "\<forall>t \<in> set ts. st_height t < st_height s \<Longrightarrow> state_set_insert s ts = ts @ [s]"
  by (induction ts) auto

lemma set_state_set_insert: "set (state_set_insert s ts) \<subseteq> insert s (set ts)"
  by (induction ts) auto

lemma heights_ascend_insert: "heights_ascend ts \<Longrightarrow> heights_ascend (state_set_insert s ts)"
proof (induction ts)
  case (Cons t ts)
  then show ?case using set_state_set_insert [of s ts] by (fastforce simp: heights_ascend_def)
qed (simp add: heights_ascend_def)

lemma dropWhile_keeps: "\<not> P y \<Longrightarrow> dropWhile P (xs @ y # ys) = dropWhile P xs @ y # ys"
  by (induction xs) auto

lemma dropWhile_dropWhile: "(\<And>x. P x \<Longrightarrow> Q x) \<Longrightarrow> dropWhile Q (dropWhile P xs) = dropWhile Q xs"
  by (induction xs) auto

lemma heights_ascend_append:
  "heights_ascend (xs @ ys) \<longleftrightarrow> heights_ascend xs \<and> heights_ascend ys \<and> (\<forall>x \<in> set xs. \<forall>y \<in> set ys. st_height x < st_height y)"
  by (simp add: heights_ascend_def sorted_wrt_append)

lemma heights_ascend_dropWhile: "heights_ascend xs \<Longrightarrow> heights_ascend (dropWhile P xs)"
  by (metis heights_ascend_append takeWhile_dropWhile_id)

lemma state_set_find_unique:
  "heights_ascend (xs @ s # ys) \<Longrightarrow> state_set_find (st_height s) (xs @ s # ys) = Some s"
proof (induction xs)
  case (Cons x xs)
  then have "st_height x \<noteq> st_height s" by (auto simp: heights_ascend_def)
  then show ?case using Cons by (simp add: state_set_find_def heights_ascend_def)
qed (simp add: state_set_find_def)

lemma state_set_upto_mid: "heights_ascend (xs @ s # ys) \<Longrightarrow> state_set_upto (st_height s) (xs @ s # ys) = xs @ [s]"
proof (induction xs)
  case Nil
  then show ?case by (cases ys) (auto simp: state_set_upto_def heights_ascend_def)
next
  case (Cons x xs)
  then show ?case by (auto simp: state_set_upto_def heights_ascend_def)
qed

lemma state_set_find_dropWhile:
  "c < h \<Longrightarrow> state_set_find h (dropWhile (\<lambda>s. st_height s \<le> c) xs) = state_set_find h xs"
  by (induction xs) (auto simp: state_set_find_def)

lemma state_set_find_snoc:
  "state_set_find h (xs @ [s]) = (case state_set_find h xs of Some t \<Rightarrow> Some t | None \<Rightarrow> if st_height s = h then Some s else None)"
  by (induction xs) (auto simp: state_set_find_def)

lemma state_set_find_insert: "st_height s \<noteq> h \<Longrightarrow> state_set_find h (state_set_insert s ts) = state_set_find h ts"
  by (induction ts) (auto simp: state_set_find_def)

section \<open>One block\<close>

definition list_ok :: "frame_pix_list \<Rightarrow> bool" where
  "list_ok l \<longleftrightarrow> heights_ascend (state_history l) \<and> (\<forall>s \<in> set (state_history l). st_height s < st_height (m_state l))"

lemma cull_history_frame:
  "m_state (cull_history c l) = m_state l" "sn_env (cull_history c l) = sn_env l"
  "state_history (cull_history c l) = dropWhile (\<lambda>s. st_height s \<le> c) (state_history l)"
  by (simp_all add: cull_history_def Let_def split: prod.splits)

lemma cull_state_archive:
  "st_height s \<le> c \<Longrightarrow> c < h \<Longrightarrow> state_set_find h (fst (snd (cull_state sh s acc))) = state_set_find h (fst (snd acc))"
  by (auto simp: cull_state_def Let_def state_set_find_insert split: prod.splits)

lemma fold_cull_archive:
  "\<forall>s \<in> set gone. st_height s \<le> c \<Longrightarrow> c < h \<Longrightarrow>
   state_set_find h (fst (snd (fold (cull_state sh) gone acc))) = state_set_find h (fst (snd acc))"
proof (induction gone arbitrary: acc)
  case (Cons s gone)
  then show ?case using cull_state_archive [of s c h sh acc] by simp
qed simp

lemma cull_history_archive:
  assumes "c < h"
  shows "state_set_find h (state_archive (cull_history c l)) = state_set_find h (state_archive l)"
proof -
  let ?gone = "takeWhile (\<lambda>s. st_height s \<le> c) (state_history l)"
  have "state_archive (cull_history c l)
      = fst (snd (fold (cull_state (m_store_quorum_history l)) ?gone (old_quorum_states l, state_archive l, state_added_to_archive l)))"
    by (simp add: cull_history_def Let_def split: prod.splits)
  moreover have "\<forall>s \<in> set ?gone. st_height s \<le> c" by (auto dest: set_takeWhileD)
  ultimately show ?thesis
    using fold_cull_archive [of ?gone c h "m_store_quorum_history l" "(old_quorum_states l, state_archive l, state_added_to_archive l)"] assms
    by simp
qed

lemma process_block_step:
  assumes "process_block ops blk txs l = Inr l'" "9 \<le> major_version blk" "list_ok l"
  defines "c \<equiv> short_term_state_cull_height (st_height (m_state l) + 1)"
  shows "st_height (m_state l') = st_height (m_state l) + 1"
    "state_history l' = dropWhile (\<lambda>s. st_height s \<le> c) (state_history l) @ [m_state l]"
    "state_archive l' = state_archive (cull_history c l)"
proof -
  have v: "\<not> major_version blk < 9" using assms(2) by (simp add: not_less)
  let ?c = "short_term_state_cull_height (get_block_height blk)"
  let ?l = "cull_history ?c l"
  obtain s env where u: "update_from_block (chain ops) (list_nettype ops) (state_set_insert (m_state l) (state_history ?l)) (state_archive ?l)
        [] blk txs (m_state l) (Some (sn_env l)) = Inr (s, env)"
    and l': "m_state l' = s" "state_history l' = state_set_insert (m_state l) (state_history ?l)" "state_archive l' = state_archive ?l"
    using assms(1) v by (auto simp: process_block_def Let_def bindE_Inr_iff cull_history_frame split: if_splits)
  have h: "?c = c" "st_height s = st_height (m_state l) + 1"
    using update_from_block_frame(1,4) [OF u] by (simp_all add: c_def)
  have "\<forall>t \<in> set (dropWhile (\<lambda>s. st_height s \<le> c) (state_history l)). st_height t < st_height (m_state l)"
    using assms(3) by (auto simp: list_ok_def dest: set_dropWhileD)
  then show "state_history l' = dropWhile (\<lambda>s. st_height s \<le> c) (state_history l) @ [m_state l]"
    unfolding l' h(1) by (simp add: cull_history_frame state_set_insert_last)
  show "st_height (m_state l') = st_height (m_state l) + 1" "state_archive l' = state_archive (cull_history c l)"
    using h by (simp_all add: l')
qed

lemma list_ok_step:
  assumes "list_ok l" "state_history l' = dropWhile P (state_history l) @ [m_state l]"
    "st_height (m_state l') = st_height (m_state l) + 1" "st_height (m_state l) < U64_MAX"
  shows "list_ok l'"
proof -
  have "st_height (m_state l) < st_height (m_state l')"
    using assms(3,4) unat_add_u64_no_wrap [of "st_height (m_state l)" 1] by (simp add: word_less_nat_alt unat_U64_MAX)
  moreover have "\<forall>s \<in> set (dropWhile P (state_history l)). st_height s < st_height (m_state l)"
    using assms(1) by (auto simp: list_ok_def dest: set_dropWhileD)
  ultimately show ?thesis
    using assms(1,2) heights_ascend_dropWhile [of "state_history l" P]
    by (auto simp: list_ok_def heights_ascend_append dest: order.strict_trans) (simp add: heights_ascend_def)
qed

lemma unat_cull_height: "unat (short_term_state_cull_height h) = unat h - 360"
  by (simp add: short_term_state_cull_height_def VOTE_LIFETIME_60 Let_def word_less_nat_alt unat_sub_if')

section \<open>Many blocks\<close>

fun process_blocks :: "'r list_ops \<Rightarrow> (block \<times> transaction list) list \<Rightarrow> frame_pix_list \<Rightarrow> state_error + frame_pix_list" where
  "process_blocks ops [] l = Inr l"
| "process_blocks ops (b # bs) l = bindE (process_block ops (fst b) (snd b) l) (process_blocks ops bs)"

lemma process_blocks_snoc:
  "process_blocks ops (bs @ [b]) l = bindE (process_blocks ops bs l) (process_block ops (fst b) (snd b))"
proof (induction bs arbitrary: l)
  case (Cons a bs)
  then show ?case by (cases "process_block ops (fst a) (snd a) l") simp_all
next
  case Nil
  then show ?case by (cases "process_block ops (fst b) (snd b) l") simp_all
qed

lemma process_blocks_ok:
  assumes "process_blocks ops bs l = Inr l'" "list_ok l" "\<forall>b \<in> set bs. 9 \<le> major_version (fst b)"
    "unat (st_height (m_state l)) + length bs < 2 ^ 64"
  shows "list_ok l' \<and> unat (st_height (m_state l')) = unat (st_height (m_state l)) + length bs"
  using assms
proof (induction bs arbitrary: l' rule: rev_induct)
  case (snoc b bs)
  obtain l1 where l1: "process_blocks ops bs l = Inr l1" "process_block ops (fst b) (snd b) l1 = Inr l'"
    using snoc.prems(1) by (auto simp: process_blocks_snoc bindE_Inr_iff)
  have ih: "list_ok l1" "unat (st_height (m_state l1)) = unat (st_height (m_state l)) + length bs"
    using snoc.IH [OF l1(1)] snoc.prems by simp_all
  have v: "9 \<le> major_version (fst b)" using snoc.prems(3) by simp
  note st = process_block_step [OF l1(2) v ih(1)]
  have "st_height (m_state l1) < U64_MAX" using snoc.prems(4) ih(2) by (simp add: word_less_nat_alt unat_U64_MAX)
  then have "list_ok l'" by (rule list_ok_step [OF ih(1) st(2) st(1)])
  moreover have "unat (st_height (m_state l1) + 1) = unat (st_height (m_state l1)) + 1"
    using snoc.prems(4) ih(2) by (simp add: unat_add_u64)
  ultimately show ?case using ih(2) st(1) by simp
qed simp

text \<open>The last of a run of blocks, with what holds before it.\<close>

lemma process_blocks_last:
  assumes "process_blocks ops (bs @ [b]) l = Inr l'" "list_ok l" "\<forall>b \<in> set (bs @ [b]). 9 \<le> major_version (fst b)"
    "unat (st_height (m_state l)) + length (bs @ [b]) < 2 ^ 64"
  obtains l1 c where "process_blocks ops bs l = Inr l1" "list_ok l1"
    "unat (st_height (m_state l1)) = unat (st_height (m_state l)) + length bs" "st_height (m_state l1) < U64_MAX"
    "unat c = unat (st_height (m_state l)) + length bs + 1 - 360"
    "st_height (m_state l') = st_height (m_state l1) + 1"
    "state_history l' = dropWhile (\<lambda>s. st_height s \<le> c) (state_history l1) @ [m_state l1]"
    "state_archive l' = state_archive (cull_history c l1)"
proof -
  obtain l1 where l1: "process_blocks ops bs l = Inr l1" "process_block ops (fst b) (snd b) l1 = Inr l'"
    using assms(1) by (auto simp: process_blocks_snoc bindE_Inr_iff)
  have ok: "list_ok l1" "unat (st_height (m_state l1)) = unat (st_height (m_state l)) + length bs"
    using process_blocks_ok [OF l1(1) assms(2)] assms(3,4) by simp_all
  define c where "c = short_term_state_cull_height (st_height (m_state l1) + 1)"
  have v: "9 \<le> major_version (fst b)" using assms(3) by simp
  note st = process_block_step [OF l1(2) v ok(1), folded c_def]
  have "st_height (m_state l1) < U64_MAX" using assms(4) ok(2) by (simp add: word_less_nat_alt unat_U64_MAX)
  moreover have "unat (st_height (m_state l1) + 1) = unat (st_height (m_state l)) + length bs + 1"
    using assms(4) ok(2) by (simp add: unat_add_u64)
  then have "unat c = unat (st_height (m_state l)) + length bs + 1 - 360" by (simp add: c_def unat_cull_height)
  ultimately show ?thesis by (intro that [OF l1(1) ok _ _ st]) simp_all
qed

lemma process_blocks_history:
  assumes "process_blocks ops bs l = Inr l'" "list_ok l" "\<forall>b \<in> set bs. 9 \<le> major_version (fst b)"
    "unat (st_height (m_state l)) + length bs < 2 ^ 64" "0 < st_height (m_state l)" "length bs < 360" "bs \<noteq> []"
  shows "\<exists>c mid. unat c = unat (st_height (m_state l)) + length bs - 360
     \<and> state_history l' = dropWhile (\<lambda>s. st_height s \<le> c) (state_history l) @ m_state l # mid"
  using assms
proof (induction bs arbitrary: l' rule: rev_induct)
  case (snoc b bs)
  obtain l1 c where l1: "process_blocks ops bs l = Inr l1" "unat c = unat (st_height (m_state l)) + length bs + 1 - 360"
      "state_history l' = dropWhile (\<lambda>s. st_height s \<le> c) (state_history l1) @ [m_state l1]"
    using process_blocks_last [OF snoc.prems(1-4)] by metis
  have u: "unat c = unat (st_height (m_state l)) + length (bs @ [b]) - 360" using l1(2) by simp
  have pos: "0 < unat (st_height (m_state l))" using snoc.prems(5) by (simp add: word_less_nat_alt)
  have cl: "\<not> st_height (m_state l) \<le> c" using u pos snoc.prems(6) by (simp add: word_le_nat_alt)
  show ?case
  proof (cases "bs = []")
    case True
    then show ?thesis using l1 u by auto
  next
    case False
    have p: "\<forall>b \<in> set bs. 9 \<le> major_version (fst b)" "unat (st_height (m_state l)) + length bs < 2 ^ 64" "length bs < 360"
      using snoc.prems by simp_all
    obtain c1 mid where m: "unat c1 = unat (st_height (m_state l)) + length bs - 360"
        "state_history l1 = dropWhile (\<lambda>s. st_height s \<le> c1) (state_history l) @ m_state l # mid"
      using snoc.IH [OF l1(1) snoc.prems(2) p(1,2) snoc.prems(5) p(3) False] by blast
    have "c1 \<le> c" using m(1) u by (simp add: word_le_nat_alt)
    with cl have "dropWhile (\<lambda>s. st_height s \<le> c) (state_history l1) = dropWhile (\<lambda>s. st_height s \<le> c) (state_history l) @ m_state l # mid"
      unfolding m(2) by (subst dropWhile_keeps) (auto intro!: dropWhile_dropWhile elim: order_trans)
    then show ?thesis using l1(3) u by auto
  qed
qed simp

section \<open>Detaching\<close>

lemma detach_restores:
  assumes "list_ok l'" "state_history l' = xs @ s # mid" "\<not> only_loaded_quorums s"
  shows "blockchain_detached ops now (st_height s + 1) l' = Inr (l'\<lparr>m_state := s, state_history := xs\<rparr>)"
proof -
  have a: "heights_ascend (xs @ s # mid)" using assms(1,2) by (simp add: list_ok_def)
  show ?thesis
    using assms(2,3) state_set_find_unique [OF a] state_set_upto_mid [OF a]
    by (simp add: blockchain_detached_def Let_def)
qed

section \<open>Quorums\<close>

lemma find_quorums_step:
  assumes "list_ok l" "st_height (m_state l) < U64_MAX" "c < h" "h \<le> st_height (m_state l)"
    "st_height (m_state l') = st_height (m_state l) + 1"
    "state_history l' = dropWhile (\<lambda>s. st_height s \<le> c) (state_history l) @ [m_state l]"
    "state_archive l' = state_archive (cull_history c l)"
  shows "find_quorums l' h False = find_quorums l h False"
proof -
  have ne: "h \<noteq> st_height (m_state l')"
    using assms(2,4,5) unat_add_u64_no_wrap [of "st_height (m_state l)" 1]
    by (auto simp: word_less_nat_alt word_le_nat_alt unat_U64_MAX)
  have "st_height s = h \<Longrightarrow> s \<notin> set (state_history l)" if "h = st_height (m_state l)" for s
    using assms(1) that by (auto simp: list_ok_def)
  then have "state_set_find h (state_history l) = None" if "h = st_height (m_state l)"
    using that by (auto simp: state_set_find_def find_None_iff)
  then show ?thesis
    using ne assms(3) cull_history_archive [OF assms(3), of l]
    by (auto simp: find_quorums_def assms(6,7) state_set_find_snoc state_set_find_dropWhile split: option.splits)
qed

lemma quorums_kept:
  assumes "process_blocks ops bs l = Inr l'" "list_ok l" "\<forall>b \<in> set bs. 9 \<le> major_version (fst b)"
    "unat (st_height (m_state l)) + length bs < 2 ^ 64" "unat (st_height (m_state l)) + length bs < unat h + 360"
    "h \<le> st_height (m_state l)" "0 < h"
  shows "find_quorums l' h False = find_quorums l h False"
  using assms
proof (induction bs arbitrary: l' rule: rev_induct)
  case (snoc b bs)
  obtain l1 c where l1: "process_blocks ops bs l = Inr l1" "list_ok l1"
      "unat (st_height (m_state l1)) = unat (st_height (m_state l)) + length bs" "st_height (m_state l1) < U64_MAX"
      "unat c = unat (st_height (m_state l)) + length bs + 1 - 360"
      "st_height (m_state l') = st_height (m_state l1) + 1"
      "state_history l' = dropWhile (\<lambda>s. st_height s \<le> c) (state_history l1) @ [m_state l1]"
      "state_archive l' = state_archive (cull_history c l1)"
    using snoc.prems(1-4) by (rule process_blocks_last)
  have "c < h" using l1(5) snoc.prems(5,7) by (simp add: word_less_nat_alt)
  moreover have "h \<le> st_height (m_state l1)" using l1(3) snoc.prems(6) by (simp add: word_le_nat_alt)
  ultimately have "find_quorums l' h False = find_quorums l1 h False"
    using l1 by (intro find_quorums_step) simp_all
  then show ?case using snoc.IH [OF l1(1)] snoc.prems by simp
qed simp

section \<open>Properties\<close>

lemma list_ok_restored: "list_ok l \<Longrightarrow> list_ok (l'\<lparr>m_state := m_state l, state_history := dropWhile P (state_history l)\<rparr>)"
  using heights_ascend_dropWhile [of "state_history l" P] by (auto simp: list_ok_def dest: set_dropWhileD)

text \<open>
  C5. Detaching blocks undoes them. After any run of fewer than 360 blocks was added to a list whose recent states are ordered
  by height, detaching the chain at the height of the first of them returns to the very state
  from before the run, and the recent states are those from before it that have not become too old.
\<close>

theorem detach_undoes_blocks:
  assumes "process_blocks ops bs l = Inr l'" "list_ok l" "\<forall>b \<in> set bs. 9 \<le> major_version (fst b)"
    "unat (st_height (m_state l)) + length bs < 2 ^ 64" "0 < st_height (m_state l)" "length bs < 360" "bs \<noteq> []"
    "\<not> only_loaded_quorums (m_state l)"
  shows "\<exists>l'' c. blockchain_detached ops now (st_height (m_state l) + 1) l' = Inr l'' \<and> m_state l'' = m_state l
    \<and> unat c = unat (st_height (m_state l)) + length bs - 360
    \<and> state_history l'' = dropWhile (\<lambda>s. st_height s \<le> c) (state_history l) \<and> list_ok l''"
proof -
  obtain c mid where h: "unat c = unat (st_height (m_state l)) + length bs - 360"
      "state_history l' = dropWhile (\<lambda>s. st_height s \<le> c) (state_history l) @ m_state l # mid"
    using process_blocks_history [OF assms(1-7)] by blast
  have "list_ok l'" using process_blocks_ok [OF assms(1-4)] by blast
  from detach_restores [OF this h(2) assms(8)] h(1) list_ok_restored [OF assms(2)] show ?thesis by fastforce
qed

text \<open>
  C17. The quorums that votes and transactions refer to stay available: while blocks are added, the list
  gives for every height that is at most 359 blocks below the new one the same quorum as before, of
  each type (a vote is accepted for 60 blocks and a few more, see \<^verbatim>\<open>VOTE_LIFETIME\<close>).
\<close>

theorem quorums_stay_available:
  assumes "process_blocks ops bs l = Inr l'" "list_ok l" "\<forall>b \<in> set bs. 9 \<le> major_version (fst b)"
    "unat (st_height (m_state l)) + length bs < 2 ^ 64"
    "offset_testing_quorum_height type height = h" "0 < h" "h \<le> st_height (m_state l)"
    "unat (st_height (m_state l)) + length bs < unat h + 360"
  shows "fst (get_quorum l' type height False) = fst (get_quorum l type height False)"
  using quorums_kept [OF assms(1-4,8,7,6)] assms(5) by (simp add: get_quorum_def Let_def split: option.splits)

section \<open>A run of blocks\<close>

definition sample_list_ops :: "u64 list_ops" where
  "sample_list_ops = \<lparr>chain = sample_ops, list_nettype = FAKECHAIN, has_db = True, get_current_hard_fork_version = 16,
     get_current_blockchain_height = 101, get_hard_fork_version = (\<lambda>h. 16), get_block_id_by_height = (\<lambda>h. 1),
     hardfork_9_from_height = 50, get_all_frame_pix_proofs = [], crypto_sign_verify_detached = (\<lambda>s h k. True),
     crypto_sign_ed25519_pk_to_curve25519 = (\<lambda>k. Some (k + 1))\<rparr>"

definition sample_list :: "state_t \<Rightarrow> frame_pix_list" where
  "sample_list s = \<lparr>m_store_quorum_history = 0, old_quorum_states = [], state_history = [], state_archive = [], alt_state = [],
     state_added_to_archive = False, m_state = s, sn_env = \<lparr>proofs = [], proof_writes = [], m_rescanning = False\<rparr>,
     m_frame_pix_keys = None, x25519_to_pub = [], x25519_map_last_pruned = 0, db_long_term = None, db_short_term = None,
     db_removed_proofs = []\<rparr>"

abbreviation (input) sample_quorums :: quorum_manager where
  "sample_quorums \<equiv> no_quorums\<lparr>qm_obligations := Some \<lparr>validators = [77], workers = []\<rparr>\<rparr>"

abbreviation (input) sample_start :: state_t where
  "sample_start \<equiv> initial_state\<lparr>st_height := 99, st_block_hash := 1, st_quorums := sample_quorums\<rparr>"

lemma sample_block_processed: "\<exists>l'. process_blocks sample_list_ops [(sample_block 100, [])] (sample_list sample_start) = Inr l'"
proof -
  let ?s = sample_start and ?s' = "initial_state\<lparr>st_height := 100, st_block_hash := 1\<rparr>"
  have b: "begin_block sample_ops FAKECHAIN (sample_block 100) ?s = (False, ?s')"
    by (simp add: begin_block_def Let_def expire_nodes_def get_expired_nodes_def advance_winner_def initial_state_def sample_ops_def sample_block_def)
  have t: "FAKECHAIN = TESTNET \<and> st_height ?s' < 85357 \<longrightarrow> (16 :: u8) < 13 \<or> decommissioned_frame_pixs_infos ?s' = []" by simp
  have p: "distinct (map fst (frame_pixs_infos ?s'))" "length (frame_pixs_infos ?s') < 2 ^ 64" "st_block_hash ?s' \<noteq> null_pod"
    by (simp_all add: initial_state_def)
  obtain qm where qm: "generate_quorums sample_ops FAKECHAIN 16 ?s' = Inr qm"
    using generate_quorums_returns [OF rng_live_sample_ops p t] by (elim exE conjE) (rule that)
  have hf: "major_version (sample_block 100) = 16" by (simp add: sample_block_def)
  have "update_from_block sample_ops FAKECHAIN hist arch alts (sample_block 100) [] ?s env = Inr (?s'\<lparr>st_quorums := qm\<rparr>, env)" for hist arch alts env
    using qm hf by (simp add: update_from_block_def sample_block_height b)
  then show ?thesis
    by (simp add: process_block_def hf Let_def cull_history_def sample_list_def sample_list_ops_def)
qed

lemma sample_list_ok: "list_ok (sample_list s)"
  by (simp add: list_ok_def sample_list_def heights_ascend_def)

theorem detach_undoes_blocks_witness:
  "\<exists>l' l''. process_blocks sample_list_ops [(sample_block 100, [])] (sample_list sample_start) = Inr l'
     \<and> blockchain_detached sample_list_ops 0 100 l' = Inr l'' \<and> m_state l'' = sample_start"
proof -
  obtain l' where l': "process_blocks sample_list_ops [(sample_block 100, [])] (sample_list sample_start) = Inr l'"
    using sample_block_processed by blast
  have "m_state (sample_list sample_start) = sample_start" by (simp add: sample_list_def)
  then show ?thesis
    using detach_undoes_blocks [OF l' sample_list_ok, of 0] l' by (simp add: sample_block_def initial_state_def) blast
qed

theorem quorums_stay_available_witness:
  "\<exists>l'. process_blocks sample_list_ops [(sample_block 100, [])] (sample_list sample_start) = Inr l'
     \<and> fst (get_quorum l' obligations 99 False) = Some \<lparr>validators = [77], workers = []\<rparr>"
proof -
  obtain l' where l': "process_blocks sample_list_ops [(sample_block 100, [])] (sample_list sample_start) = Inr l'"
    using sample_block_processed by blast
  have m: "m_state (sample_list sample_start) = sample_start" by (simp add: sample_list_def)
  then have "fst (get_quorum (sample_list sample_start) obligations 99 False) = Some \<lparr>validators = [77], workers = []\<rparr>"
    by (simp add: get_quorum_def offset_testing_quorum_height_def find_quorums_def quorum_manager_get_def)
  then show ?thesis
    using quorums_stay_available [OF l' sample_list_ok, of obligations 99 99] l' m
    by (simp add: sample_block_def offset_testing_quorum_height_def)
qed

end
