(* ===== verification/Framepix_Uptime.thy ===== *)
theory Framepix_Uptime
  imports Framepix_History
begin

text \<open>
  Uptime proofs: what the list requires of a proof it accepts, what accepting one changes, and that a node
  is not heard again for half of the proof interval.
\<close>

section \<open>Lemmas\<close>

lemma check_uptime_proof_Some:
  assumes "check_uptime_proof ops now proof = Some derived"
  defines "cr \<equiv> base_crypto (tx_ops (chain ops))" and "hf \<equiv> get_current_hard_fork_version ops"
  shows "now - 300 \<le> up_timestamp proof" "up_timestamp proof \<le> now + 300"
    "check_signature cr (hash_uptime_proof cr proof) (up_pubkey proof) (up_sig proof)"
    "\<forall>(hardfork, ver) \<in> set MIN_UPTIME_PROOF_VERSIONS. hardfork \<le> hf \<longrightarrow> \<not> version_less (snode_version proof) ver"
    "13 \<le> hf \<Longrightarrow> crypto_sign_verify_detached ops (up_sig_ed25519 proof) (hash_uptime_proof cr proof) (up_pubkey_ed25519 proof)
       \<and> crypto_sign_ed25519_pk_to_curve25519 ops (up_pubkey_ed25519 proof) = Some derived \<and> derived \<noteq> null_pod"
  using assms(1)
  by (auto simp: check_uptime_proof_def Let_def cr_def hf_def list_ex_iff not_less split: if_splits option.splits)

lemma prune_frame:
  "m_state (prune_x25519_map now l) = m_state l" "sn_env (prune_x25519_map now l) = sn_env l"
  "m_state (map_x25519 old d k now l) = m_state l" "sn_env (map_x25519 old d k now l) = sn_env l"
  by (simp_all add: prune_x25519_map_def map_x25519_def Let_def)

lemma proof_at_set_proof: "proof_at (set_proof key p env) key' = (if key' = key then p else proof_at env key')"
  by (simp add: proof_at_def set_proof_def update_conv')

lemma store_proof_frame: "proofs (store_proof key p env) = proofs env"
  by (simp add: store_proof_def)

lemma get_pubkey_from_map_x25519: "d \<noteq> null_pod \<Longrightarrow> get_pubkey_from_x25519 (map_x25519 old d k now l) d = k"
  by (simp add: get_pubkey_from_x25519_def map_x25519_def Let_def update_conv')

lemma handle_uptime_proof_True:
  assumes "handle_uptime_proof ops now proof l = (True, conf, l')"
  obtains derived info where "check_uptime_proof ops now proof = Some derived"
    "map_of (frame_pixs_infos (m_state l)) (up_pubkey proof) = Some info"
    "pr_timestamp (proof_at (sn_env l) (up_pubkey proof)) < now - 1800"
    "m_state l' = m_state l"
    "\<forall>key. proof_at (sn_env l') key = (if key = up_pubkey proof
       then snd (proof_update now (snode_version proof) (up_pubkey_ed25519 proof) derived (proof_at (sn_env l) key))
       else proof_at (sn_env l) key)"
    "derived \<noteq> null_pod \<longrightarrow> get_pubkey_from_x25519 l' derived = up_pubkey proof"
proof -
  obtain derived where d: "check_uptime_proof ops now proof = Some derived"
    using assms by (cases "check_uptime_proof ops now proof") (simp_all add: handle_uptime_proof_def)
  obtain info where i: "map_of (frame_pixs_infos (m_state l)) (up_pubkey proof) = Some info"
    using assms d by (cases "map_of (frame_pixs_infos (m_state l)) (up_pubkey proof)") (simp_all add: handle_uptime_proof_def)
  define ip where "ip = proof_at (sn_env l) (up_pubkey proof)"
  define up where "up = proof_update now (snode_version proof) (up_pubkey_ed25519 proof) derived ip"
  define env where "env = (let env = set_proof (up_pubkey proof) (snd up) (set_proof (up_pubkey proof) ip (sn_env l))
      in if fst up then store_proof (up_pubkey proof) (snd up) env else env)"
  have t: "\<not> pr_timestamp ip \<ge> now - 1800"
    using assms d i by (auto simp: handle_uptime_proof_def Let_def ip_def split: if_splits)
  then have l': "l' = map_x25519 (pr_pubkey_x25519 ip) derived (up_pubkey proof) now (prune_x25519_map now (l\<lparr>sn_env := env\<rparr>))"
    using assms d i by (simp add: handle_uptime_proof_def Let_def ip_def [symmetric] up_def [symmetric] env_def split: prod.splits if_splits)
  have e: "proof_at (sn_env l') key = (if key = up_pubkey proof then snd up else proof_at (sn_env l) key)" for key
    by (simp add: l' prune_frame env_def Let_def proof_at_def store_proof_frame set_proof_def update_conv')
  show ?thesis
  proof (rule that [OF d i])
    show "pr_timestamp (proof_at (sn_env l) (up_pubkey proof)) < now - 1800" using t by (simp add: ip_def not_le)
    show "m_state l' = m_state l" by (simp add: l' prune_frame)
    show "\<forall>key. proof_at (sn_env l') key = (if key = up_pubkey proof
       then snd (proof_update now (snode_version proof) (up_pubkey_ed25519 proof) derived (proof_at (sn_env l) key))
       else proof_at (sn_env l) key)"
      using e by (simp add: up_def ip_def)
    show "derived \<noteq> null_pod \<longrightarrow> get_pubkey_from_x25519 l' derived = up_pubkey proof"
      using get_pubkey_from_map_x25519 by (simp add: l')
  qed
qed

lemma recent_proof_rejected:
  assumes "now' - 1800 \<le> pr_timestamp (proof_at (sn_env l) (up_pubkey proof))"
  shows "\<not> fst (handle_uptime_proof ops now' proof l)"
  using assms by (simp add: handle_uptime_proof_def Let_def split: option.splits)

section \<open>Properties\<close>

text \<open>
  C15. An uptime proof is accepted only from a registered node: the proof is signed with the key of the
  node, within five minutes of the local time, made by a version the hard fork allows, and from hard
  fork 13 on also signed with the ed25519 key it names. Accepting it records the time and the keys for that
  node and no other, leaves the list of nodes alone, makes the derived x25519 key lead to the node,
  and the next proof of the same node is refused for half an hour.
\<close>

theorem uptime_proof_accepted:
  assumes "handle_uptime_proof ops now proof l = (True, conf, l')"
  defines "cr \<equiv> base_crypto (tx_ops (chain ops))" and "hf \<equiv> get_current_hard_fork_version ops"
  shows "up_pubkey proof \<in> fst ` set (frame_pixs_infos (m_state l))
    \<and> now - 300 \<le> up_timestamp proof \<and> up_timestamp proof \<le> now + 300
    \<and> check_signature cr (hash_uptime_proof cr proof) (up_pubkey proof) (up_sig proof)
    \<and> (\<forall>(hardfork, ver) \<in> set MIN_UPTIME_PROOF_VERSIONS. hardfork \<le> hf \<longrightarrow> \<not> version_less (snode_version proof) ver)
    \<and> pr_timestamp (proof_at (sn_env l) (up_pubkey proof)) < now - 1800
    \<and> m_state l' = m_state l
    \<and> (\<forall>key. key \<noteq> up_pubkey proof \<longrightarrow> proof_at (sn_env l') key = proof_at (sn_env l) key)
    \<and> pr_timestamp (proof_at (sn_env l') (up_pubkey proof)) = now
    \<and> pr_pubkey_ed25519 (proof_at (sn_env l') (up_pubkey proof)) = up_pubkey_ed25519 proof
    \<and> (13 \<le> hf \<longrightarrow> crypto_sign_verify_detached ops (up_sig_ed25519 proof) (hash_uptime_proof cr proof) (up_pubkey_ed25519 proof)
        \<and> (\<exists>x. crypto_sign_ed25519_pk_to_curve25519 ops (up_pubkey_ed25519 proof) = Some x
             \<and> get_pubkey_from_x25519 l' x = up_pubkey proof \<and> pr_pubkey_x25519 (proof_at (sn_env l') (up_pubkey proof)) = x))
    \<and> (\<forall>now' proof'. up_pubkey proof' = up_pubkey proof \<and> 1800 \<le> unat now' \<and> unat now' \<le> unat now + 1800
        \<longrightarrow> \<not> fst (handle_uptime_proof ops now' proof' l'))"
proof -
  obtain derived info where d: "check_uptime_proof ops now proof = Some derived"
    "map_of (frame_pixs_infos (m_state l)) (up_pubkey proof) = Some info"
    "pr_timestamp (proof_at (sn_env l) (up_pubkey proof)) < now - 1800" "m_state l' = m_state l"
    and p: "\<forall>key. proof_at (sn_env l') key = (if key = up_pubkey proof
       then snd (proof_update now (snode_version proof) (up_pubkey_ed25519 proof) derived (proof_at (sn_env l) key))
       else proof_at (sn_env l) key)"
    and x: "derived \<noteq> null_pod \<longrightarrow> get_pubkey_from_x25519 l' derived = up_pubkey proof"
    using assms(1) by (rule handle_uptime_proof_True)
  note c = check_uptime_proof_Some [OF d(1), folded cr_def hf_def]
  have r: "\<not> fst (handle_uptime_proof ops now' proof' l')"
    if "up_pubkey proof' = up_pubkey proof" "1800 \<le> unat now'" "unat now' \<le> unat now + 1800" for now' proof'
  proof (rule recent_proof_rejected)
    have "unat (now' - 1800) = unat now' - 1800" using that(2) by (simp add: unat_sub_u64_no_wrap word_le_nat_alt)
    then show "now' - 1800 \<le> pr_timestamp (proof_at (sn_env l') (up_pubkey proof'))"
      using that by (simp add: p proof_update_def word_le_nat_alt)
  qed
  have "up_pubkey proof \<in> fst ` set (frame_pixs_infos (m_state l))" using d(2) by (force dest: map_of_SomeD)
  then show ?thesis using c d(3,4) r x by (auto simp: p proof_update_def)
qed

definition sample_proof :: uptime_proof where
  "sample_proof = \<lparr>snode_version = [7, 1, 2], up_timestamp = 1000000, up_pubkey = 77, up_sig = (0, 0),
     up_pubkey_ed25519 = 5, up_sig_ed25519 = (0, 0)\<rparr>"

lemma sample_proof_accepted:
  "\<exists>l'. handle_uptime_proof sample_list_ops 1000000 sample_proof
      (sample_list (initial_state\<lparr>frame_pixs_infos := [(77, default_info)]\<rparr>)) = (True, Some False, l')"
  by (simp add: handle_uptime_proof_def check_uptime_proof_def sample_list_ops_def sample_list_def sample_proof_def Let_def
      MIN_UPTIME_PROOF_VERSIONS_def sample_ops_def open_crypto_def proof_at_def default_proof_def proof_update_def)

theorem uptime_proof_accepted_witness:
  "\<exists>l'. handle_uptime_proof sample_list_ops 1000000 sample_proof
      (sample_list (initial_state\<lparr>frame_pixs_infos := [(77, default_info)]\<rparr>)) = (True, Some False, l')
     \<and> get_pubkey_from_x25519 l' 6 = 77 \<and> \<not> fst (handle_uptime_proof sample_list_ops 1000900 sample_proof l')"
proof -
  obtain l' where l': "handle_uptime_proof sample_list_ops 1000000 sample_proof
      (sample_list (initial_state\<lparr>frame_pixs_infos := [(77, default_info)]\<rparr>)) = (True, Some False, l')"
    using sample_proof_accepted by blast
  note a = uptime_proof_accepted [OF l']
  have "get_pubkey_from_x25519 l' 6 = 77"
    using a by (simp add: sample_list_ops_def sample_proof_def)
  moreover have "\<not> fst (handle_uptime_proof sample_list_ops 1000900 sample_proof l')"
    using a by (elim conjE) (erule allE [of _ 1000900], erule allE [of _ sample_proof], simp)
  ultimately show ?thesis using l' by blast
qed

end
