(* ===== verification/Framepix_Restart.thy ===== *)
theory Framepix_Restart
  imports Framepix_History
begin

text \<open>
  Storing the list and loading it again: the two blobs that \<^verbatim>\<open>store\<close> writes are read back by \<^verbatim>\<open>init\<close>
  to a list at the height of the newest state that was stored whole, with the quorums of the heights below.
\<close>

section \<open>Definitions\<close>

text \<open>The height of the state that is stored whole, and the form in which the older ones come back.\<close>

definition stored_height :: "frame_pix_list \<Rightarrow> u64" where
  "stored_height l = short_term_state_cull_height (st_height (m_state l) - 1) + VOTE_LIFETIME + VOTE_OR_TX_VERIFY_HEIGHT_BUFFER"

definition quorum_only_state :: "'r list_ops \<Rightarrow> state_t \<Rightarrow> state_t" where
  "quorum_only_state ops s = \<lparr>st_block_hash = get_block_id_by_height ops (st_height s), only_loaded_quorums = True,
     frame_pixs_infos = [], key_image_blacklist = [], st_height = st_height s,
     st_quorums = reloaded_quorums (st_height s) (st_quorums s)\<rparr>"

definition reloaded_state :: "state_t \<Rightarrow> state_t" where
  "reloaded_state s = s\<lparr>st_quorums := reloaded_quorums (st_height s) (st_quorums s)\<rparr>"

text \<open>What can be stored: the counts fit their width, and every record has the current version.\<close>

definition list_storable :: "frame_pix_list \<Rightarrow> bool" where
  "list_storable l \<longleftrightarrow> length (state_history l) < 2 ^ 64 \<and> length (state_archive l) < 2 ^ 64 \<and> length (old_quorum_states l) < 2 ^ 64
     \<and> (\<forall>s \<in> set (state_history l) \<union> set (state_archive l). state_storable s)
     \<and> (\<forall>(h, qm) \<in> set (old_quorum_states l). pred_option quorum_stored_ok (qm_obligations qm)
          \<and> pred_option quorum_stored_ok (qm_checkpointing qm))"

text \<open>The old quorums ascend from the first height that is kept.\<close>

definition old_quorums_ok :: "u64 \<Rightarrow> (u64 \<times> quorum_manager) list \<Rightarrow> bool" where
  "old_quorums_ok from old \<longleftrightarrow> sorted_wrt (\<lambda>a b. fst a < fst b) old \<and> (\<forall>e \<in> set old. 0 < fst e \<and> from \<le> fst e)"

text \<open>The archive that a blob holds: what an earlier \<^verbatim>\<open>store\<close> wrote, or none when there is no blob.\<close>

definition stored_archive :: "byte list option \<Rightarrow> state_set \<Rightarrow> bool" where
  "stored_archive blob arch \<longleftrightarrow> blob = None \<and> arch = []
     \<or> blob = Some (put_data \<lparr>ds_version = 0, ds_quorum_states = [],
            ds_states = map (\<lambda>s. serialize_frame_pix_state_object s False) arch\<rparr>)
       \<and> (\<forall>s \<in> set arch. state_storable s) \<and> heights_ascend arch \<and> length arch < 2 ^ 64"

section \<open>Reading back\<close>

lemma fold_insert_ascending:
  "heights_ascend (acc @ map f xs) \<Longrightarrow> fold (\<lambda>e. state_set_insert (f e)) xs acc = acc @ map f xs"
proof (induction xs arbitrary: acc)
  case (Cons x xs)
  then have "\<forall>t \<in> set acc. st_height t < st_height (f x)" by (auto simp: heights_ascend_append)
  then show ?case using Cons.IH [of "acc @ [f x]"] Cons.prems by (simp add: state_set_insert_last)
qed simp

lemma load_old_quorums_all:
  "\<lbrakk>sorted_wrt (\<lambda>a b. fst a < fst b) old; \<forall>e \<in> set old. last_loaded < fst e \<and> from \<le> fst e\<rbrakk> \<Longrightarrow>
   load_old_quorums from last_loaded (map (\<lambda>(h, qm). serialize_quorum_state h qm) old) acc
     = (True, acc @ map (\<lambda>(h, qm). (h, reloaded_quorums h qm)) old)"
proof (induction old arbitrary: last_loaded acc)
  case (Cons e old)
  obtain h qm where e: "e = (h, qm)" by (cases e)
  have s: "qs_height (serialize_quorum_state h qm) = h" by (simp add: serialize_quorum_state_def)
  have "\<not> h < from" "\<not> h \<le> last_loaded" using Cons.prems by (auto simp: e)
  then show ?case using Cons.IH [of h] Cons.prems by (simp add: e s reloaded_quorums_eq)
qed simp

lemma load_quorum_only:
  "load_state ops (with_block_id ops (serialize_frame_pix_state_object s True)) = quorum_only_state ops s"
  by (simp add: load_state_def with_block_id_def serialize_frame_pix_state_object_def Let_def state_of_serialized_def
      quorum_only_state_def reloaded_quorums_eq)

lemma load_whole: "state_storable s \<Longrightarrow> load_state ops (serialize_frame_pix_state_object s False) = reloaded_state s"
  by (simp add: load_state_def state_of_serialize reloaded_state_def)

lemma serialize_version [simp]: "ss_version (serialize_frame_pix_state_object s b) = 1"
  by (simp add: serialize_frame_pix_state_object_def Let_def)

lemma heights_ascend_map:
  "(\<And>s. st_height (f s) = st_height s) \<Longrightarrow> heights_ascend (map f xs) = heights_ascend xs"
  by (simp add: heights_ascend_def sorted_wrt_map)

lemma load_states_stored:
  assumes "heights_ascend pre" "\<forall>t \<in> set pre. st_height t < m" "state_storable s" "\<not> st_height s < m" "state_history l = []"
  shows "load_states ops (map (\<lambda>s. serialize_frame_pix_state_object s (st_height s < m)) (pre @ [s])) l
    = l\<lparr>state_history := map (quorum_only_state ops) pre, m_state := reloaded_state s\<rparr>"
proof -
  let ?ser = "\<lambda>s. serialize_frame_pix_state_object s (st_height s < m)"
  have "map (\<lambda>e. load_state ops (with_block_id ops e)) (map ?ser pre) = map (quorum_only_state ops) pre"
    using assms(2) by (simp add: load_quorum_only)
  moreover have "heights_ascend (map (quorum_only_state ops) pre)"
    using assms(1) by (subst heights_ascend_map) (simp_all add: quorum_only_state_def)
  ultimately have "fold (\<lambda>e. state_set_insert (load_state ops (with_block_id ops e))) (map ?ser pre) [] = map (quorum_only_state ops) pre"
    using fold_insert_ascending [of "[]" "\<lambda>e. load_state ops (with_block_id ops e)" "map ?ser pre"] by (simp only: append_Nil)
  moreover have "ss_version (hd (map ?ser (pre @ [s]))) = 1" by (cases pre) simp_all
  ultimately show ?thesis
    using assms(4,5) by (simp add: load_states_def load_whole [OF assms(3)] del: hd_map hd_append)
qed

lemma takeWhile_upto:
  assumes "heights_ascend xs" "s \<in> set xs" "st_height s = m"
  obtains pre where "takeWhile (\<lambda>s. st_height s \<le> m) xs = pre @ [s]" "heights_ascend (pre @ [s])" "\<forall>t \<in> set pre. st_height t < m"
proof -
  obtain pre post where x: "xs = pre @ s # post" using assms(2) by (meson split_list)
  have "takeWhile (\<lambda>s. st_height s \<le> m) xs = pre @ [s]"
    using state_set_upto_mid [of pre s post] assms(1,3) by (simp add: x state_set_upto_def)
  moreover have "heights_ascend (pre @ [s])" "\<forall>t \<in> set pre. st_height t < m"
    using assms(1,3) by (auto simp: x heights_ascend_append) (auto simp: heights_ascend_def)
  ultimately show ?thesis by (rule that)
qed

lemma takeWhile_set: "heights_ascend xs \<Longrightarrow> t \<in> set xs \<Longrightarrow> st_height t \<le> m \<Longrightarrow> t \<in> set (takeWhile (\<lambda>s. st_height s \<le> m) xs)"
  by (induction xs) (auto simp: heights_ascend_def)

lemma load_long_term_stored:
  assumes "\<forall>s \<in> set arch. state_storable s" "heights_ascend arch" "length arch < 2 ^ 64" "state_archive l = []"
    "db_long_term l = Some (put_data \<lparr>ds_version = 0, ds_quorum_states = [],
       ds_states = map (\<lambda>s. serialize_frame_pix_state_object s False) arch\<rparr>)"
  shows "load_long_term ops l = Inr (True, l\<lparr>state_archive := map reloaded_state arch\<rparr>)"
proof -
  let ?d = "\<lparr>ds_version = 0, ds_quorum_states = [], ds_states = map (\<lambda>s. serialize_frame_pix_state_object s False) arch\<rparr>"
  have "data_stored_ok ?d" using assms(1,3) by (simp add: data_stored_ok_def list_all_iff state_stored_ok_serialize)
  then have p: "parse_binary get_data (put_data ?d) = Some ?d" by (rule c_data.parse_binary_put)
  show ?thesis
  proof (cases arch)
    case Nil
    then show ?thesis using p assms(4,5) by (cases l) (simp add: load_long_term_def)
  next
    case (Cons s rest)
    let ?ser = "map (\<lambda>s. serialize_frame_pix_state_object s False) arch"
    have "map (load_state ops) ?ser = map reloaded_state arch" using assms(1) by (simp add: load_whole)
    moreover have "heights_ascend (map reloaded_state arch)"
      using assms(2) by (subst heights_ascend_map) (simp_all add: reloaded_state_def)
    ultimately have f: "fold (\<lambda>e. state_set_insert (load_state ops e)) ?ser [] = map reloaded_state arch"
      using fold_insert_ascending [of "[]" "load_state ops" ?ser] by (simp only: append_Nil)
    obtain first more where ser: "?ser = first # more" "ss_version first = 1" using Cons by simp
    show ?thesis
      using p assms(4,5) f by (simp add: load_long_term_def ser del: list.map)
  qed
qed

lemma load_list_stored:
  assumes "has_db ops" "load_long_term ops (reset ops False f) = Inr (True, l1)" "db_short_term l1 = Some (put_data short)"
    "data_stored_ok short" "ds_states short = map (\<lambda>s. serialize_frame_pix_state_object s (st_height s < m)) (pre @ [s])"
    "ds_quorum_states short = map (\<lambda>(h, qm). serialize_quorum_state h qm) old"
    "old_quorums_ok (height - m_store_quorum_history l1) old"
    "heights_ascend pre" "\<forall>t \<in> set pre. st_height t < m" "state_storable s" "st_height s = m" "\<not> only_loaded_quorums s"
    "state_history l1 = []" "old_quorum_states l1 = []"
  shows "\<exists>l2. load_list ops now height f = Inr (True, l2) \<and> m_state l2 = reloaded_state s
    \<and> state_history l2 = map (quorum_only_state ops) pre \<and> state_archive l2 = state_archive l1
    \<and> old_quorum_states l2 = map (\<lambda>(h, qm). (h, reloaded_quorums h qm)) old \<and> m_store_quorum_history l2 = m_store_quorum_history l1"
proof -
  have p: "parse_binary get_data (put_data short) = Some short" by (rule c_data.parse_binary_put [OF assms(4)])
  have o: "load_old_quorums (height - m_store_quorum_history l1) 0 (ds_quorum_states short) []
      = (True, map (\<lambda>(h, qm). (h, reloaded_quorums h qm)) old)"
    using assms(7) by (simp add: assms(6) old_quorums_ok_def load_old_quorums_all)
  have n: "ds_states short \<noteq> []" by (simp add: assms(5))
  have lst: "\<not> only_stored_quorums (last (ds_states short))"
    using assms(11,12) by (simp add: assms(5) serialize_frame_pix_state_object_def Let_def)
  let ?l = "l1\<lparr>old_quorum_states := map (\<lambda>(h, qm). (h, reloaded_quorums h qm)) old\<rparr>"
  have "load_states ops (ds_states short) ?l = ?l\<lparr>state_history := map (quorum_only_state ops) pre, m_state := reloaded_state s\<rparr>"
    unfolding assms(5) using assms(8-13) by (intro load_states_stored) auto
  then show ?thesis
    using assms(1,2,3,14) p o n lst
    by (simp add: load_list_def Let_def initialize_x25519_map_def load_proofs_def)
qed

lemma short_term_data_ok:
  assumes "list_storable l" "set sub \<subseteq> set (state_history l)" "length sub \<le> length (state_history l)"
  shows "data_stored_ok \<lparr>ds_version = 0, ds_quorum_states = map (\<lambda>(h, qm). serialize_quorum_state h qm) (old_quorum_states l),
     ds_states = map (\<lambda>s. serialize_frame_pix_state_object s (P s)) sub\<rparr>"
proof -
  have "\<forall>s \<in> set sub. state_storable s" "length sub < 2 ^ 64" using assms by (auto simp: list_storable_def)
  moreover have "\<forall>e \<in> set (old_quorum_states l). quorums_stored_ok (case e of (h, qm) \<Rightarrow> serialize_quorum_state h qm)"
    using assms(1) by (auto simp: list_storable_def intro!: quorums_stored_ok_serialize)
  ultimately show ?thesis
    using assms(1) by (simp add: data_stored_ok_def list_all_iff list_storable_def state_stored_ok_serialize)
qed

lemma quorum_found:
  assumes "heights_ascend (pre @ [s])" "t \<in> set (pre @ [s])"
    "m_state l = reloaded_state s" "state_history l = map (quorum_only_state ops) pre"
  shows "find_quorums l (st_height t) False = Some (reloaded_quorums (st_height t) (st_quorums t))"
proof (cases "t = s")
  case True
  then show ?thesis using assms(3) by (simp add: find_quorums_def reloaded_state_def)
next
  case False
  then obtain a b where ab: "pre = a @ t # b" using assms(2) by (auto dest: split_list)
  have "heights_ascend (map (quorum_only_state ops) pre)"
    using assms(1) by (subst heights_ascend_map) (simp_all add: quorum_only_state_def heights_ascend_append)
  then have "heights_ascend (map (quorum_only_state ops) a @ quorum_only_state ops t # map (quorum_only_state ops) b)"
    by (simp add: ab)
  note f = state_set_find_unique [OF this]
  have "t \<in> set pre" by (simp add: ab)
  then have "st_height t < st_height s" using assms(1) by (simp add: heights_ascend_append)
  then have "st_height t \<noteq> st_height (m_state l)" by (auto simp: assms(3) reloaded_state_def)
  then show ?thesis using f by (simp add: find_quorums_def assms(4) ab quorum_only_state_def)
qed

text \<open>What a list answers at a height whose quorums were loaded again.\<close>

definition quorums_restored :: "frame_pix_list \<Rightarrow> u64 \<Rightarrow> quorum_manager \<Rightarrow> bool" where
  "quorums_restored l height qm \<longleftrightarrow>
     (\<forall>q. qm_obligations qm = Some q \<longrightarrow> fst (get_quorum l obligations height False) = Some q)
     \<and> (\<forall>q h. qm_checkpointing qm = Some q \<longrightarrow> (height + REORG_SAFETY_BUFFER_BLOCKS_POST_HF12) mod CHECKPOINT_INTERVAL = 0
          \<longrightarrow> offset_testing_quorum_height checkpointing h = height \<longrightarrow> fst (get_quorum l checkpointing h False) = Some q)
     \<and> fst (get_quorum l blink height False) = None"

lemma quorums_restored_found:
  assumes "find_quorums l height False = Some (reloaded_quorums height qm)"
  shows "quorums_restored l height qm"
proof -
  have "fst (get_quorum l type h False) = quorum_manager_get (reloaded_quorums height qm) type"
    if "offset_testing_quorum_height type h = height" for type h
    using assms that by (simp add: get_quorum_def Let_def)
  moreover have "offset_testing_quorum_height obligations height = height" "offset_testing_quorum_height blink height = height"
    by (simp_all add: offset_testing_quorum_height_def)
  ultimately show ?thesis by (simp add: quorums_restored_def quorum_manager_get_def reloaded_quorums_def)
qed

lemma list_ok_reloaded:
  assumes "heights_ascend (pre @ [s])" "m_state l = reloaded_state s" "state_history l = map (quorum_only_state ops) pre"
  shows "list_ok l"
proof -
  have "heights_ascend (map (quorum_only_state ops) pre)"
    using assms(1) by (subst heights_ascend_map) (simp_all add: quorum_only_state_def heights_ascend_append)
  then show ?thesis
    using assms(1) by (auto simp: list_ok_def assms(2,3) heights_ascend_append quorum_only_state_def reloaded_state_def)
qed

lemma store_list_short_term:
  assumes "store_list ops l = (True, l1)" "has_db ops" "9 \<le> get_current_hard_fork_version ops"
  shows "db_short_term l1 = Some (put_data \<lparr>ds_version = 0,
     ds_quorum_states = map (\<lambda>(h, qm). serialize_quorum_state h qm) (old_quorum_states l),
     ds_states = map (\<lambda>s. serialize_frame_pix_state_object s (st_height s < stored_height l))
       (takeWhile (\<lambda>s. st_height s \<le> stored_height l) (state_history l))\<rparr>)"
proof -
  have "\<not> get_current_hard_fork_version ops < 9" using assms(3) by (simp add: not_less)
  then show ?thesis using assms(1,2) unfolding store_list_def Let_def stored_height_def by auto
qed

text \<open>The archive in the database after \<^verbatim>\<open>store\<close>: the new one if there were new states, the old one otherwise.\<close>

lemma store_list_archive:
  assumes "store_list ops l = (True, l1)" "has_db ops" "9 \<le> get_current_hard_fork_version ops" "list_storable l"
    "heights_ascend (state_archive l)" "state_added_to_archive l \<or> stored_archive (db_long_term l) arch"
  shows "stored_archive (db_long_term l1) (if state_added_to_archive l then state_archive l else arch)"
    "\<not> state_added_to_archive l1"
proof -
  have l1: "db_long_term l1 = (if state_added_to_archive l then Some (put_data \<lparr>ds_version = 0, ds_quorum_states = [],
       ds_states = map (\<lambda>s. serialize_frame_pix_state_object s False) (state_archive l)\<rparr>) else db_long_term l)"
    "\<not> state_added_to_archive l1"
    using assms(1-3) by (auto simp: store_list_def Let_def not_less split: if_splits)
  show "stored_archive (db_long_term l1) (if state_added_to_archive l then state_archive l else arch)"
    using assms(4-6) by (auto simp: l1(1) stored_archive_def list_storable_def)
  show "\<not> state_added_to_archive l1" by (fact l1(2))
qed

lemma load_stored_archive:
  assumes "stored_archive (db_long_term f) arch" "state_archive f = []"
  shows "load_long_term ops f = Inr (True, f\<lparr>state_archive := map reloaded_state arch\<rparr>)"
proof (cases "db_long_term f")
  case None
  then have "arch = []" using assms(1) by (simp add: stored_archive_def)
  then show ?thesis using None assms(2) by (cases f) (simp add: load_long_term_def)
next
  case (Some blob)
  then show ?thesis using assms by (intro load_long_term_stored) (auto simp: stored_archive_def)
qed

section \<open>Properties\<close>

text \<open>
  C7. A restart loses nothing that the list needs to go on. When the list was stored and is initialised
  again from the database, it is at the height of the newest state that was stored whole, with the
  very records, blacklist and block hash of that state. At every recent height up to it the list answers with
  the obligations and checkpointing quorums it had; the blink quorums are not stored and are gone. The archive
  is the one that was stored last: that of the list if states were added since, and the one the database
  already held otherwise, and the database is left fit for the next store. The hypotheses: the list is in
  order and its counts fit their width, the database holds no archive or one that was stored, the history
  reaches back to the height that is stored whole, the chain has not become shorter than that, and the old
  quorums are in order, are as many as the node needs to start, and the node keeps as many as before.
\<close>

theorem restart_restores:
  assumes "store_list ops l = (True, l1)" "has_db ops" "9 \<le> get_current_hard_fork_version ops"
    "list_ok l" "list_storable l" "heights_ascend (state_archive l)"
    "state_added_to_archive l \<or> stored_archive (db_long_term l) arch"
    "s \<in> set (state_history l)" "st_height s = stored_height l" "\<not> only_loaded_quorums s"
    "stored_height l \<le> get_current_blockchain_height ops"
    "old_quorums_ok (get_current_blockchain_height ops - m_store_quorum_history l) (old_quorum_states l)"
    "min (unat (m_store_quorum_history l)) 10 \<le> length (old_quorum_states l)"
    "db_long_term f = db_long_term l1" "db_short_term f = db_short_term l1" "m_store_quorum_history f = m_store_quorum_history l"
  shows "\<exists>l2. init_list ops now f = Inr l2 \<and> m_state l2 = s\<lparr>st_quorums := reloaded_quorums (st_height s) (st_quorums s)\<rparr>
    \<and> (\<forall>t \<in> set (state_history l). st_height t \<le> stored_height l \<longrightarrow> quorums_restored l2 (st_height t) (st_quorums t))
    \<and> state_archive l2 = map reloaded_state (if state_added_to_archive l then state_archive l else arch)
    \<and> stored_archive (db_long_term l1) (if state_added_to_archive l then state_archive l else arch)
    \<and> list_ok l2"
proof -
  let ?m = "stored_height l" and ?f = "reset ops False f" and ?height = "get_current_blockchain_height ops"
  let ?arch = "if state_added_to_archive l then state_archive l else arch"
  obtain pre where pre: "takeWhile (\<lambda>s. st_height s \<le> ?m) (state_history l) = pre @ [s]" "heights_ascend (pre @ [s])"
      "\<forall>t \<in> set pre. st_height t < ?m"
    using takeWhile_upto [of "state_history l" s ?m] assms(4,8,9) unfolding list_ok_def by metis
  let ?short = "\<lparr>ds_version = 0, ds_quorum_states = map (\<lambda>(h, qm). serialize_quorum_state h qm) (old_quorum_states l),
     ds_states = map (\<lambda>s. serialize_frame_pix_state_object s (st_height s < ?m)) (pre @ [s])\<rparr>"
  have sub: "set (pre @ [s]) \<subseteq> set (state_history l)" "length (pre @ [s]) \<le> length (state_history l)"
    unfolding pre(1) [symmetric] by (auto dest: set_takeWhileD simp: length_takeWhile_le)
  have ok: "data_stored_ok ?short" using short_term_data_ok [OF assms(5) sub] .
  have db: "db_short_term l1 = Some (put_data ?short)"
    using store_list_short_term [OF assms(1-3)] unfolding pre(1) .
  note stored = store_list_archive(1) [OF assms(1-3,5-7)]
  have long: "load_long_term ops ?f = Inr (True, ?f\<lparr>state_archive := map reloaded_state ?arch\<rparr>)"
    using stored assms(14) by (intro load_stored_archive) (simp_all add: reset_def)
  have st: "state_storable s" using assms(5,8) by (auto simp: list_storable_def)
  have pre': "heights_ascend pre" using pre(2) by (simp add: heights_ascend_append)
  obtain l2 where l2: "load_list ops now ?height f = Inr (True, l2)" "m_state l2 = reloaded_state s"
      "state_history l2 = map (quorum_only_state ops) pre" "length (old_quorum_states l2) = length (old_quorum_states l)"
      "m_store_quorum_history l2 = m_store_quorum_history l" "state_archive l2 = map reloaded_state ?arch"
    using load_list_stored [OF assms(2) long _ ok, of ?m pre s "old_quorum_states l" ?height now]
      db assms(9,10,12,15,16) pre(3) pre' st by (auto simp: reset_def)
  have "init_list ops now f = Inr l2"
  proof -
    have "\<not> length (old_quorum_states l2) < min (unat (m_store_quorum_history l2)) 10"
      using l2(4,5) assms(13) by (simp only: not_less)
    moreover have "\<not> ?height < st_height (m_state l2)" using l2(2) assms(9,11) by (simp add: reloaded_state_def not_less)
    moreover have "\<not> get_current_hard_fork_version ops < 9" using assms(3) by (simp add: not_less)
    ultimately show ?thesis using l2(1) by (simp add: init_list_def Let_def del: min_less_iff_conj not_less)
  qed
  moreover have "quorums_restored l2 (st_height t) (st_quorums t)"
    if "t \<in> set (state_history l)" "st_height t \<le> ?m" for t
  proof -
    have "t \<in> set (pre @ [s])"
      using that assms(4) takeWhile_set [of "state_history l" t ?m] unfolding pre(1) list_ok_def by simp
    from quorum_found [OF pre(2) this l2(2,3)] show ?thesis by (rule quorums_restored_found)
  qed
  ultimately show ?thesis
    using l2(2,6) stored list_ok_reloaded [OF pre(2) l2(2,3)] unfolding reloaded_state_def by blast
qed

definition archived_sample :: state_t where
  "archived_sample = initial_state\<lparr>st_height := 10, st_block_hash := 8\<rparr>"

definition stored_sample :: state_t where
  "stored_sample = initial_state\<lparr>st_height := 65, st_block_hash := 9, frame_pixs_infos := [(77, default_info)],
     st_quorums := no_quorums\<lparr>qm_obligations := Some \<lparr>validators = [77], workers = []\<rparr>,
       qm_checkpointing := Some \<lparr>validators = [78], workers = []\<rparr>\<rparr>\<rparr>"

text \<open>A list that was stored before: its archive is in the database and nothing was added to it since.\<close>

definition running_sample :: frame_pix_list where
  "running_sample = (sample_list (initial_state\<lparr>st_height := 101\<rparr>))\<lparr>state_history := [stored_sample], state_archive := [archived_sample],
     db_long_term := Some (put_data \<lparr>ds_version = 0, ds_quorum_states = [],
       ds_states = [serialize_frame_pix_state_object archived_sample False]\<rparr>)\<rparr>"

definition restarted_sample :: frame_pix_list where
  "restarted_sample = (sample_list initial_state)\<lparr>db_long_term := db_long_term (snd (store_list sample_list_ops running_sample)),
     db_short_term := db_short_term (snd (store_list sample_list_ops running_sample))\<rparr>"

lemma running_sample_ok:
  "list_ok running_sample" "list_storable running_sample" "stored_height running_sample = 65"
  "state_history running_sample = [stored_sample]" "heights_ascend (state_archive running_sample)"
  "stored_archive (db_long_term running_sample) [archived_sample]" "\<not> state_added_to_archive running_sample"
  "old_quorum_states running_sample = []" "m_store_quorum_history running_sample = 0"
  by (simp_all add: running_sample_def sample_list_def list_ok_def list_storable_def heights_ascend_def stored_sample_def
      archived_sample_def stored_archive_def state_storable_def info_stored_ok_def default_info_def initial_state_def no_quorums_def
      quorum_stored_ok_def stored_height_def short_term_state_cull_height_def VOTE_LIFETIME_60 Let_def)

theorem restart_restores_witness:
  "\<exists>l2. init_list sample_list_ops 0 restarted_sample = Inr l2 \<and> st_height (m_state l2) = 65
     \<and> frame_pixs_infos (m_state l2) = [(77, default_info)]
     \<and> fst (get_quorum l2 obligations 65 False) = Some \<lparr>validators = [77], workers = []\<rparr>
     \<and> fst (get_quorum l2 checkpointing 76 False) = Some \<lparr>validators = [78], workers = []\<rparr>
     \<and> map st_height (state_archive l2) = [10]"
proof -
  have st: "store_list sample_list_ops running_sample = (True, snd (store_list sample_list_ops running_sample))"
    by (simp add: store_list_def sample_list_ops_def Let_def)
  have s: "stored_sample \<in> set (state_history running_sample)" "st_height stored_sample = stored_height running_sample"
      "\<not> only_loaded_quorums stored_sample"
    by (simp_all add: running_sample_ok) (simp_all add: stored_sample_def initial_state_def)
  have o: "has_db sample_list_ops" "9 \<le> get_current_hard_fork_version sample_list_ops"
      "stored_height running_sample \<le> get_current_blockchain_height sample_list_ops"
      "m_store_quorum_history restarted_sample = m_store_quorum_history running_sample"
      "db_long_term restarted_sample = db_long_term (snd (store_list sample_list_ops running_sample))"
      "db_short_term restarted_sample = db_short_term (snd (store_list sample_list_ops running_sample))"
    by (simp_all add: running_sample_ok) (simp_all add: sample_list_ops_def restarted_sample_def sample_list_def)
  have q: "old_quorums_ok (get_current_blockchain_height sample_list_ops - m_store_quorum_history running_sample) (old_quorum_states running_sample)"
      "min (unat (m_store_quorum_history running_sample)) 10 \<le> length (old_quorum_states running_sample)"
    by (simp_all add: running_sample_ok old_quorums_ok_def)
  obtain l2 where l2: "init_list sample_list_ops 0 restarted_sample = Inr l2"
      "m_state l2 = stored_sample\<lparr>st_quorums := reloaded_quorums (st_height stored_sample) (st_quorums stored_sample)\<rparr>"
      "quorums_restored l2 (st_height stored_sample) (st_quorums stored_sample)"
      "state_archive l2 = map reloaded_state [archived_sample]"
    using restart_restores [OF st o(1,2) running_sample_ok(1,2,5) disjI2 [OF running_sample_ok(6)] s(1-3) o(3) q o(5,6,4), of 0] s(1) eq_refl [OF s(2)]
    unfolding if_not_P [OF running_sample_ok(7)] by blast
  have h: "offset_testing_quorum_height checkpointing 76 = 65" "(65 + 11 :: u64) mod 4 = 0"
    by (simp_all add: offset_testing_quorum_height_def)
  have "fst (get_quorum l2 obligations 65 False) = Some \<lparr>validators = [77], workers = []\<rparr>"
      "fst (get_quorum l2 checkpointing 76 False) = Some \<lparr>validators = [78], workers = []\<rparr>"
    using l2(3) h by (simp_all add: quorums_restored_def stored_sample_def)
  moreover have "st_height (m_state l2) = 65" "frame_pixs_infos (m_state l2) = [(77, default_info)]"
    using l2(2) by (simp_all add: stored_sample_def)
  moreover have "map st_height (state_archive l2) = [10]" using l2(4) by (simp add: reloaded_state_def archived_sample_def)
  ultimately show ?thesis using l2(1) by (intro exI [of _ l2] conjI)
qed

end
