(* ===== verification/Base58.thy ===== *)
theory Base58
  imports Int_Util Varint Random_Portable
begin

text \<open>
  The base-58 strings of \<^verbatim>\<open>src/src/common/base58.cpp\<close>. Data is cut into blocks of eight bytes, every
  block is written as a big-endian number in a slot of a fixed number of digits, and a string is valid
  only when every block is. A write or a read outside of a buffer is the error \<open>OutOfRange\<close>, a failed
  assertion \<open>AssertFailed\<close>; \<^const>\<open>None\<close> is the return value false, whose out parameter no caller reads.
\<close>

section \<open>Definitions\<close>

definition alphabet :: string where
  "alphabet = ''123456789ABCDEFGHJKLMNPQRSTUVWXYZabcdefghijkmnopqrstuvwxyz''"

abbreviation (input) alphabet_size :: nat where "alphabet_size \<equiv> 58"

definition encoded_block_sizes :: "nat list" where
  "encoded_block_sizes = [0, 2, 3, 5, 6, 7, 9, 10, 11]"

abbreviation (input) full_block_size :: nat where "full_block_size \<equiv> 8"
abbreviation (input) full_encoded_block_size :: nat where "full_encoded_block_size \<equiv> 11"
abbreviation (input) addr_checksum_size :: nat where "addr_checksum_size \<equiv> 4"

text \<open>A \<^verbatim>\<open>char\<close> is signed; the index of a letter is the difference to \<^verbatim>\<open>'1'\<close> cast to \<^verbatim>\<open>size_t\<close>.\<close>

definition letter_index :: "char \<Rightarrow> u64" where
  "letter_index letter =
     (let c = of_char letter :: int
      in word_of_int ((if c < 128 then c else c - 256) - of_char (alphabet ! 0)))"

definition reverse_alphabet_data :: "int list" where
  "reverse_alphabet_data =
     foldl (\<lambda>m_data i. m_data[unat (letter_index (alphabet ! i)) := int i])
       (replicate (of_char (alphabet ! (alphabet_size - 1)) - of_char (alphabet ! 0) + 1) (- 1)) [0..<alphabet_size]"

definition reverse_alphabet :: "char \<Rightarrow> int" where
  "reverse_alphabet letter =
     (let idx = unat (letter_index letter)
      in if idx < length reverse_alphabet_data then reverse_alphabet_data ! idx else - 1)"

definition decoded_block_sizes_data :: "int list" where
  "decoded_block_sizes_data =
     foldl (\<lambda>m_data i. m_data[encoded_block_sizes ! i := int i])
       (replicate (encoded_block_sizes ! full_block_size + 1) (- 1)) [0..<full_block_size + 1]"

definition decoded_block_sizes :: "nat \<Rightarrow> swarm_error + int" where
  "decoded_block_sizes encoded_block_size =
     (if encoded_block_size \<le> full_encoded_block_size then Inr (decoded_block_sizes_data ! encoded_block_size)
      else Inl AssertFailed)"

definition swap64be :: "u64 \<Rightarrow> u64" where
  "swap64be w = word_of_le (rev (le_bytes 8 w))"

definition uint_8be_to_64 :: "byte list \<Rightarrow> u64" where
  "uint_8be_to_64 data = swap64be (word_of_le (replicate (8 - length data) 0 @ data))"

definition uint_64_to_8be :: "u64 \<Rightarrow> nat \<Rightarrow> byte list" where
  "uint_64_to_8be num sz = drop (8 - sz) (le_bytes 8 (swap64be num))"

function encode_loop :: "nat \<Rightarrow> int \<Rightarrow> u64 \<Rightarrow> string \<Rightarrow> swarm_error + string" where
  "encode_loop off i num res =
     (if 0 < num then
        if 0 \<le> int off + i \<and> int off + i < int (length res) then
          encode_loop off (i - 1) (num div of_nat alphabet_size)
            (res[nat (int off + i) := alphabet ! unat (num mod of_nat alphabet_size)])
        else Inl OutOfRange
      else Inr res)"
  by pat_completeness auto

termination encode_loop
  by (relation "measure (\<lambda>(off, i, num, res). unat num)") (auto simp: unat_div word_less_nat_alt)

declare encode_loop.simps [simp del]

definition encode_block :: "byte list \<Rightarrow> nat \<Rightarrow> string \<Rightarrow> swarm_error + string" where
  "encode_block block off res =
     (let sz = length block
      in if 1 \<le> sz \<and> sz \<le> full_block_size
         then encode_loop off (int (encoded_block_sizes ! sz) - 1) (uint_8be_to_64 block) res
         else Inl AssertFailed)"

primrec encode_full_blocks :: "byte list \<Rightarrow> nat \<Rightarrow> string \<Rightarrow> swarm_error + string" where
  "encode_full_blocks data 0 res = Inr res"
| "encode_full_blocks data (Suc i) res =
     bindE (encode_full_blocks data i res) (\<lambda>res.
       encode_block (take full_block_size (drop (i * full_block_size) data)) (i * full_encoded_block_size) res)"

definition base58_encode :: "byte list \<Rightarrow> swarm_error + string" where
  "base58_encode data =
     (if data = [] then Inr []
      else
        let full_block_count = length data div full_block_size;
            last_block_size = length data mod full_block_size;
            res_size = full_block_count * full_encoded_block_size + encoded_block_sizes ! last_block_size
        in bindE (encode_full_blocks data full_block_count (replicate res_size (alphabet ! 0))) (\<lambda>res.
             if 0 < last_block_size
             then encode_block (drop (full_block_count * full_block_size) data)
                    (full_block_count * full_encoded_block_size) res
             else Inr res))"

text \<open>The loop of \<^verbatim>\<open>decode_block\<close> runs its index from the last digit down, and stops when it wraps.\<close>

primrec decode_loop :: "string \<Rightarrow> nat \<Rightarrow> u64 \<Rightarrow> u64 \<Rightarrow> u64 option" where
  "decode_loop block 0 res_num order = Some res_num"
| "decode_loop block (Suc i) res_num order =
     (let digit = reverse_alphabet (block ! i)
      in if digit < 0 then None
         else case mul128 order (word_of_int digit) of (product_hi, product_lo) \<Rightarrow>
           let tmp = res_num + product_lo
           in if tmp < res_num \<or> 0 \<noteq> product_hi then None
              else decode_loop block i tmp (order * of_nat alphabet_size))"

definition decode_block :: "string \<Rightarrow> swarm_error + byte list option" where
  "decode_block block =
     (let sz = length block
      in if 1 \<le> sz \<and> sz \<le> full_encoded_block_size then
           bindE (decoded_block_sizes sz) (\<lambda>res_size.
             if res_size \<le> 0 then Inr None
             else case decode_loop block sz 0 1 of None \<Rightarrow> Inr None | Some res_num \<Rightarrow>
               if nat res_size < full_block_size \<and> push_bit (8 * nat res_size) 1 \<le> res_num then Inr None
               else Inr (Some (uint_64_to_8be res_num (nat res_size))))
         else Inl AssertFailed)"

definition decode_into :: "string \<Rightarrow> nat \<Rightarrow> byte list \<Rightarrow> swarm_error + byte list option" where
  "decode_into block off data =
     bindE (decode_block block) (\<lambda>r. case r of None \<Rightarrow> Inr None | Some bs \<Rightarrow>
       if off + length bs \<le> length data then Inr (Some (take off data @ bs @ drop (off + length bs) data))
       else Inl OutOfRange)"

primrec decode_full_blocks :: "string \<Rightarrow> nat \<Rightarrow> byte list \<Rightarrow> swarm_error + byte list option" where
  "decode_full_blocks enc 0 data = Inr (Some data)"
| "decode_full_blocks enc (Suc i) data =
     bindE (decode_full_blocks enc i data) (\<lambda>r. case r of None \<Rightarrow> Inr None | Some data \<Rightarrow>
       decode_into (take full_encoded_block_size (drop (i * full_encoded_block_size) enc)) (i * full_block_size) data)"

definition base58_decode :: "string \<Rightarrow> swarm_error + byte list option" where
  "base58_decode enc =
     (if enc = [] then Inr (Some [])
      else
        let full_block_count = length enc div full_encoded_block_size;
            last_block_size = length enc mod full_encoded_block_size
        in bindE (decoded_block_sizes last_block_size) (\<lambda>last_block_decoded_size.
             if last_block_decoded_size < 0 then Inr None
             else
               let data_size = full_block_count * full_block_size + nat last_block_decoded_size
               in bindE (decode_full_blocks enc full_block_count (replicate data_size 0)) (\<lambda>r.
                    case r of None \<Rightarrow> Inr None | Some data \<Rightarrow>
                      if 0 < last_block_size
                      then decode_into (drop (full_block_count * full_encoded_block_size) enc)
                             (full_block_count * full_block_size) data
                      else Inr (Some data))))"

definition encode_addr :: "(byte list \<Rightarrow> pod32) \<Rightarrow> u64 \<Rightarrow> byte list \<Rightarrow> swarm_error + string" where
  "encode_addr cn_fast_hash tag data =
     (let buf = write_varint tag @ data
      in base58_encode (buf @ take addr_checksum_size (bytes_of_pod (cn_fast_hash buf))))"

definition decode_addr :: "(byte list \<Rightarrow> pod32) \<Rightarrow> string \<Rightarrow> swarm_error + (u64 \<times> byte list) option" where
  "decode_addr cn_fast_hash addr =
     bindE (base58_decode addr) (\<lambda>r. case r of None \<Rightarrow> Inr None | Some addr_data \<Rightarrow>
       if length addr_data \<le> addr_checksum_size then Inr None
       else
         let checksum = drop (length addr_data - addr_checksum_size) addr_data;
             addr_data = take (length addr_data - addr_checksum_size) addr_data;
             expected_checksum = take addr_checksum_size (bytes_of_pod (cn_fast_hash addr_data))
         in if expected_checksum \<noteq> checksum then Inr None
            else case read_varint addr_data of (rd, tag, _) \<Rightarrow>
              if rd \<le> 0 then Inr None else Inr (Some (tag, drop (nat rd) addr_data)))"

section \<open>The tables\<close>

lemma length_alphabet [simp]: "length alphabet = 58"
  by (simp add: alphabet_def)

lemma of_char_nat_int: "(of_char c :: int) = int (of_char c)"
  by (simp only: of_nat_of_char)

lemma letter_index_printable:
  "49 \<le> (of_char c :: nat) \<Longrightarrow> (of_char c :: nat) < 128 \<Longrightarrow> unat (letter_index c) = of_char c - 49"
proof -
  assume a: "49 \<le> (of_char c :: nat)" "(of_char c :: nat) < 128"
  have c: "(of_char c :: int) = int (of_char c)" by (simp add: of_char_nat_int)
  have k: "of_char (alphabet ! 0) = (49 :: int)" by (simp add: alphabet_def)
  have "letter_index c = word_of_int (int (of_char c - 49))"
    using a unfolding letter_index_def k Let_def c by (simp add: of_nat_diff)
  moreover have "of_char c - 49 < (18446744073709551616 :: nat)" using nat_of_char_less_256 [of c] by linarith
  ultimately show ?thesis by (simp add: unat_of_nat take_bit_eq_mod)
qed

lemma letter_index_other:
  "\<not> (49 \<le> (of_char c :: nat) \<and> (of_char c :: nat) < 128) \<Longrightarrow> 74 \<le> unat (letter_index c)"
proof -
  define k where "k = (of_char c :: nat)"
  have k256: "k < 256" using nat_of_char_less_256 [of c] by (simp add: k_def)
  have c: "(of_char c :: int) = int k" by (simp add: k_def of_char_nat_int)
  have o: "of_char (alphabet ! 0) = (49 :: int)" by (simp add: alphabet_def)
  assume "\<not> (49 \<le> (of_char c :: nat) \<and> (of_char c :: nat) < 128)"
  then have a: "k < 49 \<or> 128 \<le> k" by (auto simp: k_def)
  define z where "z = (if int k < 128 then int k else int k - 256) - 49"
  have z: "- 177 \<le> z" "z < 0" using a k256 by (auto simp: z_def)
  have "uint (letter_index c) = z mod 18446744073709551616"
    unfolding letter_index_def o c Let_def z_def [symmetric] by (simp only: uint_word_of_int) simp
  also have "\<dots> = z + 18446744073709551616" 
    using z mod_pos_pos_trivial [of "z + 18446744073709551616" 18446744073709551616]
    by (simp only: mod_add_self2)
  finally show ?thesis using z by (simp add: unat_eq_nat_uint)
qed

lemma replicate74: "replicate 74 x = [x, x, x, x, x, x, x, x, x, x, x, x, x, x, x, x, x, x, x, x, x, x, x, x, x, x, x, x, x, x, x, x, x, x, x, x, x, x, x, x, x, x, x, x, x, x, x, x, x, x, x, x, x, x, x, x, x, x, x, x, x, x, x, x, x, x, x, x, x, x, x, x, x, x]"
  by (simp add: eval_nat_numeral)

lemma reverse_alphabet_data_eq:
  "reverse_alphabet_data = [0, 1, 2, 3, 4, 5, 6, 7, 8, -1, -1, -1, -1, -1, -1, -1,
     9, 10, 11, 12, 13, 14, 15, 16, -1, 17, 18, 19, 20, 21, -1, 22, 23, 24, 25, 26, 27, 28, 29, 30, 31, 32,
     -1, -1, -1, -1, -1, -1, 33, 34, 35, 36, 37, 38, 39, 40, 41, 42, 43, -1, 44, 45, 46, 47, 48, 49, 50, 51, 52, 53, 54, 55, 56, 57]"
proof -
  have p: "list_all (\<lambda>c. 49 \<le> (of_char c :: nat) \<and> (of_char c :: nat) < 128) alphabet"
    by (simp add: alphabet_def)
  have "reverse_alphabet_data = foldl (\<lambda>m_data i. m_data[of_char (alphabet ! i) - 49 := int i]) (replicate 74 (- 1)) [0..<58]"
    unfolding reverse_alphabet_data_def
  proof (rule foldl_cong)
    fix m_data :: "int list" and i
    assume "i \<in> set [0..<58]"
    then have "alphabet ! i \<in> set alphabet" by (simp add: in_set_conv_nth) blast
    then show "m_data[unat (letter_index (alphabet ! i)) := int i] = m_data[of_char (alphabet ! i) - 49 := int i]"
      using p by (simp add: list_all_iff letter_index_printable)
  qed (simp_all add: alphabet_def)
  also have "\<dots> = [0, 1, 2, 3, 4, 5, 6, 7, 8, -1, -1, -1, -1, -1, -1, -1,
     9, 10, 11, 12, 13, 14, 15, 16, -1, 17, 18, 19, 20, 21, -1, 22, 23, 24, 25, 26, 27, 28, 29, 30, 31, 32,
     -1, -1, -1, -1, -1, -1, 33, 34, 35, 36, 37, 38, 39, 40, 41, 42, 43, -1, 44, 45, 46, 47, 48, 49, 50, 51, 52, 53, 54, 55, 56, 57]"
    unfolding alphabet_def replicate74 by (simp add: upt_conv_Cons)
  finally show ?thesis .
qed

lemma length_reverse_alphabet_data: "length reverse_alphabet_data = 74"
  by (simp add: reverse_alphabet_data_eq)

lemma reverse_alphabet_eq:
  "reverse_alphabet c =
     (let k = (of_char c :: nat) in if 49 \<le> k \<and> k < 123 then reverse_alphabet_data ! (k - 49) else - 1)"
proof (cases "49 \<le> (of_char c :: nat) \<and> (of_char c :: nat) < 128")
  case True
  then show ?thesis
    using letter_index_printable [of c] by (auto simp: reverse_alphabet_def Let_def length_reverse_alphabet_data)
next
  case False
  then show ?thesis
    using letter_index_other [OF False] by (auto simp: reverse_alphabet_def Let_def length_reverse_alphabet_data)
qed

lemma reverse_alphabet_map: "map reverse_alphabet alphabet = map int [0..<58]"
  unfolding reverse_alphabet_eq reverse_alphabet_data_eq alphabet_def by (simp add: Let_def upt_conv_Cons)

lemma reverse_alphabet_nth: "i < 58 \<Longrightarrow> reverse_alphabet (alphabet ! i) = int i"
  using arg_cong [OF reverse_alphabet_map, of "\<lambda>l. l ! i"] by simp

lemma alphabet_map: "list_all2 (\<lambda>d k. 0 \<le> d \<longrightarrow> d < 58 \<and> of_char (alphabet ! nat d) = (k :: nat)) reverse_alphabet_data [49..<123]"
  unfolding reverse_alphabet_data_eq alphabet_def by simp

lemma alphabet_reverse:
  assumes "0 \<le> reverse_alphabet c"
  shows "reverse_alphabet c < 58" "alphabet ! nat (reverse_alphabet c) = c"
proof -
  define k where "k = (of_char c :: nat)"
  have k: "49 \<le> k" "k < 123" "reverse_alphabet c = reverse_alphabet_data ! (k - 49)"
    using assms by (auto simp: reverse_alphabet_eq Let_def k_def split: if_splits)
  have "[49..<123] ! (k - 49) = k" using k by (simp del: upt_rec_numeral)
  then have e: "reverse_alphabet c < 58" "of_char (alphabet ! nat (reverse_alphabet c)) = k"
    using list_all2_nthD [OF alphabet_map, of "k - 49"] k assms
    by (simp_all add: length_reverse_alphabet_data del: upt_rec_numeral)
  show "reverse_alphabet c < 58" by (rule e)
  show "alphabet ! nat (reverse_alphabet c) = c" using e(2) by (simp add: k_def)
qed

lemma decoded_block_sizes_eq:
  "decoded_block_sizes_data = [0, -1, 1, 2, -1, 3, 4, 5, -1, 6, 7, 8]"
  by code_simp

section \<open>Big-endian numbers\<close>

lemma word_of_le_zeros: "word_of_le (bs @ replicate n 0) = word_of_le bs"
  by (induction bs) (induction n, simp_all)

lemma le_bytes_Suc_snoc: "le_bytes (Suc n) w = le_bytes n w @ [ucast (drop_bit (8 * n) w)]"
proof (induction n arbitrary: w)
  case (Suc n)
  have "le_bytes (Suc (Suc n)) w = ucast w # le_bytes (Suc n) (drop_bit 8 w)" by (simp only: le_bytes.simps)
  also have "\<dots> = (ucast w # le_bytes n (drop_bit 8 w)) @ [ucast (drop_bit (8 * n) (drop_bit 8 w))]"
    by (simp only: Suc.IH append_Cons)
  also have "\<dots> = le_bytes (Suc n) w @ [ucast (drop_bit (8 * Suc n) w)]"
    by (simp add: add.commute)
  finally show ?case .
qed simp

lemma le_bytes_take: "k \<le> n \<Longrightarrow> take k (le_bytes n w) = le_bytes k w"
  by (induction n) (auto simp: le_bytes_Suc_snoc le_Suc_eq simp del: le_bytes.simps(2))

lemma le_bytes_swap: "le_bytes 8 (swap64be w) = rev (le_bytes 8 w)"
  using le_bytes_word_of_le [where ?'a = 64, of "rev (le_bytes 8 w)"] by (simp add: swap64be_def)

lemma uint_8be_to_64_eq: "length b \<le> 8 \<Longrightarrow> uint_8be_to_64 b = word_of_le (rev b)"
  using le_bytes_word_of_le [where ?'a = 64, of "replicate (8 - length b) 0 @ b"]
  by (simp add: uint_8be_to_64_def swap64be_def word_of_le_zeros)

lemma uint_64_to_8be_eq: "sz \<le> 8 \<Longrightarrow> uint_64_to_8be num sz = rev (le_bytes sz num)"
  by (simp add: uint_64_to_8be_def le_bytes_swap drop_rev le_bytes_take)

lemma length_uint_64_to_8be: "sz \<le> 8 \<Longrightarrow> length (uint_64_to_8be num sz) = sz"
  by (simp add: uint_64_to_8be_eq)

lemma be_bytes_roundtrip: "length b \<le> 8 \<Longrightarrow> uint_64_to_8be (uint_8be_to_64 b) (length b) = b"
  using le_bytes_word_of_le [where ?'a = 64, of "rev b"]
  by (simp add: uint_64_to_8be_eq uint_8be_to_64_eq)

lemma be_num_roundtrip: "sz \<le> 8 \<Longrightarrow> unat num < 2 ^ (8 * sz) \<Longrightarrow> uint_8be_to_64 (uint_64_to_8be num sz) = num"
  by (simp add: uint_64_to_8be_eq uint_8be_to_64_eq word_of_le_le_bytes word_unat_eq_iff
      unsigned_take_bit_eq take_bit_nat_eq_self)

lemma uint_8be_to_64_less: "length b \<le> 8 \<Longrightarrow> unat (uint_8be_to_64 b) < 2 ^ (8 * length b)"
proof -
  assume a: "length b \<le> 8"
  have "uint_8be_to_64 b = word_of_le (le_bytes (length b) (uint_8be_to_64 b))"
    using a le_bytes_word_of_le [where ?'a = 64, of "rev b"] by (simp add: uint_8be_to_64_eq)
  then have "unat (uint_8be_to_64 b) = take_bit (8 * length b) (unat (uint_8be_to_64 b))"
    by (metis word_of_le_le_bytes unsigned_take_bit_eq)
  then show ?thesis by (metis take_bit_nat_less_exp)
qed

section \<open>Digits\<close>

text \<open>The reference for one block: a fixed number of digits, the most significant first.\<close>

primrec digits58 :: "nat \<Rightarrow> nat \<Rightarrow> string" where
  "digits58 0 n = []"
| "digits58 (Suc w) n = digits58 w (n div 58) @ [alphabet ! (n mod 58)]"

definition value58 :: "string \<Rightarrow> nat" where
  "value58 s = foldl (\<lambda>a c. a * 58 + nat (reverse_alphabet c)) 0 s"

definition valid58 :: "string \<Rightarrow> bool" where
  "valid58 s = list_all (\<lambda>c. 0 \<le> reverse_alphabet c) s"

lemma length_digits58 [simp]: "length (digits58 w n) = w"
  by (induction w arbitrary: n) auto

lemma value58_simps [simp]: "value58 [] = 0" "value58 (s @ [c]) = value58 s * 58 + nat (reverse_alphabet c)"
  by (simp_all add: value58_def)

lemma valid58_simps [simp]: "valid58 []" "valid58 (s @ t) = (valid58 s \<and> valid58 t)"
    "valid58 (c # s) = (0 \<le> reverse_alphabet c \<and> valid58 s)"
  by (simp_all add: valid58_def)

lemma valid58_digits58: "valid58 (digits58 w n)"
  by (induction w arbitrary: n) (auto simp: reverse_alphabet_nth)

lemma value58_digits58: "n < 58 ^ w \<Longrightarrow> value58 (digits58 w n) = n"
  by (induction w arbitrary: n) (auto simp: reverse_alphabet_nth less_mult_imp_div_less mult.commute)

lemma value58_less: "valid58 s \<Longrightarrow> value58 s < 58 ^ length s"
proof (induction s rule: rev_induct)
  case (snoc c s)
  then have "value58 s + 1 \<le> 58 ^ length s" "nat (reverse_alphabet c) < 58"
    using alphabet_reverse(1) [of c] by auto
  then have "value58 s * 58 + nat (reverse_alphabet c) < 58 ^ length s * 58"
    using mult_le_mono1 [of "value58 s + 1" "58 ^ length s" 58] by simp
  then show ?case by (simp add: mult.commute)
qed simp

lemma digits58_value58: "valid58 s \<Longrightarrow> digits58 (length s) (value58 s) = s"
proof (induction s rule: rev_induct)
  case (snoc c s)
  then have "nat (reverse_alphabet c) < 58" "alphabet ! nat (reverse_alphabet c) = c"
    using alphabet_reverse [of c] by auto
  then show ?case using snoc by simp
qed simp

lemma digits58_zero: "digits58 w 0 = replicate w (alphabet ! 0)"
  by (induction w) (simp_all flip: replicate_append_same)

section \<open>One block\<close>

definition block_string :: "byte list \<Rightarrow> string" where
  "block_string b = digits58 (encoded_block_sizes ! length b) (unat (uint_8be_to_64 b))"

lemma block_sizes_cases:
  assumes "1 \<le> n" "n \<le> (8 :: nat)"
  shows "n = 1 \<or> n = 2 \<or> n = 3 \<or> n = 4 \<or> n = 5 \<or> n = 6 \<or> n = 7 \<or> n = 8"
  using assms by presburger

lemma block_fits: "n \<le> 8 \<Longrightarrow> 2 ^ (8 * n) \<le> (58 :: nat) ^ (encoded_block_sizes ! n)"
  using block_sizes_cases [of n] by (cases "n = 0") (auto simp: encoded_block_sizes_def)

lemma encoded_block_sizes_bounds:
  "1 \<le> n \<Longrightarrow> n \<le> 8 \<Longrightarrow> 1 \<le> encoded_block_sizes ! n \<and> encoded_block_sizes ! n \<le> 11"
  using block_sizes_cases [of n] by (auto simp: encoded_block_sizes_def)

lemma uint_8be_fits: "length b \<le> 8 \<Longrightarrow> unat (uint_8be_to_64 b) < 58 ^ (encoded_block_sizes ! length b)"
  using uint_8be_to_64_less [of b] block_fits [of "length b"] by simp

text \<open>The digits that are zero are those the buffer was filled with.\<close>

lemma encode_loop_slot:
  "unat num < 58 ^ w \<Longrightarrow> off + w \<le> length res \<Longrightarrow> take w (drop off res) = replicate w (alphabet ! 0) \<Longrightarrow>
   encode_loop off (int w - 1) num res = Inr (take off res @ digits58 w (unat num) @ drop (off + w) res)"
proof (induction w arbitrary: num res)
  case 0
  then have "num = 0" by (simp add: unat_eq_zero)
  then show ?case by (simp add: encode_loop.simps)
next
  case (Suc w)
  show ?case
  proof (cases "num = 0")
    case True
    have "take off res @ take (Suc w) (drop off res) @ drop (off + Suc w) res = res"
      by (metis append_take_drop_id drop_drop add.commute)
    then show ?thesis using True Suc.prems(3)
      by (subst encode_loop.simps) (simp add: digits58_zero del: digits58.simps)
  next
    case False
    define res' where "res' = res[off + w := alphabet ! (unat num mod 58)]"
    have d: "unat (num div 58) = unat num div 58" "unat (num mod 58) = unat num mod 58"
      by (simp_all add: unat_div unat_mod)
    have lt: "off + w < length res" using Suc.prems(2) by simp
    have "encode_loop off (int (Suc w) - 1) num res = encode_loop off (int w - 1) (num div 58) res'"
      using False lt by (subst encode_loop.simps) (simp add: res'_def d word_gt_0 nat_add_distrib)
    moreover have "take w (drop off res') = replicate w (alphabet ! 0)"
    proof -
      have "take w (drop off res') = take w (take (Suc w) (drop off res))"
        by (simp add: res'_def drop_update_swap min_def)
      then show ?thesis using Suc.prems(3) by (simp only: take_replicate) simp
    qed
    moreover have "drop (off + w) res' = alphabet ! (unat num mod 58) # drop (off + Suc w) res"
      using lt by (simp add: res'_def Cons_nth_drop_Suc [symmetric] drop_update_swap)
    moreover have "take off res' = take off res" by (simp add: res'_def)
    moreover have "unat (num div 58) < 58 ^ w"
      using Suc.prems(1) by (simp add: d less_mult_imp_div_less mult.commute)
    ultimately show ?thesis using Suc.IH [of "num div 58" res'] lt by (simp add: d res'_def)
  qed
qed

lemma encode_block_slot:
  assumes "1 \<le> length b" "length b \<le> 8" "off + encoded_block_sizes ! length b \<le> length res"
    "take (encoded_block_sizes ! length b) (drop off res) = replicate (encoded_block_sizes ! length b) (alphabet ! 0)"
  shows "encode_block b off res = Inr (take off res @ block_string b @ drop (off + encoded_block_sizes ! length b) res)"
  using encode_loop_slot [OF uint_8be_fits assms(3,4)] assms(1,2) by (simp add: encode_block_def block_string_def Let_def)

lemma pow58_10: "k \<le> 10 \<Longrightarrow> (58 :: nat) ^ k < 18446744073709551616"
  using power_increasing [of k 10 "58 :: nat"] by simp

lemma decode_loop_step:
  assumes "unat ord = 58 ^ k" "k \<le> 10" "0 \<le> d" "d < 58"
  shows "(case mul128 ord (word_of_int d) of (hi, lo) \<Rightarrow> r + lo < r \<or> 0 \<noteq> hi)
      \<longleftrightarrow> 18446744073709551616 \<le> unat r + nat d * 58 ^ k"
    "unat r + nat d * 58 ^ k < 18446744073709551616 \<Longrightarrow>
      unat (r + snd (mul128 ord (word_of_int d))) = unat r + nat d * 58 ^ k"
proof -
  obtain hi lo where m: "mul128 ord (word_of_int d) = (hi, lo)" by (cases "mul128 ord (word_of_int d)")
  have "unat (word_of_int d :: u64) = nat d" using assms(3,4)
    by (simp add: unat_eq_nat_uint uint_word_of_int)
  then have p: "unat hi * 18446744073709551616 + unat lo = nat d * 58 ^ k"
    using mul128_exact [OF m] assms(1) by (simp add: u128_def mult.commute)
  have s: "unat (r + lo) = (unat r + unat lo) mod 18446744073709551616" by (rule unat_add_u64)
  note b = unat_lt_u64 [of r] unat_lt_u64 [of lo]
  have c: "r + lo < r \<longleftrightarrow> 18446744073709551616 \<le> unat r + unat lo"
    using b by (cases "unat r + unat lo < 18446744073709551616") (auto simp: word_less_nat_alt s not_less le_mod_geq)
  show "(case mul128 ord (word_of_int d) of (hi, lo) \<Rightarrow> r + lo < r \<or> 0 \<noteq> hi)
      \<longleftrightarrow> 18446744073709551616 \<le> unat r + nat d * 58 ^ k"
  proof (cases "hi = 0")
    case True
    then show ?thesis using m c p by simp
  next
    case False
    then have "1 \<le> unat hi" by (simp add: unat_gt_0 Suc_leI)
    then have "18446744073709551616 \<le> nat d * 58 ^ k" using p by linarith
    then show ?thesis using m False by simp
  qed
  show "unat (r + snd (mul128 ord (word_of_int d))) = unat r + nat d * 58 ^ k"
    if "unat r + nat d * 58 ^ k < 18446744073709551616"
  proof -
    have "unat hi = 0" using p that by (cases "unat hi") auto
    then have "unat lo = nat d * 58 ^ k" using p by (metis add_0 mult_zero_left)
    then show ?thesis using that m s by simp
  qed
qed

lemma decode_loop_iff:
  assumes "n \<le> length b" "unat ord = 58 ^ k" "n + k \<le> 11"
  shows "decode_loop b n r ord = Some r' \<longleftrightarrow>
    valid58 (take n b) \<and> unat r' = unat r + value58 (take n b) * 58 ^ k"
  using assms
proof (induction n arbitrary: r ord k)
  case 0
  then show ?case by (auto simp: word_unat_eq_iff)
next
  case (Suc n)
  define d where "d = reverse_alphabet (b ! n)"
  have t: "take (Suc n) b = take n b @ [b ! n]" using Suc.prems(1) by (simp add: take_Suc_conv_app_nth)
  show ?case
  proof (cases "d < 0")
    case True
    then show ?thesis by (simp add: t d_def)
  next
    case False
    then have d: "0 \<le> d" "d < 58" "k \<le> 10"
      using alphabet_reverse(1) [of "b ! n"] Suc.prems(3) by (auto simp: d_def)
    obtain hi lo where m: "mul128 ord (word_of_int d) = (hi, lo)" by (cases "mul128 ord (word_of_int d)")
    note st = decode_loop_step [OF Suc.prems(2) d(3) d(1,2), of r, unfolded m prod.case snd_conv]
    have v: "value58 (take (Suc n) b) * 58 ^ k = value58 (take n b) * 58 ^ Suc k + nat d * 58 ^ k"
      by (simp add: t d_def algebra_simps)
    show ?thesis
    proof (cases "r + lo < r \<or> 0 \<noteq> hi")
      case True
      then have "18446744073709551616 \<le> unat r + nat d * 58 ^ k" using st(1) by simp
      then have "unat r' \<noteq> unat r + value58 (take (Suc n) b) * 58 ^ k"
        using unat_lt_u64 [of r'] v by linarith
      then show ?thesis using True False m by (auto simp: d_def [symmetric] Let_def)
    next
      case ok: False
      then have u: "unat (r + lo) = unat r + nat d * 58 ^ k" using st by simp
      have "decode_loop b (Suc n) r ord = decode_loop b n (r + lo) (ord * 58)"
        using ok False m by (simp add: d_def [symmetric] Let_def)
      also have "\<dots> = Some r' \<longleftrightarrow> valid58 (take n b) \<and> unat r' = unat (r + lo) + value58 (take n b) * 58 ^ Suc k"
      proof (cases n)
        case 0
        then show ?thesis by (auto simp: word_unat_eq_iff)
      next
        case (Suc n')
        then have "Suc k \<le> 10" using Suc.prems(3) by simp
        then have "unat (ord * 58) = 58 ^ Suc k"
          using pow58_10 [of "Suc k"] Suc.prems(2) by (simp add: unat_mul_u64 mult.commute)
        then show ?thesis using Suc.IH [of "ord * 58" "Suc k" "r + lo"] Suc.prems by simp
      qed
      also have "\<dots> \<longleftrightarrow> valid58 (take (Suc n) b) \<and> unat r' = unat r + value58 (take (Suc n) b) * 58 ^ k"
        unfolding u v using False by (auto simp: t d_def)
      finally show ?thesis .
    qed
  qed
qed

lemma unat_pow2_u64: "n < 64 \<Longrightarrow> unat (2 ^ n :: u64) = 2 ^ n"
proof -
  assume "n < 64"
  then have "(2 :: nat) ^ n < 2 ^ 64" by (intro power_strict_increasing) auto
  then show ?thesis using unat_push_bit_u64 [of n 1] by simp
qed

lemma length_block_string: "length (block_string b) = encoded_block_sizes ! length b"
  by (simp add: block_string_def)

lemma value58_block_string:
  "length b \<le> 8 \<Longrightarrow> valid58 (block_string b) \<and> value58 (block_string b) = unat (uint_8be_to_64 b)"
  using uint_8be_fits [of b] by (simp add: block_string_def valid58_digits58 value58_digits58)

lemma encoded_block_sizes_inj:
  "n \<le> 8 \<Longrightarrow> m \<le> 8 \<Longrightarrow> encoded_block_sizes ! n = encoded_block_sizes ! m \<Longrightarrow> n = m"
proof -
  have "distinct encoded_block_sizes" "length encoded_block_sizes = 9" by (simp_all add: encoded_block_sizes_def)
  then show "n \<le> 8 \<Longrightarrow> m \<le> 8 \<Longrightarrow> encoded_block_sizes ! n = encoded_block_sizes ! m \<Longrightarrow> n = m"
    by (simp add: nth_eq_iff_index_eq)
qed

lemma decoded_block_size_encoded:
  "n \<le> 8 \<Longrightarrow> decoded_block_sizes (encoded_block_sizes ! n) = Inr (int n)"
  using block_sizes_cases [of n]
  by (cases "n = 0") (auto simp: decoded_block_sizes_def decoded_block_sizes_eq encoded_block_sizes_def)

lemma decoded_block_size_inv:
  assumes "l \<le> 11" "decoded_block_sizes l = Inr d" "0 \<le> d"
  shows "nat d \<le> 8" "encoded_block_sizes ! nat d = l"
proof -
  have "l = 0 \<or> l = 1 \<or> l = 2 \<or> l = 3 \<or> l = 4 \<or> l = 5 \<or> l = 6 \<or> l = 7 \<or> l = 8 \<or> l = 9 \<or> l = 10 \<or> l = 11"
    using assms(1) by presburger
  then show "nat d \<le> 8" "encoded_block_sizes ! nat d = l"
    using assms(2,3) by (elim disjE, simp_all add: decoded_block_sizes_def decoded_block_sizes_eq encoded_block_sizes_def split: if_splits)+
qed

lemma decode_block_string:
  assumes "1 \<le> length b" "length b \<le> 8"
  shows "decode_block (block_string b) = Inr (Some b)"
proof -
  let ?s = "block_string b"
  have l: "1 \<le> length ?s" "length ?s \<le> 11"
    using encoded_block_sizes_bounds [OF assms] by (simp_all add: length_block_string)
  have ds: "decoded_block_sizes (length ?s) = Inr (int (length b))"
    using decoded_block_size_encoded [OF assms(2)] by (simp add: length_block_string)
  have "decode_loop ?s (length ?s) 0 1 = Some (uint_8be_to_64 b)"
    using decode_loop_iff [of "length ?s" ?s 1 0 0 "uint_8be_to_64 b"] l value58_block_string [OF assms(2)] by simp
  moreover have "\<not> (length b < 8 \<and> push_bit (8 * length b) 1 \<le> uint_8be_to_64 b)"
    using uint_8be_to_64_less [OF assms(2)] by (auto simp: word_le_nat_alt unat_pow2_u64)
  ultimately show ?thesis
    using l ds assms be_bytes_roundtrip [OF assms(2)] by (auto simp: decode_block_def Let_def)
qed

lemma decode_block_inv:
  assumes "decode_block s = Inr (Some b)"
  shows "1 \<le> length b" "length b \<le> 8" "block_string b = s"
proof -
  obtain d r where l: "1 \<le> length s" "length s \<le> 11" and d: "decoded_block_sizes (length s) = Inr d" "\<not> d \<le> 0"
    and r: "decode_loop s (length s) 0 1 = Some r" "\<not> (nat d < 8 \<and> push_bit (8 * nat d) 1 \<le> r)"
    and b: "b = uint_64_to_8be r (nat d)"
    using assms by (auto simp: decode_block_def Let_def bindE_Inr_iff split: if_splits option.splits)
  have n: "nat d \<le> 8" "encoded_block_sizes ! nat d = length s"
    using decoded_block_size_inv [OF l(2) d(1)] d(2) by simp_all
  have v: "valid58 s" "unat r = value58 s"
    using r(1) decode_loop_iff [of "length s" s 1 0 0 r] l(2) by simp_all
  have "unat r < 2 ^ (8 * nat d)"
  proof (cases "nat d = 8")
    case True
    then show ?thesis using unat_lt_u64 [of r] by simp
  next
    case False
    then have "nat d < 8" using n(1) by simp
    then show ?thesis using r(2) by (simp add: word_le_nat_alt unat_pow2_u64 not_le)
  qed
  then have "uint_8be_to_64 b = r" using be_num_roundtrip [OF n(1)] b by simp
  moreover have lb: "length b = nat d" using n(1) b by (simp add: length_uint_64_to_8be)
  ultimately show "block_string b = s" using v n digits58_value58 [OF v(1)] by (simp add: block_string_def)
  show "1 \<le> length b" "length b \<le> 8" using lb n(1) d(2) by simp_all
qed

lemma decode_block_returns: "1 \<le> length s \<Longrightarrow> length s \<le> 11 \<Longrightarrow> \<exists>r. decode_block s = Inr r"
  by (auto simp: decode_block_def decoded_block_sizes_def Let_def split: option.splits)

section \<open>Whole strings\<close>

lemma length_concat_const: "(\<And>i. i < n \<Longrightarrow> length (f i) = c) \<Longrightarrow> length (concat (map f [0..<n])) = n * c"
  by (induction n) auto

lemma concat_chunks: "n * c \<le> length s \<Longrightarrow> concat (map (\<lambda>i. take c (drop (i * c) s)) [0..<n]) = take (n * c) s"
proof (induction n)
  case (Suc n)
  then show ?case by (simp add: take_add add.commute [of c])
qed simp

lemma chunk_concat:
  assumes "\<And>i. i < n \<Longrightarrow> length (f i) = c" "i < n"
  shows "take c (drop (i * c) (concat (map f [0..<n]) @ rest)) = f i"
proof -
  have "[0..<n] = [0..<i] @ i # [Suc i..<n]"
    using assms(2) upt_add_eq_append [of 0 i "n - i"] by (simp add: upt_conv_Cons)
  moreover have "length (concat (map f [0..<i])) = i * c"
    by (rule length_concat_const) (use assms in auto)
  ultimately show ?thesis using assms by simp
qed

definition encoded_blocks :: "byte list \<Rightarrow> nat \<Rightarrow> string" where
  "encoded_blocks data n = concat (map (\<lambda>i. block_string (take 8 (drop (i * 8) data))) [0..<n])"

definition encoded58 :: "byte list \<Rightarrow> string" where
  "encoded58 data = encoded_blocks data (length data div 8)
     @ (if length data mod 8 = 0 then [] else block_string (drop (length data div 8 * 8) data))"

lemma length_chunk: "(i + 1) * c \<le> length s \<Longrightarrow> length (take c (drop (i * c) s)) = c"
  by simp

lemma length_encoded_chunk: "i < n \<Longrightarrow> n * 8 \<le> length data \<Longrightarrow> length (block_string (take 8 (drop (i * 8) data))) = 11"
  using mult_le_mono1 [of "i + 1" n 8] by (simp add: length_block_string encoded_block_sizes_def min_def)

lemma length_encoded_blocks: "n * 8 \<le> length data \<Longrightarrow> length (encoded_blocks data n) = n * 11"
  unfolding encoded_blocks_def by (rule length_concat_const) (simp add: length_encoded_chunk)

lemma encode_full_blocks_eq:
  "n * 8 \<le> length data \<Longrightarrow> n * 11 \<le> m \<Longrightarrow>
   encode_full_blocks data n (replicate m (alphabet ! 0)) = Inr (encoded_blocks data n @ replicate (m - n * 11) (alphabet ! 0))"
proof (induction n)
  case (Suc n)
  define b where "b = take 8 (drop (n * 8) data)"
  have b: "length b = 8" "encoded_block_sizes ! 8 = 11" using Suc.prems by (simp_all add: b_def encoded_block_sizes_def)
  have l: "length (encoded_blocks data n) = n * 11" using Suc.prems by (intro length_encoded_blocks) simp
  have "encode_block b (n * 11) (encoded_blocks data n @ replicate (m - n * 11) (alphabet ! 0))
     = Inr (encoded_blocks data n @ block_string b @ replicate (m - Suc n * 11) (alphabet ! 0))"
    using Suc.prems by (subst encode_block_slot) (simp_all add: b l min_def)
  then show ?case using Suc by (simp add: encoded_blocks_def b_def)
qed (simp add: encoded_blocks_def)

lemma base58_encode_eq: "base58_encode data = Inr (encoded58 data)"
proof (cases "data = []")
  case False
  define n k where "n = length data div 8" and "k = length data mod 8"
  have nk: "n * 8 \<le> length data" "k < 8" "length data = n * 8 + k" by (simp_all add: n_def k_def)
  let ?e = "encoded_block_sizes ! k"
  note f = encode_full_blocks_eq [OF nk(1), of "n * 11 + ?e"]
  have l: "length (encoded_blocks data n) = n * 11" using nk(1) by (rule length_encoded_blocks)
  have "base58_encode data = (if 0 < k then encode_block (drop (n * 8) data) (n * 11) (encoded_blocks data n @ replicate ?e (alphabet ! 0))
      else Inr (encoded_blocks data n @ replicate ?e (alphabet ! 0)))"
    using False f by (simp add: base58_encode_def Let_def n_def [symmetric] k_def [symmetric])
  moreover have "encode_block (drop (n * 8) data) (n * 11) (encoded_blocks data n @ replicate ?e (alphabet ! 0))
      = Inr (encoded_blocks data n @ block_string (drop (n * 8) data))" if "0 < k"
    using that nk by (subst encode_block_slot) (simp_all add: l)
  ultimately show ?thesis
    by (simp add: encoded58_def n_def [symmetric] k_def [symmetric] encoded_block_sizes_def split: if_splits)
qed (simp add: base58_encode_def encoded58_def encoded_blocks_def)

lemma length_encoded58: "length (encoded58 data) = length data div 8 * 11 + encoded_block_sizes ! (length data mod 8)"
proof -
  have "length data - length data div 8 * 8 = length data mod 8" by (simp add: minus_div_mult_eq_mod)
  then show ?thesis
    by (simp add: encoded58_def length_encoded_blocks length_block_string encoded_block_sizes_def)
qed

lemma encoded58_chunk:
  "i < length data div 8 \<Longrightarrow> take 11 (drop (i * 11) (encoded58 data)) = block_string (take 8 (drop (i * 8) data))"
  unfolding encoded58_def encoded_blocks_def
  by (rule chunk_concat) (auto intro: length_encoded_chunk)

lemma decode_into_eq:
  "decode_block block = Inr (Some b) \<Longrightarrow> off + length b \<le> length data \<Longrightarrow>
   decode_into block off data = Inr (Some (take off data @ b @ drop (off + length b) data))"
  by (simp add: decode_into_def)

lemma decode_full_blocks_encoded:
  "n \<le> length data div 8 \<Longrightarrow> n * 8 \<le> m \<Longrightarrow>
   decode_full_blocks (encoded58 data) n (replicate m 0) = Inr (Some (take (n * 8) data @ replicate (m - n * 8) 0))"
proof (induction n)
  case (Suc n)
  define b where "b = take 8 (drop (n * 8) data)"
  have l: "Suc n * 8 \<le> length data" using mult_le_mono1 [OF Suc.prems(1), of 8] by simp
  then have b: "length b = 8" by (simp add: b_def)
  have c: "take 11 (drop (n * 11) (encoded58 data)) = block_string b"
    using encoded58_chunk [of n data] Suc.prems by (simp add: b_def)
  have t: "take (Suc n * 8) data = take (n * 8) data @ b" by (simp add: b_def take_add add.commute [of 8])
  have "decode_into (block_string b) (n * 8) (take (n * 8) data @ replicate (m - n * 8) 0)
      = Inr (Some (take (n * 8) data @ b @ replicate (m - Suc n * 8) 0))"
    using Suc.prems l by (subst decode_into_eq [OF decode_block_string]) (simp_all add: b min_def)
  moreover have "decode_full_blocks (encoded58 data) n (replicate m 0) = Inr (Some (take (n * 8) data @ replicate (m - n * 8) 0))"
    using Suc.IH Suc.prems by simp
  ultimately show ?case unfolding t by (simp add: c)
qed simp

lemma encoded58_eq_Nil: "encoded58 data = [] \<longleftrightarrow> data = []"
proof
  assume "encoded58 data = []"
  then have "length data div 8 * 11 + encoded_block_sizes ! (length data mod 8) = 0"
    using length_encoded58 [of data] by simp
  then have z: "length data div 8 = 0" "encoded_block_sizes ! (length data mod 8) = 0" by (simp_all only: add_is_0 mult_is_0) auto
  have "length data mod 8 = 0"
  proof (rule ccontr)
    assume "length data mod 8 \<noteq> 0"
    then show False using encoded_block_sizes_bounds [of "length data mod 8"] z(2) by simp
  qed
  then have "length data = 0" using z(1) div_mult_mod_eq [of "length data" 8] by linarith
  then show "data = []" by simp
qed (simp add: encoded58_def encoded_blocks_def)

lemma encoded_length_div: "k < 8 \<Longrightarrow> (n * 11 + encoded_block_sizes ! k) div 11 = n \<and> (n * 11 + encoded_block_sizes ! k) mod 11 = encoded_block_sizes ! k"
  using block_sizes_cases [of k] by (cases "k = 0") (auto simp: encoded_block_sizes_def)

lemma base58_decode_encoded: "base58_decode (encoded58 data) = Inr (Some data)"
proof (cases "data = []")
  case True
  then show ?thesis by (simp add: base58_decode_def encoded58_def encoded_blocks_def)
next
  case False
  define n k where "n = length data div 8" and "k = length data mod 8"
  have nk: "k < 8" "length data = n * 8 + k" by (simp_all add: n_def k_def)
  let ?s = "encoded58 data"
  have l: "length ?s = n * 11 + encoded_block_sizes ! k" by (simp add: length_encoded58 n_def k_def)
  have dm: "length ?s div 11 = n" "length ?s mod 11 = encoded_block_sizes ! k"
    using encoded_length_div [OF nk(1), of n] unfolding l by simp_all
  have z: "0 < encoded_block_sizes ! k \<longleftrightarrow> 0 < k"
    using block_sizes_cases [of k] nk(1) by (cases "k = 0") (auto simp: encoded_block_sizes_def)
  have f: "decode_full_blocks ?s n (replicate (n * 8 + k) 0) = Inr (Some (take (n * 8) data @ replicate k 0))"
    using decode_full_blocks_encoded [of n data "n * 8 + k"] by (simp add: n_def)
  define b where "b = drop (n * 8) data"
  have b: "length b = k" "take (n * 8) data @ b = data" using nk(2) by (simp_all add: b_def)
  have last: "drop (n * 11) ?s = block_string b" if "0 < k"
  proof -
    have "?s = encoded_blocks data n @ (if k = 0 then [] else block_string b)"
      by (simp only: encoded58_def b_def n_def k_def)
    then show ?thesis using that length_encoded_blocks [of n data] nk(2) by simp
  qed
  have di: "decode_into (block_string b) (n * 8) (take (n * 8) data @ replicate k 0) = Inr (Some data)" if "0 < k"
    using that nk b by (subst decode_into_eq [OF decode_block_string]) (simp_all add: min_def)
  have "base58_decode ?s = (if 0 < k then decode_into (drop (n * 11) ?s) (n * 8) (take (n * 8) data @ replicate k 0)
      else Inr (Some (take (n * 8) data @ replicate k 0)))"
    using False decoded_block_size_encoded [of k] nk(1) f
    by (simp add: base58_decode_def encoded58_eq_Nil Let_def dm z)
  then show ?thesis using last di b by (cases "k = 0") auto
qed

text \<open>Conversely, what \<open>decode_into\<close> writes is a block whose string is the one that was read.\<close>

lemma decode_into_inv:
  assumes "decode_into block off data = Inr (Some data')"
  obtains b where "1 \<le> length b" "length b \<le> 8" "block_string b = block" "off + length b \<le> length data"
    "data' = take off data @ b @ drop (off + length b) data"
proof -
  from assms obtain r where r: "decode_block block = Inr r"
      "(case r of None \<Rightarrow> Inr None | Some bs \<Rightarrow>
         if off + length bs \<le> length data then Inr (Some (take off data @ bs @ drop (off + length bs) data))
         else Inl OutOfRange) = (Inr (Some data') :: swarm_error + byte list option)"
    by (auto simp: decode_into_def bindE_Inr_iff)
  then obtain b where b: "r = Some b" by (cases r) auto
  show ?thesis
    using r(2) by (intro that [OF decode_block_inv [OF r(1) [unfolded b]]]) (auto simp: b split: if_splits)
qed

lemma chunk_before: "(i + 1) * c \<le> off \<Longrightarrow> off \<le> length data \<Longrightarrow> take c (drop (i * c) (take off data @ rest)) = take c (drop (i * c) data)"
proof -
  assume a: "(i + 1) * c \<le> off" "off \<le> length data"
  then have "c \<le> off - i * c" "i * c \<le> off" by simp_all
  then show ?thesis using a(2) by (simp add: drop_take min_absorb1 min_absorb2)
qed

lemma decode_full_blocks_inv:
  "decode_full_blocks s n data = Inr (Some data') \<Longrightarrow> n * 11 \<le> length s \<Longrightarrow>
   length data' = length data \<and> n * 8 \<le> length data
     \<and> (\<forall>i < n. block_string (take 8 (drop (i * 8) data')) = take 11 (drop (i * 11) s))"
proof (induction n arbitrary: data')
  case (Suc n)
  then obtain d where d: "decode_full_blocks s n data = Inr (Some d)"
      "decode_into (take 11 (drop (n * 11) s)) (n * 8) d = Inr (Some data')"
    by (auto simp: bindE_Inr_iff split: option.splits)
  have ih: "length d = length data" "n * 8 \<le> length data"
      "\<forall>i < n. block_string (take 8 (drop (i * 8) d)) = take 11 (drop (i * 11) s)"
    using Suc.IH [OF d(1)] Suc.prems(2) by auto
  from d(2) obtain b where b: "1 \<le> length b" "length b \<le> 8" "block_string b = take 11 (drop (n * 11) s)"
      "n * 8 + length b \<le> length d" "data' = take (n * 8) d @ b @ drop (n * 8 + length b) d"
    by (rule decode_into_inv)
  have "encoded_block_sizes ! length b = encoded_block_sizes ! 8"
    using arg_cong [OF b(3), of length] Suc.prems(2) by (simp add: length_block_string encoded_block_sizes_def)
  then have l: "length b = 8" using encoded_block_sizes_inj [of "length b" 8] b(2) by simp
  have "block_string (take 8 (drop (i * 8) data')) = take 11 (drop (i * 11) s)" if "i < Suc n" for i
  proof (cases "i = n")
    case True
    then show ?thesis using b(3) l ih(1,2) by (simp add: b(5) min_def)
  next
    case False
    then have "i < n" "(i + 1) * 8 \<le> n * 8" using that by auto
    then show ?thesis using ih by (subst b(5), subst chunk_before) auto
  qed
  then show ?case using b(4,5) l ih(1) by auto
qed simp

lemma decode_last_inv:
  assumes f: "if 0 < k then decode_into (drop (n * 11) s) (n * 8) d = Inr (Some data) else data = d"
    and d: "length d = n * 8 + m \<and> (\<forall>i < n. block_string (take 8 (drop (i * 8) d)) = take 11 (drop (i * 11) s))"
    and m: "encoded_block_sizes ! m = k" "m \<le> 8" and s: "length s = n * 11 + k"
  shows "length data = n * 8 + m" "\<forall>i < n. block_string (take 8 (drop (i * 8) data)) = take 11 (drop (i * 11) s)"
    "0 < k \<Longrightarrow> block_string (drop (n * 8) data) = drop (n * 11) s"
proof -
  have "length data = n * 8 + m \<and> (\<forall>i < n. block_string (take 8 (drop (i * 8) data)) = take 11 (drop (i * 11) s))
      \<and> (0 < k \<longrightarrow> block_string (drop (n * 8) data) = drop (n * 11) s)"
  proof (cases "0 < k")
    case True
    with f obtain b where b: "length b \<le> 8" "block_string b = drop (n * 11) s"
        "data = take (n * 8) d @ b @ drop (n * 8 + length b) d"
      using decode_into_inv [of "drop (n * 11) s" "n * 8" d data] by auto
    have "encoded_block_sizes ! length b = encoded_block_sizes ! m"
      using arg_cong [OF b(2), of length] s m(1) by (simp add: length_block_string)
    then have "data = take (n * 8) d @ b" "length b = m" using encoded_block_sizes_inj [OF b(1) m(2)] b(3) d by simp_all
    moreover have "take 8 (drop (i * 8) (take (n * 8) d @ b)) = take 8 (drop (i * 8) d)" if "i < n" for i
      using that d mult_le_mono1 [of "i + 1" n 8] by (intro chunk_before) auto
    ultimately show ?thesis using d b(2) by simp
  qed (use f d in simp)
  then show "length data = n * 8 + m" "\<forall>i < n. block_string (take 8 (drop (i * 8) data)) = take 11 (drop (i * 11) s)"
    "0 < k \<Longrightarrow> block_string (drop (n * 8) data) = drop (n * 11) s" by simp_all
qed

lemma base58_decode_inv:
  assumes "base58_decode s = Inr (Some data)"
  shows "encoded58 data = s"
proof (cases "s = []")
  case True
  then show ?thesis using assms by (simp add: base58_decode_def encoded58_def encoded_blocks_def)
next
  case False
  define n k where "n = length s div 11" and "k = length s mod 11"
  have nk: "k \<le> 11" "length s = n * 11 + k" "n * 11 \<le> length s" by (simp_all add: n_def k_def less_imp_le)
  obtain e d where e: "decoded_block_sizes k = Inr e" "0 \<le> e"
    and d: "decode_full_blocks s n (replicate (n * 8 + nat e) 0) = Inr (Some d)"
    and f: "if 0 < k then decode_into (drop (n * 11) s) (n * 8) d = Inr (Some data) else data = d"
    using assms False
    by (auto simp: base58_decode_def Let_def n_def [symmetric] k_def [symmetric] bindE_Inr_iff not_less split: if_splits option.splits)
  note es = decoded_block_size_inv [OF nk(1) e]
  have e8: "nat e < 8" using es nk(1) mod_less_divisor [of 11 "length s"]
    by (cases "nat e = 8") (auto simp: encoded_block_sizes_def k_def)
  have di: "length d = n * 8 + nat e \<and> (\<forall>i < n. block_string (take 8 (drop (i * 8) d)) = take 11 (drop (i * 11) s))"
    using decode_full_blocks_inv [OF d nk(3)] by simp
  have l: "length data = n * 8 + nat e"
    and c: "\<forall>i < n. block_string (take 8 (drop (i * 8) data)) = take 11 (drop (i * 11) s)"
    and t: "0 < k \<Longrightarrow> block_string (drop (n * 8) data) = drop (n * 11) s"
    using decode_last_inv [OF f di es(2) es(1) nk(2)] by simp_all
  have "length data div 8 = n" "length data mod 8 = nat e" using l e8 by simp_all
  moreover have "encoded_blocks data n = take (n * 11) s"
  proof -
    have "map (\<lambda>i. block_string (take 8 (drop (i * 8) data))) [0..<n] = map (\<lambda>i. take 11 (drop (i * 11) s)) [0..<n]"
      using c by (intro map_cong) auto
    then show ?thesis using concat_chunks [OF nk(3)] by (simp only: encoded_blocks_def)
  qed
  moreover have "nat e = 0 \<longleftrightarrow> k = 0"
    using es(2) e8 block_sizes_cases [of "nat e"] by (cases "nat e = 0") (auto simp: encoded_block_sizes_def)
  ultimately show ?thesis using t nk by (auto simp: encoded58_def)
qed

lemma base58_decode_iff: "base58_decode s = Inr (Some data) \<longleftrightarrow> base58_encode data = Inr s"
  using base58_decode_inv [of s data] base58_decode_encoded [of data] by (auto simp: base58_encode_eq)

lemma decode_into_returns:
  assumes "1 \<le> length s" "length s \<le> 11" "\<And>b. decode_block s = Inr (Some b) \<Longrightarrow> off + length b \<le> length data"
  shows "\<exists>r. decode_into s off data = Inr r"
proof -
  obtain r where "decode_block s = Inr r" using decode_block_returns [OF assms(1,2)] by blast
  then show ?thesis using assms(3) by (cases r) (auto simp: decode_into_def)
qed

lemma decode_block_length:
  "decode_block s = Inr (Some b) \<Longrightarrow> m \<le> 8 \<Longrightarrow> encoded_block_sizes ! m = length s \<Longrightarrow> length b = m"
  using decode_block_inv [of s b] encoded_block_sizes_inj [of "length b" m] length_block_string [of b] by simp

lemma decode_full_blocks_returns:
  "n * 11 \<le> length s \<Longrightarrow> n * 8 \<le> length data \<Longrightarrow> \<exists>r. decode_full_blocks s n data = Inr r"
proof (induction n)
  case (Suc n)
  then obtain r where r: "decode_full_blocks s n data = Inr r" by auto
  show ?case
  proof (cases r)
    case (Some d)
    then have l: "length d = length data" using decode_full_blocks_inv [of s n data d] r Suc.prems by simp
    let ?c = "take 11 (drop (n * 11) s)"
    have c: "length ?c = 11" using Suc.prems by simp
    have "\<exists>r. decode_into ?c (n * 8) d = Inr r"
      using decode_block_length [of ?c _ 8] Suc.prems c l
      by (intro decode_into_returns) (auto simp: encoded_block_sizes_def)
    then show ?thesis using r Some by simp
  qed (simp add: r)
qed simp

lemma base58_decode_returns: "\<exists>r. base58_decode s = Inr r"
proof (cases "s = []")
  case False
  define n k where "n = length s div 11" and "k = length s mod 11"
  have nk: "k \<le> 11" "length s = n * 11 + k" "n * 11 \<le> length s" by (simp_all add: n_def k_def less_imp_le)
  obtain e where e: "decoded_block_sizes k = Inr e" using nk(1) by (simp add: decoded_block_sizes_def)
  show ?thesis
  proof (cases "e < 0")
    case True
    then show ?thesis using False e by (simp add: base58_decode_def Let_def n_def [symmetric] k_def [symmetric])
  next
    case pos: False
    obtain r where r: "decode_full_blocks s n (replicate (n * 8 + nat e) 0) = Inr r"
      using decode_full_blocks_returns [OF nk(3), of "replicate (n * 8 + nat e) 0"] by auto
    have u: "base58_decode s = (case r of None \<Rightarrow> Inr None | Some d \<Rightarrow>
        if 0 < k then decode_into (drop (n * 11) s) (n * 8) d else Inr (Some d))"
      using False e pos r by (simp add: base58_decode_def Let_def n_def [symmetric] k_def [symmetric])
    show ?thesis
    proof (cases r)
      case (Some d)
      have "length d = n * 8 + nat e" using decode_full_blocks_inv [of s n _ d] r Some nk(3) by simp
      moreover have "length b = nat e" if "decode_block (drop (n * 11) s) = Inr (Some b)" for b
        using decode_block_length [OF that] decoded_block_size_inv [OF nk(1) e] pos nk(2) by simp
      ultimately have "\<exists>r. decode_into (drop (n * 11) s) (n * 8) d = Inr r" if "0 < k"
        using that nk by (intro decode_into_returns) auto
      then show ?thesis using u Some by auto
    qed (simp add: u)
  qed
qed (simp add: base58_decode_def)

lemma length_take4_pod: "length (take 4 (bytes_of_pod p)) = 4"
  by simp

lemma encode_addr_returns: "\<exists>s. encode_addr h tag data = Inr s"
  by (simp add: encode_addr_def base58_encode_eq Let_def)

lemma decode_encode_addr:
  assumes "encode_addr h tag data = Inr s"
  shows "decode_addr h s = Inr (Some (tag, data))"
proof -
  define buf sum where "buf = write_varint tag @ data" and "sum = take 4 (bytes_of_pod (h buf))"
  have d: "base58_decode s = Inr (Some (buf @ sum))"
    using assms by (simp add: encode_addr_def Let_def buf_def sum_def base58_decode_iff)
  have "length sum = 4" "buf \<noteq> []" by (simp_all add: sum_def buf_def)
  moreover have "0 < length (write_varint tag)" by simp
  ultimately show ?thesis
    using d read_write_varint [of tag data]
    by (simp add: decode_addr_def Let_def sum_def [symmetric]) (simp add: buf_def)
qed

section \<open>Properties\<close>

text \<open>
  C23. The base-58 codec returns on every input: \<^verbatim>\<open>encode\<close> never writes a digit outside of its buffer (the
  loop over the digits ends and no index goes below the slot of its block) and gives eleven digits for
  every eight bytes plus the size of the last block; \<^verbatim>\<open>decode\<close> of any string fails no assertion and
  writes no byte outside of its buffer.
\<close>

theorem base58_returns:
  "(\<exists>s. base58_encode data = Inr s \<and> length s = length data div 8 * 11 + encoded_block_sizes ! (length data mod 8))
   \<and> (\<exists>r. base58_decode str = Inr r)"
  using base58_decode_returns [of str] by (simp add: base58_encode_eq length_encoded58)

text \<open>
  C22. Decoding is exactly the inverse of encoding: \<^verbatim>\<open>decode\<close> accepts a string if and only if it is the
  encoding of some data, and gives back that data. In particular no two strings decode to the same data
  and no two data have the same string.
\<close>

theorem base58_roundtrip:
  "base58_decode s = Inr (Some data) \<longleftrightarrow> base58_encode data = Inr s"
  by (rule base58_decode_iff)

end
