(* ===== verification/Account_Address.thy ===== *)
theory Account_Address
  imports Base58 Framepix_Info
begin

text \<open>
  Account addresses as strings, of \<^verbatim>\<open>src/src/cryptonote_basic/cryptonote_basic_impl.cpp\<close>: the address, the
  subaddress and the integrated address in base 58 with the prefix of their network, and the older
  hexadecimal form. A network type without a configuration makes \<^verbatim>\<open>get_config\<close> throw. The eight bytes of
  a payment id are a \<^typ>\<open>u64\<close> in memory order.
\<close>

section \<open>Definitions\<close>

datatype address_error = InvalidNettype | Base58Error swarm_error

definition liftB :: "swarm_error + 'a \<Rightarrow> address_error + 'a" where
  "liftB r = (case r of Inl e \<Rightarrow> Inl (Base58Error e) | Inr a \<Rightarrow> Inr a)"

text \<open>The fields of the configuration that addresses use.\<close>

record config_t =
  cfg_address_prefix :: u64
  cfg_integrated_address_prefix :: u64
  cfg_subaddress_prefix :: u64

definition get_config :: "network_type \<Rightarrow> address_error + config_t" where
  "get_config nettype =
     (case nettype of
        MAINNET \<Rightarrow> Inr \<lparr>cfg_address_prefix = 114, cfg_integrated_address_prefix = 115, cfg_subaddress_prefix = 116\<rparr>
      | FAKECHAIN \<Rightarrow> Inr \<lparr>cfg_address_prefix = 114, cfg_integrated_address_prefix = 115, cfg_subaddress_prefix = 116\<rparr>
      | TESTNET \<Rightarrow> Inr \<lparr>cfg_address_prefix = 156, cfg_integrated_address_prefix = 157, cfg_subaddress_prefix = 158\<rparr>
      | STAGENET \<Rightarrow> Inr \<lparr>cfg_address_prefix = 24, cfg_integrated_address_prefix = 25, cfg_subaddress_prefix = 36\<rparr>
      | UNDEFINED \<Rightarrow> Inl InvalidNettype)"

record address_parse_info =
  ap_address :: account_public_address
  is_subaddress :: bool
  has_payment_id :: bool
  ap_payment_id :: u64

definition put_integrated_address :: "account_public_address \<times> u64 \<Rightarrow> byte list" where
  "put_integrated_address iadr = put_address (fst iadr) @ le_bytes 8 (snd iadr)"

definition get_integrated_address :: "(account_public_address \<times> u64) reader" where
  "get_integrated_address bs = do {
     (adr, bs) \<leftarrow> get_address bs;
     (payment_id, bs) \<leftarrow> serialize_uint 8 bs;
     Some ((adr, payment_id), bs) }"

definition isx :: "nat \<Rightarrow> nat" where
  "isx c = (if 48 \<le> c \<and> c \<le> 57 then c - 48 else if 65 \<le> c \<and> c \<le> 70 then c - 55
     else if 97 \<le> c \<and> c \<le> 102 then c - 87 else 0xff)"

fun parse_hex_pairs :: "string \<Rightarrow> byte list option" where
  "parse_hex_pairs (a # b # src) =
     (let tmp = isx (of_char a); t2 = isx (of_char b)
      in if tmp = 0xff then None else if t2 = 0xff then None
         else do { dst \<leftarrow> parse_hex_pairs src; Some ((push_bit 4 (of_nat tmp) OR of_nat t2) # dst) })"
| "parse_hex_pairs _ = Some []"

definition parse_hexstr_to_binbuff :: "string \<Rightarrow> byte list option" where
  "parse_hexstr_to_binbuff s = (if odd (length s) then None else parse_hex_pairs s)"

abbreviation (input) CRYPTONOTE_PUBLIC_ADDRESS_TEXTBLOB_VER :: u8 where "CRYPTONOTE_PUBLIC_ADDRESS_TEXTBLOB_VER \<equiv> 0"

text \<open>The packed \<^verbatim>\<open>public_address_outer_blob\<close>: a version, the two keys, a checksum.\<close>

abbreviation (input) outer_blob_size :: nat where "outer_blob_size \<equiv> 66"

definition get_account_address_checksum :: "byte list \<Rightarrow> u8" where
  "get_account_address_checksum bl = foldl (+) 0 (take (outer_blob_size - 1) bl)"

definition get_account_address_as_str :: "tx_crypto \<Rightarrow> network_type \<Rightarrow> bool \<Rightarrow> account_public_address \<Rightarrow> address_error + string" where
  "get_account_address_as_str cr nettype subaddress adr =
     bindE (get_config nettype) (\<lambda>cfg.
       let address_prefix = (if subaddress then cfg_subaddress_prefix cfg else cfg_address_prefix cfg)
       in liftB (encode_addr (cn_fast_hash (base_crypto cr)) address_prefix (put_address adr)))"

definition get_account_integrated_address_as_str ::
    "tx_crypto \<Rightarrow> network_type \<Rightarrow> account_public_address \<Rightarrow> u64 \<Rightarrow> address_error + string" where
  "get_account_integrated_address_as_str cr nettype adr payment_id =
     bindE (get_config nettype) (\<lambda>cfg.
       liftB (encode_addr (cn_fast_hash (base_crypto cr)) (cfg_integrated_address_prefix cfg)
         (put_integrated_address (adr, payment_id))))"

text \<open>The tests of the three prefixes, in the order of the code; \<^const>\<open>None\<close> is a wrong prefix.\<close>

definition apply_prefix :: "config_t \<Rightarrow> u64 \<Rightarrow> address_parse_info \<Rightarrow> address_parse_info option" where
  "apply_prefix cfg prefix info =
     (if cfg_integrated_address_prefix cfg = prefix then Some (info\<lparr>is_subaddress := False, has_payment_id := True\<rparr>)
      else if cfg_address_prefix cfg = prefix then Some (info\<lparr>is_subaddress := False, has_payment_id := False\<rparr>)
      else if cfg_subaddress_prefix cfg = prefix then Some (info\<lparr>is_subaddress := True, has_payment_id := False\<rparr>)
      else None)"

definition parse_address_data :: "byte list \<Rightarrow> address_parse_info \<Rightarrow> address_parse_info option" where
  "parse_address_data data info =
     (if has_payment_id info then
        map_option (\<lambda>iadr. info\<lparr>ap_address := fst iadr, ap_payment_id := snd iadr\<rparr>) (parse_binary get_integrated_address data)
      else map_option (\<lambda>adr. info\<lparr>ap_address := adr\<rparr>) (parse_binary get_address data))"

definition parse_old_address :: "string \<Rightarrow> address_parse_info \<Rightarrow> address_parse_info option" where
  "parse_old_address str info =
     (case parse_hexstr_to_binbuff str of None \<Rightarrow> None | Some buff \<Rightarrow>
        if length buff \<noteq> outer_blob_size then None
        else if buff ! 0 > CRYPTONOTE_PUBLIC_ADDRESS_TEXTBLOB_VER then None
        else if buff ! (outer_blob_size - 1) \<noteq> get_account_address_checksum buff then None
        else Some (info\<lparr>ap_address := \<lparr>m_spend_public_key = pod_of_bytes (take 32 (drop 1 buff)),
                          m_view_public_key = pod_of_bytes (take 32 (drop 33 buff))\<rparr>,
                        is_subaddress := False, has_payment_id := False\<rparr>))"

definition get_account_address_from_str ::
    "tx_crypto \<Rightarrow> address_parse_info \<Rightarrow> network_type \<Rightarrow> string \<Rightarrow> address_error + address_parse_info option" where
  "get_account_address_from_str cr info nettype str =
     bindE (get_config nettype) (\<lambda>cfg.
       if 2 * outer_blob_size \<noteq> length str then
         bindE (liftB (decode_addr (cn_fast_hash (base_crypto cr)) str)) (\<lambda>r. Inr (do {
           (prefix, data) \<leftarrow> r;
           info \<leftarrow> apply_prefix cfg prefix info;
           info \<leftarrow> parse_address_data data info;
           if \<not> check_key cr (m_spend_public_key (ap_address info)) \<or> \<not> check_key cr (m_view_public_key (ap_address info))
           then None else Some info }))
       else Inr (parse_old_address str info))"

section \<open>Lemmas\<close>

interpretation c_integrated: codec_pos put_integrated_address get_integrated_address "\<lambda>_. True"
  by unfold_locales
    (auto simp: put_integrated_address_def get_integrated_address_def c_address.get_put c_u64.get_put c_address.put_pos
      bind_eq_Some_conv dest!: c_address.get_consumes c_u64.get_consumes)

lemma length_put_address: "length (put_address adr) = 64"
  by (simp add: put_address_def)

lemma length_put_integrated_address: "length (put_integrated_address iadr) = 72"
  by (simp add: put_integrated_address_def length_put_address)

lemma length_encode_addr:
  "encode_addr h tag data = Inr s \<Longrightarrow>
   length s = (length (write_varint tag) + length data + 4) div 8 * 11
     + encoded_block_sizes ! ((length (write_varint tag) + length data + 4) mod 8)"
  by (auto simp: encode_addr_def Let_def base58_encode_eq length_encoded58 add.commute add.left_commute)

lemma length_write_varint_small: "unat (tag :: u64) < 16384 \<Longrightarrow> length (write_varint tag) = 1 \<or> length (write_varint tag) = 2"
  by (subst (1 2) write_varint.simps, subst (1 2) write_varint.simps) (auto simp: unat_drop_bit_div)

definition address_prefix_of :: "config_t \<Rightarrow> u64 \<Rightarrow> bool" where
  "address_prefix_of cfg prefix = (prefix \<in> {cfg_address_prefix cfg, cfg_integrated_address_prefix cfg, cfg_subaddress_prefix cfg})"

lemma config_prefix_small: "get_config nettype = Inr cfg \<Longrightarrow> address_prefix_of cfg prefix \<Longrightarrow> unat prefix < 16384"
  by (cases nettype) (auto simp: get_config_def address_prefix_of_def)

lemma config_prefixes_distinct:
  "get_config nettype = Inr cfg \<Longrightarrow> cfg_integrated_address_prefix cfg \<noteq> cfg_address_prefix cfg
     \<and> cfg_integrated_address_prefix cfg \<noteq> cfg_subaddress_prefix cfg \<and> cfg_address_prefix cfg \<noteq> cfg_subaddress_prefix cfg"
  by (cases nettype) (auto simp: get_config_def)

lemma config_prefixes_disjoint:
  "get_config nettype = Inr cfg \<Longrightarrow> get_config nettype' = Inr cfg' \<Longrightarrow> cfg \<noteq> cfg' \<Longrightarrow>
   address_prefix_of cfg prefix \<Longrightarrow> \<not> address_prefix_of cfg' prefix"
  by (cases nettype; cases nettype') (auto simp: get_config_def address_prefix_of_def)

text \<open>A base-58 address is never as long as the hexadecimal form, so it is not taken for one.\<close>

lemma address_str_length:
  assumes "encode_addr h tag data = Inr s" "unat tag < 16384" "length data = 64 \<or> length data = 72"
  shows "length s \<noteq> 132"
  using length_encode_addr [OF assms(1)] length_write_varint_small [OF assms(2)] assms(3)
  by (elim disjE) (simp_all add: encoded_block_sizes_def)

lemma from_str_encoded:
  assumes "get_config nettype = Inr cfg" "encode_addr (cn_fast_hash (base_crypto cr)) tag data = Inr s"
    "unat tag < 16384" "length data = 64 \<or> length data = 72"
  shows "get_account_address_from_str cr info nettype s = Inr (do {
     info \<leftarrow> apply_prefix cfg tag info;
     info \<leftarrow> parse_address_data data info;
     if \<not> check_key cr (m_spend_public_key (ap_address info)) \<or> \<not> check_key cr (m_view_public_key (ap_address info))
     then None else Some info })"
  using assms(1) decode_encode_addr [OF assms(2)] address_str_length [OF assms(2-4)]
  by (simp add: get_account_address_from_str_def liftB_def)

lemma get_config_returns: "nettype \<noteq> UNDEFINED \<Longrightarrow> \<exists>cfg. get_config nettype = Inr cfg"
  by (cases nettype) (auto simp: get_config_def)

lemma apply_prefix_other: "\<not> address_prefix_of cfg prefix \<Longrightarrow> apply_prefix cfg prefix info = None"
  by (auto simp: apply_prefix_def address_prefix_of_def)

lemma address_other_network:
  assumes "get_config nettype = Inr cfg" "get_config nettype' \<noteq> get_config nettype" "nettype' \<noteq> UNDEFINED"
    "encode_addr (cn_fast_hash (base_crypto cr)) tag data = Inr s" "address_prefix_of cfg tag" "length data = 64 \<or> length data = 72"
  shows "get_account_address_from_str cr info nettype' s = Inr None"
proof -
  obtain cfg' where c: "get_config nettype' = Inr cfg'" using get_config_returns [OF assms(3)] by blast
  then have "\<not> address_prefix_of cfg' tag"
    using config_prefixes_disjoint [OF assms(1) c _ assms(5)] assms(1,2) by auto
  then show ?thesis
    using from_str_encoded [OF c assms(4) config_prefix_small [OF assms(1,5)] assms(6)] by (simp add: apply_prefix_other)
qed

lemma address_str_same_network:
  assumes "get_config nettype = Inr cfg" "check_key cr (m_spend_public_key adr)" "check_key cr (m_view_public_key adr)"
    "encode_addr (cn_fast_hash (base_crypto cr)) (if sub then cfg_subaddress_prefix cfg else cfg_address_prefix cfg)
       (put_address adr) = Inr s"
  shows "get_account_address_from_str cr info nettype s
    = Inr (Some (info\<lparr>ap_address := adr, is_subaddress := sub, has_payment_id := False\<rparr>))"
proof -
  have "address_prefix_of cfg (if sub then cfg_subaddress_prefix cfg else cfg_address_prefix cfg)"
    by (simp add: address_prefix_of_def)
  from from_str_encoded [OF assms(1,4) config_prefix_small [OF assms(1) this]] show ?thesis
    using assms(2,3) config_prefixes_distinct [OF assms(1)]
    by (simp add: length_put_address apply_prefix_def parse_address_data_def c_address.parse_binary_put)
qed

lemma integrated_str_same_network:
  assumes "get_config nettype = Inr cfg" "check_key cr (m_spend_public_key adr)" "check_key cr (m_view_public_key adr)"
    "encode_addr (cn_fast_hash (base_crypto cr)) (cfg_integrated_address_prefix cfg) (put_integrated_address (adr, pid)) = Inr s"
  shows "get_account_address_from_str cr info nettype s
    = Inr (Some \<lparr>ap_address = adr, is_subaddress = False, has_payment_id = True, ap_payment_id = pid\<rparr>)"
proof -
  have "address_prefix_of cfg (cfg_integrated_address_prefix cfg)" by (simp add: address_prefix_of_def)
  from from_str_encoded [OF assms(1,4) config_prefix_small [OF assms(1) this]] show ?thesis
    using assms(2,3)
    by (cases info)
      (simp add: length_put_integrated_address apply_prefix_def parse_address_data_def c_integrated.parse_binary_put)
qed

section \<open>Properties\<close>

text \<open>
  C20. The string of an address names the address and its network. On every network with a configuration
  the string of an address, a subaddress or an integrated address is produced without an error and is
  parsed back to the same keys, kind and payment id when both keys are points of the curve, and a node of
  a network with other prefixes rejects the string.
\<close>

theorem account_address_roundtrip:
  assumes "nettype \<noteq> UNDEFINED" "check_key cr (m_spend_public_key adr)" "check_key cr (m_view_public_key adr)"
  shows "(\<exists>s. get_account_address_as_str cr nettype sub adr = Inr s
        \<and> get_account_address_from_str cr info nettype s
            = Inr (Some (info\<lparr>ap_address := adr, is_subaddress := sub, has_payment_id := False\<rparr>))
        \<and> (\<forall>other. other \<noteq> UNDEFINED \<and> get_config other \<noteq> get_config nettype
             \<longrightarrow> get_account_address_from_str cr info other s = Inr None))
    \<and> (\<exists>s. get_account_integrated_address_as_str cr nettype adr pid = Inr s
        \<and> get_account_address_from_str cr info nettype s
            = Inr (Some \<lparr>ap_address = adr, is_subaddress = False, has_payment_id = True, ap_payment_id = pid\<rparr>)
        \<and> (\<forall>other. other \<noteq> UNDEFINED \<and> get_config other \<noteq> get_config nettype
             \<longrightarrow> get_account_address_from_str cr info other s = Inr None))"
proof -
  let ?h = "cn_fast_hash (base_crypto cr)"
  obtain cfg where c: "get_config nettype = Inr cfg" using get_config_returns [OF assms(1)] by blast
  let ?tag = "if sub then cfg_subaddress_prefix cfg else cfg_address_prefix cfg"
  have p: "address_prefix_of cfg ?tag" "address_prefix_of cfg (cfg_integrated_address_prefix cfg)"
    by (simp_all add: address_prefix_of_def)
  obtain s t where s: "encode_addr ?h ?tag (put_address adr) = Inr s"
    and t: "encode_addr ?h (cfg_integrated_address_prefix cfg) (put_integrated_address (adr, pid)) = Inr t"
    using encode_addr_returns by metis
  have str: "get_account_address_as_str cr nettype sub adr = Inr s"
      "get_account_integrated_address_as_str cr nettype adr pid = Inr t"
    using c s t by (simp_all add: get_account_address_as_str_def get_account_integrated_address_as_str_def liftB_def)
  show ?thesis
    using str address_str_same_network [OF c assms(2,3) s] integrated_str_same_network [OF c assms(2,3) t]
      address_other_network [OF c _ _ s p(1)] address_other_network [OF c _ _ t p(2)]
    by (simp add: length_put_address length_put_integrated_address)
qed

definition sample_parse_info :: address_parse_info where
  "sample_parse_info = \<lparr>ap_address = null_address, is_subaddress = False, has_payment_id = True, ap_payment_id = 7\<rparr>"

theorem account_address_roundtrip_witness:
  "\<exists>s. get_account_address_as_str (open_crypto 5) TESTNET True null_address = Inr s
     \<and> get_account_address_from_str (open_crypto 5) sample_parse_info TESTNET s
         = Inr (Some (sample_parse_info\<lparr>ap_address := null_address, is_subaddress := True, has_payment_id := False\<rparr>))
     \<and> get_account_address_from_str (open_crypto 5) sample_parse_info MAINNET s = Inr None"
proof -
  have k: "check_key (open_crypto 5) x" for x by (simp add: open_crypto_def)
  have n: "get_config MAINNET \<noteq> get_config TESTNET" by (simp add: get_config_def)
  show ?thesis
    using account_address_roundtrip [of TESTNET "open_crypto 5" null_address True sample_parse_info, OF _ k k] n by blast
qed

end
