(* ===== verification/Block_Reward.thy ===== *)
theory Block_Reward
  imports Account_Address Framepix_History
begin

text \<open>
  The reward of a block and its miner transaction: the base reward with the penalty for an oversized block
  (\<^verbatim>\<open>cryptonote_basic_impl.cpp\<close>), its split over miner, service nodes and governance and the construction of the
  miner transaction (\<^verbatim>\<open>cryptonote_tx_utils.cpp\<close>), and the checks a received miner transaction goes through
  (\<^verbatim>\<open>blockchain.cpp\<close> and \<^verbatim>\<open>frame_pix_list::validate_miner_tx\<close>).

  Parameters are the key generation, the reward formula of hard fork 8 (a floating point expression), and
  of the block chain its height, weights, blocks and hard fork schedule.
\<close>

section \<open>Definitions\<close>

subsection \<open>The base reward\<close>

abbreviation (input) BLOCK_REWARD_HF15 :: u64 where "BLOCK_REWARD_HF15 \<equiv> 500000000000"
abbreviation (input) SN_REWARD_HF15 :: u64 where "SN_REWARD_HF15 \<equiv> 330000000000"
abbreviation (input) FOUNDATION_REWARD_HF15 :: u64 where "FOUNDATION_REWARD_HF15 \<equiv> 50000000000"
abbreviation (input) CRYPTONOTE_MINED_MONEY_UNLOCK_WINDOW :: u64 where "CRYPTONOTE_MINED_MONEY_UNLOCK_WINDOW \<equiv> 60"
abbreviation (input) CRYPTONOTE_REWARD_BLOCKS_WINDOW :: u64 where "CRYPTONOTE_REWARD_BLOCKS_WINDOW \<equiv> 100"

datatype reward_error = ConfigError address_error | RewardError swarm_error | BadGet

definition liftC :: "address_error + 'a \<Rightarrow> reward_error + 'a" where
  "liftC r = (case r of Inl e \<Rightarrow> Inl (ConfigError e) | Inr a \<Rightarrow> Inr a)"

text \<open>A function that returns false is \<^term>\<open>Inr None\<close>; an exception or a failed assertion is \<^term>\<open>Inl e\<close>.\<close>

definition bindO :: "'e + 'a option \<Rightarrow> ('a \<Rightarrow> 'e + 'b option) \<Rightarrow> 'e + 'b option" where
  "bindO r f = bindE r (\<lambda>x. case x of None \<Rightarrow> Inr None | Some a \<Rightarrow> f a)"

record reward_ops =
  rw_crypto :: tx_crypto
  generate_keys :: "pod32 \<Rightarrow> pod32 \<times> pod32"
  block_reward_unpenalized_formula_v8 :: "u64 \<Rightarrow> u64"

definition get_min_block_weight :: "u8 \<Rightarrow> u64" where
  "get_min_block_weight hf_version = 300000"

definition block_reward_unpenalized_formula_v7 :: "u64 \<Rightarrow> u64 \<Rightarrow> u64" where
  "block_reward_unpenalized_formula_v7 already_generated_coins height =
     (let emission_supply_component = already_generated_coins * 19 div 10;
          result = (push_bit 58 1 - emission_supply_component) div 2000000
      in if emission_supply_component > push_bit 58 1 then 0 else result)"

text \<open>The two local values of the next function: the base reward, and the median with its lower limit.\<close>

definition base_reward_of :: "'z reward_ops_scheme \<Rightarrow> u64 \<Rightarrow> u8 \<Rightarrow> u64 \<Rightarrow> u64" where
  "base_reward_of ops already_generated_coins hf_version height =
     (if hf_version \<ge> 15 then BLOCK_REWARD_HF15
      else if hf_version \<ge> 8 then block_reward_unpenalized_formula_v8 ops height
      else block_reward_unpenalized_formula_v7 already_generated_coins height)"

definition soft_median :: "u64 \<Rightarrow> u8 \<Rightarrow> u64" where
  "soft_median median_weight hf_version =
     (let full_reward_zone = get_min_block_weight hf_version
      in if median_weight < full_reward_zone then full_reward_zone else median_weight)"

text \<open>
  The second component is the reward before the penalty. The reward of the first block leaves it
  unassigned.
\<close>

definition get_base_block_reward ::
    "'z reward_ops_scheme \<Rightarrow> u64 \<Rightarrow> u64 \<Rightarrow> u64 \<Rightarrow> u8 \<Rightarrow> u64 \<Rightarrow> reward_error + (u64 \<times> u64 option) option" where
  "get_base_block_reward ops median_weight current_block_weight already_generated_coins hf_version height =
     (if already_generated_coins = 0 then Inr (Some (122740188075, None))
      else
        let base_reward = base_reward_of ops already_generated_coins hf_version height;
            median_weight = soft_median median_weight hf_version
        in if current_block_weight \<le> median_weight then Inr (Some (base_reward, Some base_reward))
           else if current_block_weight > 2 * median_weight then Inr None
           else if \<not> median_weight < 0xffffffff then Inl (RewardError AssertFailed)
           else if \<not> current_block_weight < 0xffffffff then Inl (RewardError AssertFailed)
           else
             let multiplicand = (2 * median_weight - current_block_weight) * current_block_weight
             in case mul128 base_reward multiplicand of (product_hi, product_lo) \<Rightarrow>
                case div128_32 product_hi product_lo (ucast median_weight) of (reward_hi, reward_lo, _) \<Rightarrow>
                case div128_32 reward_hi reward_lo (ucast median_weight) of (reward_hi, reward_lo, _) \<Rightarrow>
                  if reward_hi \<noteq> 0 then Inl (RewardError AssertFailed)
                  else if \<not> reward_lo < base_reward then Inl (RewardError AssertFailed)
                  else Inr (Some (reward_lo, Some base_reward)))"

subsection \<open>The parts of a reward\<close>

record block_reward_parts =
  frame_pix_total :: u64
  frame_pix_paid :: u64
  governance_due :: u64
  governance_paid :: u64
  base_miner :: u64
  base_miner_fee :: u64
  original_base_reward :: u64

definition miner_reward :: "block_reward_parts \<Rightarrow> u64" where
  "miner_reward parts = base_miner parts + base_miner_fee parts"

record guus_block_reward_context =
  rc_height :: u64
  rc_fee :: u64
  rc_batched_governance :: u64
  rc_frame_pix_payouts :: "payout_entry list"

definition governance_reward_formula :: "u64 \<Rightarrow> u8 \<Rightarrow> u64" where
  "governance_reward_formula base_reward hf_version = (if hf_version \<ge> 15 then FOUNDATION_REWARD_HF15 else base_reward div 20)"

definition frame_pix_reward_formula :: "u64 \<Rightarrow> u8 \<Rightarrow> u64" where
  "frame_pix_reward_formula base_reward hard_fork_version =
     (if hard_fork_version \<ge> 15 then SN_REWARD_HF15
      else if hard_fork_version \<ge> 9 then base_reward div 2 else 0)"

definition get_portion_of_reward :: "u64 \<Rightarrow> u64 \<Rightarrow> u64" where
  "get_portion_of_reward portions total_frame_pix_reward =
     (case mul128 total_frame_pix_reward portions of (hi, lo) \<Rightarrow>
      case div128_64 hi lo STAKING_PORTIONS of (rewardhi, rewardlo, _) \<Rightarrow> rewardlo)"

definition calculate_sum_of_portions :: "payout_entry list \<Rightarrow> u64 \<Rightarrow> u64" where
  "calculate_sum_of_portions ps total_frame_pix_reward =
     fold (\<lambda>p reward. reward + get_portion_of_reward (payout_portions p) total_frame_pix_reward) ps 0"

definition get_guus_block_reward ::
    "'z reward_ops_scheme \<Rightarrow> u64 \<Rightarrow> u64 \<Rightarrow> u64 \<Rightarrow> u8 \<Rightarrow> guus_block_reward_context \<Rightarrow> reward_error + block_reward_parts option" where
  "get_guus_block_reward ops median_weight current_block_weight already_generated_coins hard_fork_version guus_context =
     bindO (get_base_block_reward ops median_weight current_block_weight already_generated_coins hard_fork_version (rc_height guus_context))
       (\<lambda>(base_reward, base_reward_unpenalized).
          if base_reward = 0 then Inr None
          else case base_reward_unpenalized of
            None \<Rightarrow> Inr (Some \<lparr>frame_pix_total = 0, frame_pix_paid = 0, governance_due = 0, governance_paid = 0,
              base_miner = base_reward, base_miner_fee = 0, original_base_reward = base_reward\<rparr>)
          | Some unpenalized \<Rightarrow>
              let original = (if hard_fork_version \<ge> 13 then unpenalized else base_reward);
                  node_total = frame_pix_reward_formula original hard_fork_version;
                  paid = calculate_sum_of_portions (rc_frame_pix_payouts guus_context) node_total;
                  due = governance_reward_formula original hard_fork_version;
                  non_miner_amounts = due + paid
              in Inr (Some \<lparr>frame_pix_total = node_total, frame_pix_paid = paid, governance_due = due,
                   governance_paid = (if hard_fork_version \<ge> 10 then rc_batched_governance guus_context else due),
                   base_miner = (if base_reward > non_miner_amounts then base_reward - non_miner_amounts else 0),
                   base_miner_fee = rc_fee guus_context, original_base_reward = original\<rparr>))"

subsection \<open>Governance\<close>

text \<open>
  The fields of the configuration that the governance reward uses. The code keeps one static object for
  the main network and the fake chain and assigns the interval 100 to it for the fake chain; a process
  runs on one network.
\<close>

record governance_config =
  GOVERNANCE_REWARD_INTERVAL_IN_BLOCKS :: u64
  GOVERNANCE_WALLET_ADDRESS :: string

definition get_governance_config :: "network_type \<Rightarrow> u8 \<Rightarrow> address_error + governance_config" where
  "get_governance_config nettype hard_fork_version =
     (case nettype of
        MAINNET \<Rightarrow> Inr \<lparr>GOVERNANCE_REWARD_INTERVAL_IN_BLOCKS = 5040, GOVERNANCE_WALLET_ADDRESS =
          ''L8TcwCGddTB87DMNBrfXgpTUVY6hd553CeQPQDoUG8nG9jLTHd4jmxBMchbtrSZY2n3uo2bRbSpKLaCDJTqJ5B7BNyY6vGc''\<rparr>
      | FAKECHAIN \<Rightarrow> Inr \<lparr>GOVERNANCE_REWARD_INTERVAL_IN_BLOCKS = 100, GOVERNANCE_WALLET_ADDRESS =
          ''L8TcwCGddTB87DMNBrfXgpTUVY6hd553CeQPQDoUG8nG9jLTHd4jmxBMchbtrSZY2n3uo2bRbSpKLaCDJTqJ5B7BNyY6vGc''\<rparr>
      | TESTNET \<Rightarrow> Inr \<lparr>GOVERNANCE_REWARD_INTERVAL_IN_BLOCKS = 1000, GOVERNANCE_WALLET_ADDRESS =
          (if hard_fork_version \<le> 9
           then ''T6SUprTYE5rQpep9iQFxyPcKVd91DFR1fQ1Qsyqp5eYLiFc8XuYd3reRE71qDL8c3DXioUbDEpDFdaUpetnL37NS1R3rzoKxi''
           else ''T6TzkJb5EiASaCkcH7idBEi1HSrpSQJE1Zq3aL65ojBMPZvqHNYPTL56i3dncGVNEYCG5QG5zrBmRiVwcg6b1cRM1SRNqbp44'')\<rparr>
      | STAGENET \<Rightarrow> Inr \<lparr>GOVERNANCE_REWARD_INTERVAL_IN_BLOCKS = 5040, GOVERNANCE_WALLET_ADDRESS =
          ''59f7FCwYMiwMnFr8HwsnfJ2hK3DYB1tryhjsfmXqEBJojKyqKeNWoaDaZaauoZPiZHUYp2wJuy5s9H96qy4q9xUVCXXHmTU''\<rparr>
      | UNDEFINED \<Rightarrow> Inl InvalidNettype)"

definition height_has_governance_output :: "network_type \<Rightarrow> u8 \<Rightarrow> u64 \<Rightarrow> reward_error + bool" where
  "height_has_governance_output nettype hard_fork_version height =
     (if height = 0 then Inr False
      else if hard_fork_version \<le> 9 then Inr True
      else bindE (liftC (get_governance_config nettype hard_fork_version)) (\<lambda>network.
        Inr (height mod GOVERNANCE_REWARD_INTERVAL_IN_BLOCKS network = 0)))"

definition block_has_governance_output :: "network_type \<Rightarrow> block \<Rightarrow> reward_error + bool" where
  "block_has_governance_output nettype b = height_has_governance_output nettype (major_version b) (get_block_height b)"

text \<open>
  The failed sanity check returns false, which is the amount 0. Skipping the governance output of a
  transaction without outputs wraps the end of the loop, which then reads out of range.
\<close>

definition derive_governance_from_block_reward :: "network_type \<Rightarrow> block \<Rightarrow> u8 \<Rightarrow> reward_error + u64" where
  "derive_governance_from_block_reward nettype b hf_version =
     (if hf_version \<ge> 15 then Inr (governance_reward_formula 0 hf_version)
      else bindE (block_has_governance_output nettype b) (\<lambda>has.
        if has \<and> vout (miner_tx b) = [] then Inl (RewardError OutOfRange) else
        let outs = vout (miner_tx b);
            vout_end = (if has then length outs - 1 else length outs);
            snode_reward = fold (\<lambda>out s. s + out_amount out) (drop 1 (take vout_end outs)) 0;
            base_reward = snode_reward * 2;
            governance = governance_reward_formula base_reward hf_version;
            block_reward = base_reward - governance;
            actual_reward = fold (\<lambda>out s. s + out_amount out) outs 0
        in if \<not> block_reward \<le> actual_reward then Inr 0 else Inr governance))"

definition get_deterministic_keypair_from_height :: "'z reward_ops_scheme \<Rightarrow> u64 \<Rightarrow> pod32 \<times> pod32" where
  "get_deterministic_keypair_from_height ops height =
     generate_keys ops (pod_of_bytes (map (\<lambda>i. ucast (drop_bit (i * 8) (height AND push_bit (i * 8) 0xff))) [0..<8] @ replicate 24 0))"

definition get_deterministic_output_key :: "tx_crypto \<Rightarrow> account_public_address \<Rightarrow> pod32 \<Rightarrow> nat \<Rightarrow> pod32 option" where
  "get_deterministic_output_key cr address sec output_index = do {
     derivation \<leftarrow> generate_key_derivation cr (m_view_public_key address) sec;
     derive_public_key cr derivation output_index (m_spend_public_key address) }"

text \<open>
  The address of the governance wallet. The callers ignore a failed parse, which does not occur for the
  strings of the configuration.
\<close>

definition governance_address :: "tx_crypto \<Rightarrow> network_type \<Rightarrow> string \<Rightarrow> reward_error + account_public_address" where
  "governance_address cr nettype str =
     bindE (liftC (get_account_address_from_str cr
         \<lparr>ap_address = null_address, is_subaddress = False, has_payment_id = False, ap_payment_id = 0\<rparr> nettype str))
       (\<lambda>r. Inr (case r of Some info \<Rightarrow> ap_address info | None \<Rightarrow> null_address))"

definition validate_governance_reward_key ::
    "'z reward_ops_scheme \<Rightarrow> u64 \<Rightarrow> string \<Rightarrow> nat \<Rightarrow> pod32 \<Rightarrow> network_type \<Rightarrow> reward_error + bool" where
  "validate_governance_reward_key ops height str output_index output_key nettype =
     (let gov_key = get_deterministic_keypair_from_height ops height
      in bindE (governance_address (rw_crypto ops) nettype str) (\<lambda>address.
        Inr (get_deterministic_output_key (rw_crypto ops) address (snd gov_key) output_index = Some output_key)))"

subsection \<open>The miner transaction\<close>

record guus_miner_tx_context =
  ctx_nettype :: network_type
  ctx_block_winner :: block_winner
  ctx_batched_governance :: u64

text \<open>The outputs of the service node's contributors, from the index \<^term>\<open>i\<close> of the first payout on.\<close>

fun frame_pix_outputs :: "tx_crypto \<Rightarrow> pod32 \<Rightarrow> u64 \<Rightarrow> nat \<Rightarrow> payout_entry list \<Rightarrow> tx_out list option" where
  "frame_pix_outputs cr sec node_total i [] = Some []"
| "frame_pix_outputs cr sec node_total i (payout # ps) = do {
     derivation \<leftarrow> generate_key_derivation cr (m_view_public_key (payout_address payout)) sec;
     key \<leftarrow> derive_public_key cr derivation (1 + i) (m_spend_public_key (payout_address payout));
     outs \<leftarrow> frame_pix_outputs cr sec node_total (i + 1) ps;
     Some (\<lparr>out_amount = get_portion_of_reward (payout_portions payout) node_total, out_target = txout_to_key key\<rparr> # outs) }"

definition governance_outputs ::
    "'z reward_ops_scheme \<Rightarrow> u64 \<Rightarrow> u8 \<Rightarrow> network_type \<Rightarrow> pod32 \<Rightarrow> u64 \<Rightarrow> nat \<Rightarrow> reward_error + tx_out list option" where
  "governance_outputs ops already_generated_coins hard_fork_version nettype sec paid index =
     (if already_generated_coins = 0 then Inr (Some [])
      else if paid = 0 then (if hard_fork_version \<ge> 10 then Inr (Some []) else Inr None)
      else bindE (liftC (get_governance_config nettype hard_fork_version)) (\<lambda>network.
        bindE (governance_address (rw_crypto ops) nettype (GOVERNANCE_WALLET_ADDRESS network)) (\<lambda>address.
          Inr (do {
            key \<leftarrow> get_deterministic_output_key (rw_crypto ops) address sec index;
            Some [\<lparr>out_amount = paid, out_target = txout_to_key key\<rparr>] }))))"

definition miner_tx_extra :: "pod32 \<Rightarrow> byte list \<Rightarrow> u64 \<Rightarrow> pod32 \<Rightarrow> pod32 \<Rightarrow> byte list option" where
  "miner_tx_extra tx_pub extra_nonce already_generated_coins gov_pub frame_pix_key = do {
     e \<leftarrow> (let e = add_tx_pub_key_to_extra [] tx_pub
           in if extra_nonce \<noteq> [] then add_extra_nonce_to_tx_extra e extra_nonce else Some e);
     e \<leftarrow> sort_tx_extra e False;
     let e = (if already_generated_coins \<noteq> 0 then add_tx_pub_key_to_extra e gov_pub else e);
     Some (add_frame_pix_winner_to_tx_extra e frame_pix_key) }"

text \<open>The key pair \<^term>\<open>txkey\<close> of the transaction is random in the code; here it is an argument.\<close>

definition construct_miner_tx ::
    "'z reward_ops_scheme \<Rightarrow> pod32 \<times> pod32 \<Rightarrow> u64 \<Rightarrow> u64 \<Rightarrow> u64 \<Rightarrow> u64 \<Rightarrow> u64 \<Rightarrow> account_public_address \<Rightarrow> transaction
       \<Rightarrow> byte list \<Rightarrow> u8 \<Rightarrow> guus_miner_tx_context \<Rightarrow> reward_error + transaction option" where
  "construct_miner_tx ops txkey height median_weight already_generated_coins current_block_weight fee miner_address tx
       extra_nonce hard_fork_version context =
     (let cr = rw_crypto ops; winner = ctx_block_winner context;
          gov_key = get_deterministic_keypair_from_height ops height
      in case miner_tx_extra (fst txkey) extra_nonce already_generated_coins (fst gov_key) (winner_key winner) of
        None \<Rightarrow> Inr None
      | Some e \<Rightarrow>
          bindO (get_guus_block_reward ops median_weight current_block_weight already_generated_coins hard_fork_version
              \<lparr>rc_height = height, rc_fee = fee, rc_batched_governance = ctx_batched_governance context,
               rc_frame_pix_payouts = payouts winner\<rparr>) (\<lambda>parts.
            case get_deterministic_output_key cr miner_address (snd txkey) 0 of
              None \<Rightarrow> Inr None
            | Some key \<Rightarrow>
                let miner = \<lparr>out_amount = miner_reward parts, out_target = txout_to_key key\<rparr>
                in case (if hard_fork_version \<ge> 9 then frame_pix_outputs cr (snd gov_key) (frame_pix_total parts) 0 (payouts winner)
                         else Some []) of
                  None \<Rightarrow> Inr None
                | Some nodes \<Rightarrow>
                    bindO (governance_outputs ops already_generated_coins hard_fork_version (ctx_nettype context) (snd gov_key)
                        (governance_paid parts) (length (miner # nodes))) (\<lambda>gov.
                      let outs = miner # nodes @ gov;
                          summary_amounts = fold (\<lambda>out s. s + out_amount out) outs 0;
                          expected_amount = miner_reward parts + governance_paid parts + frame_pix_paid parts
                      in if summary_amounts \<noteq> expected_amount then Inr None
                         else Inr (Some (tx\<lparr>tx_type := TXTYPE_STANDARD, tx_version := get_max_version_for_hf hard_fork_version,
                           vin := [txin_gen height], vout := outs, extra := e,
                           output_unlock_times := map (\<lambda>_. height + CRYPTONOTE_MINED_MONEY_UNLOCK_WINDOW) outs,
                           unlock_time := height + CRYPTONOTE_MINED_MONEY_UNLOCK_WINDOW\<rparr>)))))"

subsection \<open>The checks on a received miner transaction\<close>

definition within_one :: "u64 \<Rightarrow> u64 \<Rightarrow> bool" where
  "within_one a b = ((if a > b then a - b else b - a) \<le> 1)"

text \<open>One payout of the winner; an output that does not exist is an access out of range.\<close>

definition payout_matches ::
    "'z reward_ops_scheme \<Rightarrow> u64 \<Rightarrow> u64 \<Rightarrow> tx_out list \<Rightarrow> nat \<Rightarrow> payout_entry \<Rightarrow> reward_error + bool" where
  "payout_matches ops height node_total outs i payout =
     (let vout_index = i + 1;
          reward = get_portion_of_reward (payout_portions payout) node_total;
          gov_key = get_deterministic_keypair_from_height ops height
      in if length outs \<le> vout_index then Inl (RewardError OutOfRange)
         else if \<not> within_one (out_amount (outs ! vout_index)) reward then Inr False
         else case out_target (outs ! vout_index) of
           txout_to_key key \<Rightarrow> Inr (do {
               derivation \<leftarrow> generate_key_derivation (rw_crypto ops) (m_view_public_key (payout_address payout)) (snd gov_key);
               derive_public_key (rw_crypto ops) derivation vout_index (m_spend_public_key (payout_address payout)) } = Some key)
         | _ \<Rightarrow> Inr False)"

fun payouts_match ::
    "'z reward_ops_scheme \<Rightarrow> u64 \<Rightarrow> u64 \<Rightarrow> tx_out list \<Rightarrow> nat \<Rightarrow> payout_entry list \<Rightarrow> reward_error + bool" where
  "payouts_match ops height node_total outs i [] = Inr True"
| "payouts_match ops height node_total outs i (payout # ps) =
     bindE (payout_matches ops height node_total outs i payout) (\<lambda>ok.
       if ok then payouts_match ops height node_total outs (i + 1) ps else Inr False)"

text \<open>The number of outputs less one wraps around for a transaction without outputs.\<close>

definition validate_miner_tx ::
    "'z reward_ops_scheme \<Rightarrow> frame_pix_list \<Rightarrow> transaction \<Rightarrow> u64 \<Rightarrow> u8 \<Rightarrow> block_reward_parts \<Rightarrow> reward_error + bool" where
  "validate_miner_tx ops l tx height hf_version reward_parts =
     (if hf_version < 9 then Inr True
      else
        let base_reward = original_base_reward reward_parts;
            total_frame_pix_reward = frame_pix_reward_formula base_reward hf_version;
            winner = get_block_winner (m_state l);
            check_winner_pubkey = get_frame_pix_winner_from_tx_extra (extra tx)
        in if winner_key winner \<noteq> check_winner_pubkey then Inr False
           else if (of_nat (length (vout tx)) - 1 :: u64) < of_nat (length (payouts winner)) then Inr False
           else payouts_match ops height total_frame_pix_reward (vout tx) 0 (payouts winner))"

record blockchain_ops = reward_ops +
  bc_nettype :: network_type
  db_height :: u64
  get_block_weights :: "u64 \<Rightarrow> u64 \<Rightarrow> u64 list"
  get_ideal_hard_fork_version :: "u64 \<Rightarrow> u8"
  get_blocks :: "u64 \<Rightarrow> u64 \<Rightarrow> block list option"

definition median :: "u64 list \<Rightarrow> u64" where
  "median v =
     (if v = [] then 0 else if length v = 1 then v ! 0
      else let n = length v div 2; v = sort v
           in if length v mod 2 \<noteq> 0 then v ! n else (v ! (n - 1) + v ! n) div 2)"

definition get_last_n_blocks_weights :: "'z blockchain_ops_scheme \<Rightarrow> u64 \<Rightarrow> u64 list" where
  "get_last_n_blocks_weights ops num =
     (let h = db_height ops in if h = 0 then [] else get_block_weights ops (h - min h num) num)"

fun sum_governance :: "network_type \<Rightarrow> u8 \<Rightarrow> block list \<Rightarrow> u64 \<Rightarrow> reward_error + u64" where
  "sum_governance nettype hard_fork_version [] reward = Inr reward"
| "sum_governance nettype hard_fork_version (b # bs) reward =
     (if major_version b \<ge> 10
      then bindE (derive_governance_from_block_reward nettype b hard_fork_version)
        (\<lambda>g. sum_governance nettype hard_fork_version bs (reward + g))
      else sum_governance nettype hard_fork_version bs reward)"

definition calc_batched_governance_reward :: "'z blockchain_ops_scheme \<Rightarrow> u64 \<Rightarrow> reward_error + u64 option" where
  "calc_batched_governance_reward ops height =
     (let hard_fork_version = get_ideal_hard_fork_version ops height; nettype = bc_nettype ops
      in if hard_fork_version \<le> 9 then Inr (Some 0)
         else bindE (height_has_governance_output nettype hard_fork_version height) (\<lambda>has.
           if \<not> has then Inr (Some 0)
           else bindE (liftC (get_governance_config nettype hard_fork_version)) (\<lambda>network.
             let num_blocks = GOVERNANCE_REWARD_INTERVAL_IN_BLOCKS network
             in if hard_fork_version \<ge> 15 then Inr (Some (num_blocks * FOUNDATION_REWARD_HF15))
                else
                  let start_height = (if height < num_blocks then 0 else height - num_blocks);
                      num_blocks = (if height < num_blocks then height else num_blocks)
                  in case get_blocks ops start_height num_blocks of
                       None \<Rightarrow> Inr None
                     | Some blocks \<Rightarrow> bindE (sum_governance nettype hard_fork_version blocks 0) (\<lambda>reward. Inr (Some reward)))))"

definition prevalidate_miner_transaction :: "block \<Rightarrow> u64 \<Rightarrow> bool" where
  "prevalidate_miner_transaction b height =
     (length (vin (miner_tx b)) = 1
      \<and> (case vin (miner_tx b) ! 0 of
           txin_gen h \<Rightarrow> h = height \<and> unlock_time (miner_tx b) = height + CRYPTONOTE_MINED_MONEY_UNLOCK_WINDOW
             \<and> check_outs_overflow (miner_tx b)
         | _ \<Rightarrow> False))"

text \<open>The check of the governance output of a block that has one.\<close>

definition governance_output_valid :: "'z blockchain_ops_scheme \<Rightarrow> tx_out list \<Rightarrow> u8 \<Rightarrow> block_reward_parts \<Rightarrow> reward_error + bool" where
  "governance_output_valid ops outs hf_version reward_parts =
     (if hf_version \<ge> 10 \<and> governance_paid reward_parts = 0 then Inr False
      else if out_amount (last outs) \<noteq> governance_paid reward_parts then Inr False
      else bindE (liftC (get_governance_config (bc_nettype ops) hf_version)) (\<lambda>network.
        case out_target (last outs) of
          txout_to_key key \<Rightarrow> validate_governance_reward_key ops (db_height ops) (GOVERNANCE_WALLET_ADDRESS network)
            (length outs - 1) key (bc_nettype ops)
        | _ \<Rightarrow> Inl BadGet))"

text \<open>The result is the base reward; the hook is the one of the service node list.\<close>

definition validate_miner_transaction ::
    "'z blockchain_ops_scheme \<Rightarrow> frame_pix_list \<Rightarrow> block \<Rightarrow> u64 \<Rightarrow> u64 \<Rightarrow> u64 \<Rightarrow> u8 \<Rightarrow> reward_error + u64 option" where
  "validate_miner_transaction ops l b cumulative_block_weight fee already_generated_coins hf_version =
     (let tx = miner_tx b; outs = vout tx;
          money_in_use = fold (\<lambda>out s. s + out_amount out) outs 0;
          height = get_block_height b;
          last_blocks_weights = get_last_n_blocks_weights ops CRYPTONOTE_REWARD_BLOCKS_WINDOW
      in if outs = [] then Inr None
         else bindO (calc_batched_governance_reward ops height) (\<lambda>batched.
           bindO (get_guus_block_reward ops (median last_blocks_weights) cumulative_block_weight already_generated_coins hf_version
             \<lparr>rc_height = height, rc_fee = fee, rc_batched_governance = batched,
              rc_frame_pix_payouts = payouts null_block_winner\<rparr>) (\<lambda>reward_parts.
             bindE (validate_miner_tx ops l tx (db_height ops) hf_version reward_parts) (\<lambda>hook.
               if \<not> hook then Inr None
               else bindE (if already_generated_coins \<noteq> 0 then block_has_governance_output (bc_nettype ops) b else Inr False) (\<lambda>has.
                 bindE (if has then governance_output_valid ops outs hf_version reward_parts else Inr True) (\<lambda>ok.
                   if \<not> ok then Inr None
                   else if hf_version \<ge> 12 \<and> (tx_type tx \<noteq> TXTYPE_STANDARD \<or>
                       tx_version tx < get_max_version_for_hf hf_version \<or> tx_version tx > get_min_version_for_hf hf_version) then Inr None
                   else
                     let max_base_reward = base_miner reward_parts + governance_paid reward_parts + frame_pix_paid reward_parts + 1;
                         max_money_in_use = max_base_reward + fee
                     in if money_in_use > max_money_in_use then Inr None
                        else if \<not> money_in_use \<ge> fee then Inr None
                        else Inr (Some (money_in_use - fee))))))))"

section \<open>The penalty for an oversized block\<close>

lemma soft_median_bounds: "300000 \<le> unat (soft_median median_weight hf_version)"
  by (simp add: soft_median_def get_min_block_weight_def Let_def word_less_nat_alt)

lemma penalty_factor:
  fixes M w :: nat
  assumes "M < w" "w \<le> 2 * M"
  shows "(2 * M - w) * w < M * M"
proof -
  obtain d where d: "w = M + d" "0 < d" using assms(1) less_imp_add_positive by blast
  obtain e where e: "M = d + e" using assms(2) d le_Suc_ex [of d M] by auto
  show ?thesis using d(2) unfolding d(1) e by (simp add: algebra_simps)
qed

lemma penalty_word:
  assumes "unat (m :: u64) < 4294967295" "unat w < 4294967295" "unat m < unat w" "unat w \<le> 2 * unat m"
  shows "unat ((2 * m - w) * w) = (2 * unat m - unat w) * unat w"
proof -
  have d: "unat (2 * m) = 2 * unat m" using assms(1) by (subst unat_mul_u64) simp
  have s: "unat (2 * m - w) = 2 * unat m - unat w"
    using assms(4) by (subst unat_sub_u64_no_wrap) (simp_all add: d word_le_nat_alt)
  have "unat m * unat m \<le> 4294967295 * 4294967295" using assms(1) by (intro mult_le_mono) simp_all
  then have "(2 * unat m - unat w) * unat w < 18446744073709551616" using penalty_factor [OF assms(3,4)] by simp
  then show ?thesis by (simp add: unat_mul_u64 s)
qed

text \<open>The two divisions of the 128-bit product divide by the square of the median.\<close>

lemma penalised_divisions:
  assumes "mul128 base k = (ph, pl)" "div128_32 ph pl d = (h, l, r)" "div128_32 h l d = (h', l', r')" "d \<noteq> 0"
    "unat k < unat d * unat d" "base \<noteq> 0"
  shows "h' = 0 \<and> unat l' = unat base * unat k div (unat d * unat d) \<and> l' < base"
proof -
  have "u128 h' l' = unat base * unat k div unat d div unat d"
    using div128_32_exact [OF assms(3,4)] div128_32_exact [OF assms(2,4)] mul128_exact [OF assms(1)] by simp
  then have e: "u128 h' l' = unat base * unat k div (unat d * unat d)" by (simp add: div_mult2_eq)
  have b: "0 < unat base" using assms(6) by (simp add: unat_gt_0)
  then have "unat base * unat k < unat base * (unat d * unat d)" using assms(5) by simp
  then have lt: "u128 h' l' < unat base" unfolding e using assms(4) by (simp add: less_mult_imp_div_less)
  then have h: "h' = 0" using unat_lt_u64 [of base] by (cases "unat h'") (simp_all add: u128_def unat_eq_zero)
  then show ?thesis using e lt by (simp add: u128_def word_less_nat_alt)
qed

text \<open>
  C18. The reward of a block is the full base reward up to the median weight and nothing above twice the median.
  In between it is the base reward times \<^term>\<open>(2 * M - w) * w\<close> divided by \<^term>\<open>M * M\<close>, rounded down once: the
  128-bit product and the two divisions lose nothing, no intermediate value wraps, and the assertions of
  the code hold for every positive base reward.
\<close>

theorem base_reward_penalty:
  assumes "already_generated_coins \<noteq> 0"
  shows "let base = base_reward_of ops already_generated_coins hf_version height; M = unat (soft_median median_weight hf_version);
             r = get_base_block_reward ops median_weight w already_generated_coins hf_version height
    in (unat w \<le> M \<longrightarrow> r = Inr (Some (base, Some base)))
       \<and> (M < unat w \<and> unat w \<le> 2 * M \<and> unat w < 2 ^ 32 - 1 \<and> base \<noteq> 0 \<longrightarrow>
            (\<exists>reward. r = Inr (Some (reward, Some base)) \<and> reward < base
               \<and> unat reward = unat base * ((2 * M - unat w) * unat w) div (M * M)))
       \<and> (2 * M < unat w \<longrightarrow> r = Inr None)"
proof -
  define base m where bm: "base = base_reward_of ops already_generated_coins hf_version height" "m = soft_median median_weight hf_version"
  let ?r = "get_base_block_reward ops median_weight w already_generated_coins hf_version height"
  have unfold: "?r = (if w \<le> m then Inr (Some (base, Some base)) else if w > 2 * m then Inr None
      else if \<not> m < 0xffffffff then Inl (RewardError AssertFailed)
      else if \<not> w < 0xffffffff then Inl (RewardError AssertFailed)
      else case mul128 base ((2 * m - w) * w) of (ph, pl) \<Rightarrow> case div128_32 ph pl (ucast m) of (h, l, _) \<Rightarrow>
           case div128_32 h l (ucast m) of (h, l, _) \<Rightarrow>
             if h \<noteq> 0 then Inl (RewardError AssertFailed) else if \<not> l < base then Inl (RewardError AssertFailed)
             else Inr (Some (l, Some base)))"
    using assms unfolding get_base_block_reward_def Let_def bm by simp
  have zone: "300000 \<le> unat m" unfolding bm by (rule soft_median_bounds)
  have one: "?r = Inr (Some (base, Some base))" if "unat w \<le> unat m"
    using that by (simp add: unfold word_le_nat_alt)
  have two: "?r = Inr None" if "2 * unat m < unat w"
  proof -
    have "unat (2 * m) = 2 * unat m" using that unat_lt_u64 [of w] by (subst unat_mul_u64) simp
    then show ?thesis using that by (simp add: unfold word_le_nat_alt word_less_nat_alt)
  qed
  have three: "\<exists>reward. ?r = Inr (Some (reward, Some base)) \<and> reward < base
      \<and> unat reward = unat base * ((2 * unat m - unat w) * unat w) div (unat m * unat m)"
    if a: "unat m < unat w" "unat w \<le> 2 * unat m" "unat w < 4294967295" "base \<noteq> 0"
  proof -
    have mw: "unat m < 4294967295" using a by simp
    then have d: "unat (ucast m :: u32) = unat m" by (simp add: unsigned_ucast_eq take_bit_eq_mod)
    have dz: "(ucast m :: u32) \<noteq> 0" using d zone by auto
    have k: "unat ((2 * m - w) * w) = (2 * unat m - unat w) * unat w" by (rule penalty_word [OF mw a(3,1,2)])
    obtain ph pl where p: "mul128 base ((2 * m - w) * w) = (ph, pl)" by fastforce
    obtain h l r where q: "div128_32 ph pl (ucast m) = (h, l, r)" by (cases "div128_32 ph pl (ucast m)")
    obtain h' l' r' where q': "div128_32 h l (ucast m) = (h', l', r')" by (cases "div128_32 h l (ucast m)")
    have res: "h' = 0 \<and> unat l' = unat base * ((2 * unat m - unat w) * unat w) div (unat m * unat m) \<and> l' < base"
      using penalised_divisions [OF p q q' dz _ a(4)] penalty_factor [OF a(1,2)] by (simp add: d k)
    have d2: "unat (2 * m) = 2 * unat m" using mw by (subst unat_mul_u64) simp
    show ?thesis using a mw res d2 by (simp add: unfold p q q' word_le_nat_alt word_less_nat_alt)
  qed
  show ?thesis unfolding Let_def bm [symmetric] using one two three by auto
qed

definition sample_reward_ops :: reward_ops where
  "sample_reward_ops = \<lparr>rw_crypto = open_crypto 0, generate_keys = (\<lambda>sec. (sec, sec)), block_reward_unpenalized_formula_v8 = (\<lambda>_. 0)\<rparr>"

theorem base_reward_penalty_witness:
  "\<exists>reward. get_base_block_reward sample_reward_ops 300000 450000 1 16 7 = Inr (Some (reward, Some BLOCK_REWARD_HF15))
     \<and> unat reward = 375000000000"
  using base_reward_penalty [of 1 sample_reward_ops 16 7 300000 450000]
  by (auto simp: base_reward_of_def soft_median_def get_min_block_weight_def Let_def)

section \<open>The payouts of a reward\<close>

lemma get_portion_eq: "get_portion_of_reward p t = portions_to_amount p t"
  by (simp add: get_portion_of_reward_def portions_to_amount_def)

lemma fold_add_u64: "fold (\<lambda>x s. s + f x) xs (a :: u64) = a + (\<Sum>x\<leftarrow>xs. f x)"
  by (induction xs arbitrary: a) (simp_all add: add.assoc)

lemma sum_of_portions_eq:
  assumes "(\<Sum>p\<leftarrow>ps. unat (payout_portions p)) \<le> 18446744073709551612"
  shows "unat (calculate_sum_of_portions ps t) = (\<Sum>p\<leftarrow>ps. unat (portions_to_amount (payout_portions p) t))"
    "unat (calculate_sum_of_portions ps t) \<le> unat t"
proof -
  have le: "(\<Sum>p\<leftarrow>ps. unat (portions_to_amount (payout_portions p) t)) \<le> unat t"
    using reserved_fits [of "map payout_portions ps" t] assms by (simp add: o_def)
  show eq: "unat (calculate_sum_of_portions ps t) = (\<Sum>p\<leftarrow>ps. unat (portions_to_amount (payout_portions p) t))"
    using le unat_lt_u64 [of t]
    by (simp add: calculate_sum_of_portions_def fold_add_u64 get_portion_eq unat_sum_u64)
  show "unat (calculate_sum_of_portions ps t) \<le> unat t" using le by (simp add: eq)
qed

lemma null_winner_portions: "t \<noteq> 0 \<Longrightarrow> calculate_sum_of_portions (payouts null_block_winner) t = t"
  by (simp add: calculate_sum_of_portions_def null_block_winner_def get_portion_eq portions_to_amount_full)

lemma winner_portions:
  assumes "infos_ok (frame_pixs_infos s)"
  shows "(\<Sum>p\<leftarrow>payouts (get_block_winner s). unat (payout_portions p)) \<le> 18446744073709551612"
proof -
  obtain w oi where f: "fold oldest_step (frame_pixs_infos s) ((U64_MAX, - 1, null_pod), None) = (w, oi)" by fastforce
  obtain h i key where w: "w = (h, i, key)" by (cases w)
  show ?thesis
  proof (cases oi)
    case None
    then show ?thesis using f by (simp add: get_block_winner_def w null_block_winner_def)
  next
    case (Some info)
    then obtain e where e: "e \<in> set (frame_pixs_infos s)" "info = snd e" using fold_oldest [OF f] by auto
    then have "map_of (frame_pixs_infos s) (fst e) = Some info" using assms by (simp add: infos_ok_def)
    then have "info_ok info" using assms by (simp add: infos_ok_def)
    then show ?thesis using f Some payouts_portions [of info] by (auto simp: get_block_winner_def w null_block_winner_def)
  qed
qed

section \<open>The extra field of the miner transaction\<close>

lemma pub_key_saves: "list_all field_ok fs \<Longrightarrow> add_tx_pub_key_to_extra (save_fields fs) k = save_fields (fs @ [tx_extra_pub_key k])"
  unfolding add_tx_pub_key_to_extra_def by (rule add_data_saves) (simp_all add: put_field_def)

lemma winner_saves:
  "list_all field_ok fs \<Longrightarrow> add_frame_pix_winner_to_tx_extra (save_fields fs) k = save_fields (fs @ [tx_extra_frame_pix_winner k])"
  unfolding add_frame_pix_winner_to_tx_extra_def by (rule add_data_saves) (simp_all add: put_field_def)

lemma nonce_saves:
  assumes "list_all field_ok fs" "length n \<le> 127"
  shows "add_extra_nonce_to_tx_extra (save_fields fs) n = Some (save_fields (fs @ [tx_extra_nonce n]))"
proof -
  have u: "unat (of_nat (length n) :: u64) = length n" using assms(2) by (simp add: unat_of_nat)
  then have "write_varint (of_nat (length n) :: u64) = [of_nat (length n)]"
    using assms(2) by (subst write_varint.simps) (simp add: word_unat_eq_iff unsigned_ucast_eq take_bit_eq_mod unat_of_nat)
  then show ?thesis using assms by (simp add: add_extra_nonce_to_tx_extra_def save_fields_append put_field_def put_string_def)
qed

lemma sort_saves:
  assumes "extra_ok fs" "fs \<noteq> []"
  shows "sort_tx_extra (save_fields fs) False = Some (save_fields (sort_key sort_rank fs))"
  using parse_save_fields [OF assms] assms pick_all_spec [of fs sort_order]
  by (simp add: sort_tx_extra_def group_by_tag_sorts get_tag_in_order extra_ok_def)

lemma miner_tx_extra_winner:
  assumes "miner_tx_extra tx_pub n coins gov_pub key = Some e" "length n \<le> 127"
  shows "get_frame_pix_winner_from_tx_extra e = key"
proof -
  define fs where "fs = (if n \<noteq> [] then [tx_extra_pub_key tx_pub, tx_extra_nonce n] else [tx_extra_pub_key tx_pub])"
  define gs where "gs = sort_key sort_rank fs @ (if coins \<noteq> 0 then [tx_extra_pub_key gov_pub] else [])"
  have ok: "extra_ok fs" "fs \<noteq> []" using assms(2) by (auto simp: fs_def extra_ok_def)
  have first: "add_tx_pub_key_to_extra [] tx_pub = save_fields [tx_extra_pub_key tx_pub]" using pub_key_saves [of "[]"] by simp
  have s: "list_all field_ok (sort_key sort_rank fs)" using ok(1) by (auto simp: extra_ok_def list_all_iff)
  have "(let e = add_tx_pub_key_to_extra [] tx_pub in if n \<noteq> [] then add_extra_nonce_to_tx_extra e n else Some e) = Some (save_fields fs)"
    using nonce_saves [of "[tx_extra_pub_key tx_pub]" n] assms(2) by (simp add: first fs_def Let_def del: save_fields.simps)
  then have "e = add_frame_pix_winner_to_tx_extra (if coins \<noteq> 0 then add_tx_pub_key_to_extra (save_fields (sort_key sort_rank fs)) gov_pub
      else save_fields (sort_key sort_rank fs)) key"
    using assms(1) by (simp add: miner_tx_extra_def sort_saves [OF ok] Let_def del: save_fields.simps)
  then have "e = add_frame_pix_winner_to_tx_extra (save_fields gs) key" by (simp add: gs_def pub_key_saves [OF s] del: save_fields.simps)
  then have "e = save_fields (gs @ [tx_extra_frame_pix_winner key])" using winner_saves [of gs key] s by (simp add: gs_def del: save_fields.simps)
  moreover have "list_all field_ok gs" "list_all (\<lambda>f. \<not> is_padding f) gs" "\<forall>k. tx_extra_frame_pix_winner k \<notin> set gs"
    using assms(2) by (auto simp: gs_def fs_def list_all_iff)
  ultimately have "first_of_type (\<lambda>f. case f of tx_extra_frame_pix_winner k \<Rightarrow> Some k | _ \<Rightarrow> None) e = Some key"
    using add_get_simple [of gs tx_extra_frame_pix_winner "\<lambda>f. case f of tx_extra_frame_pix_winner k \<Rightarrow> Some k | _ \<Rightarrow> None" key,
      OF _ _ _ selectors(2)] by (simp del: save_fields.simps)
  then show ?thesis by (simp add: get_frame_pix_winner_from_tx_extra_def)
qed

section \<open>Constructed transactions are accepted\<close>

lemma frame_pix_outputs_length: "frame_pix_outputs cr sec t i ps = Some outs \<Longrightarrow> length outs = length ps"
  by (induction ps arbitrary: i outs) (auto simp: bind_eq_Some_conv)

lemma within_one_refl: "within_one a a"
  by (simp add: within_one_def)

lemma frame_pix_outputs_match:
  "frame_pix_outputs (rw_crypto ops) (snd (get_deterministic_keypair_from_height ops height)) t i ps = Some outs \<Longrightarrow> length pre = i + 1 \<Longrightarrow>
   payouts_match ops height t (pre @ outs @ post) i ps = Inr True"
proof (induction ps arbitrary: i outs pre)
  case (Cons payout ps)
  let ?sec = "snd (get_deterministic_keypair_from_height ops height)"
  from Cons.prems(1) obtain d key outs' where
    o: "generate_key_derivation (rw_crypto ops) (m_view_public_key (payout_address payout)) ?sec = Some d"
      "derive_public_key (rw_crypto ops) d (1 + i) (m_spend_public_key (payout_address payout)) = Some key"
      "frame_pix_outputs (rw_crypto ops) ?sec t (i + 1) ps = Some outs'"
      "outs = \<lparr>out_amount = get_portion_of_reward (payout_portions payout) t, out_target = txout_to_key key\<rparr> # outs'"
    by (auto simp: bind_eq_Some_conv)
  have "payout_matches ops height t (pre @ outs @ post) i payout = Inr True"
    using o Cons.prems(2) by (simp add: payout_matches_def Let_def nth_append within_one_refl)
  moreover have "payouts_match ops height t ((pre @ [hd outs]) @ outs' @ post) (i + 1) ps = Inr True"
    using Cons.prems(2) by (intro Cons.IH [OF o(3)]) simp
  ultimately show ?case using o(4) by simp
qed simp

text \<open>From hard fork 15 on the batched reward is zero exactly at the heights without a governance output.\<close>

lemma batched_governance:
  assumes "calc_batched_governance_reward ops height = Inr (Some g)" "get_ideal_hard_fork_version ops height \<ge> 15"
  shows "height_has_governance_output (bc_nettype ops) (get_ideal_hard_fork_version ops height) height = Inr (g \<noteq> 0)"
    "unat g \<le> 252000000000000"
proof -
  let ?v = "get_ideal_hard_fork_version ops height"
  have v: "\<not> ?v \<le> 9" using assms(2) by (simp add: word_le_nat_alt)
  have "height_has_governance_output (bc_nettype ops) ?v height = Inr (g \<noteq> 0) \<and> unat g \<le> 252000000000000"
    using assms v
    by (auto simp: calc_batched_governance_reward_def Let_def bindE_Inr_iff liftC_def get_governance_config_def
        height_has_governance_output_def split: network_type.splits if_splits)
  then show "height_has_governance_output (bc_nettype ops) ?v height = Inr (g \<noteq> 0)" "unat g \<le> 252000000000000" by blast+
qed

lemma governance_outputs_valid:
  assumes "governance_outputs ops coins hf_version (bc_nettype ops) (snd (get_deterministic_keypair_from_height ops (db_height ops)))
      paid (length outs) = Inr (Some gov)" "coins \<noteq> 0" "paid \<noteq> 0" "governance_paid parts = paid"
  shows "governance_output_valid ops (outs @ gov) hf_version parts = Inr True"
  using assms
  by (auto simp: governance_outputs_def governance_output_valid_def bindE_Inr_iff bind_eq_Some_conv validate_governance_reward_key_def Let_def)

lemma governance_outputs_amount:
  "governance_outputs ops coins hf_version net sec paid i = Inr (Some gov) \<Longrightarrow> coins \<noteq> 0 \<Longrightarrow>
   (\<Sum>out\<leftarrow>gov. unat (out_amount out)) = unat paid \<and> length gov \<le> 1"
  by (auto simp: governance_outputs_def bindE_Inr_iff bind_eq_Some_conv split: if_splits)

lemma bindO_Some_iff: "bindO r f = Inr (Some y) \<longleftrightarrow> (\<exists>a. r = Inr (Some a) \<and> f a = Inr (Some y))"
  by (auto simp: bindO_def bindE_Inr_iff split: option.splits)

lemma construct_miner_tx_parts:
  assumes "construct_miner_tx ops txkey height mw coins w fee adr tx0 n hf_version ctx = Inr (Some tx)" "9 \<le> hf_version"
  defines "gov_key \<equiv> get_deterministic_keypair_from_height ops height" and "winner \<equiv> ctx_block_winner ctx"
  obtains parts key nodes gov where
    "miner_tx_extra (fst txkey) n coins (fst gov_key) (winner_key winner) = Some (extra tx)"
    "get_guus_block_reward ops mw w coins hf_version \<lparr>rc_height = height, rc_fee = fee,
       rc_batched_governance = ctx_batched_governance ctx, rc_frame_pix_payouts = payouts winner\<rparr> = Inr (Some parts)"
    "frame_pix_outputs (rw_crypto ops) (snd gov_key) (frame_pix_total parts) 0 (payouts winner) = Some nodes"
    "governance_outputs ops coins hf_version (ctx_nettype ctx) (snd gov_key) (governance_paid parts) (1 + length nodes) = Inr (Some gov)"
    "vout tx = \<lparr>out_amount = miner_reward parts, out_target = txout_to_key key\<rparr> # nodes @ gov"
    "fold (\<lambda>out s. s + out_amount out) (vout tx) 0 = miner_reward parts + governance_paid parts + frame_pix_paid parts"
    "vin tx = [txin_gen height]" "tx_type tx = TXTYPE_STANDARD" "tx_version tx = get_max_version_for_hf hf_version"
    "unlock_time tx = height + CRYPTONOTE_MINED_MONEY_UNLOCK_WINDOW"
proof -
  note run = assms(1) [unfolded construct_miner_tx_def Let_def, folded gov_key_def winner_def]
  obtain e where e: "miner_tx_extra (fst txkey) n coins (fst gov_key) (winner_key winner) = Some e"
    using run by (cases "miner_tx_extra (fst txkey) n coins (fst gov_key) (winner_key winner)") simp_all
  note run = run [unfolded e option.case bindO_Some_iff]
  obtain parts where p: "get_guus_block_reward ops mw w coins hf_version \<lparr>rc_height = height, rc_fee = fee,
       rc_batched_governance = ctx_batched_governance ctx, rc_frame_pix_payouts = payouts winner\<rparr> = Inr (Some parts)"
    using run by blast
  obtain key where k: "get_deterministic_output_key (rw_crypto ops) adr (snd txkey) 0 = Some key"
    using run p by (cases "get_deterministic_output_key (rw_crypto ops) adr (snd txkey) 0") simp_all
  obtain nodes where o: "frame_pix_outputs (rw_crypto ops) (snd gov_key) (frame_pix_total parts) 0 (payouts winner) = Some nodes"
    using run p k assms(2) by (cases "frame_pix_outputs (rw_crypto ops) (snd gov_key) (frame_pix_total parts) 0 (payouts winner)") simp_all
  let ?m = "\<lparr>out_amount = miner_reward parts, out_target = txout_to_key key\<rparr>"
  have "\<exists>gov. governance_outputs ops coins hf_version (ctx_nettype ctx) (snd gov_key) (governance_paid parts) (1 + length nodes) = Inr (Some gov)
    \<and> \<not> fold (\<lambda>out s. s + out_amount out) (?m # nodes @ gov) 0 \<noteq> miner_reward parts + governance_paid parts + frame_pix_paid parts
    \<and> tx = tx0\<lparr>tx_type := TXTYPE_STANDARD, tx_version := get_max_version_for_hf hf_version,
         vin := [txin_gen height], vout := ?m # nodes @ gov, extra := e,
         output_unlock_times := map (\<lambda>_. height + CRYPTONOTE_MINED_MONEY_UNLOCK_WINDOW) (?m # nodes @ gov),
         unlock_time := height + CRYPTONOTE_MINED_MONEY_UNLOCK_WINDOW\<rparr>"
    using run p k o assms(2) by (auto simp: bindO_Some_iff split: if_splits)
  then show thesis using that [OF _ p o] e by auto
qed

definition miner_share :: "u64 \<Rightarrow> u64 \<Rightarrow> u64" where
  "miner_share base paid = (if base > FOUNDATION_REWARD_HF15 + paid then base - (FOUNDATION_REWARD_HF15 + paid) else 0)"

definition parts_hf15 :: "u64 \<Rightarrow> guus_block_reward_context \<Rightarrow> block_reward_parts" where
  "parts_hf15 base ctx =
     (let paid = calculate_sum_of_portions (rc_frame_pix_payouts ctx) SN_REWARD_HF15
      in \<lparr>frame_pix_total = SN_REWARD_HF15, frame_pix_paid = paid, governance_due = FOUNDATION_REWARD_HF15,
          governance_paid = rc_batched_governance ctx, base_miner = miner_share base paid, base_miner_fee = rc_fee ctx,
          original_base_reward = BLOCK_REWARD_HF15\<rparr>)"

lemma guus_block_reward_of_base:
  assumes "get_base_block_reward ops mw w coins hf_version (rc_height ctx) = Inr (Some (base, Some BLOCK_REWARD_HF15))"
    "base \<noteq> 0" "hf_version \<ge> 15"
  shows "get_guus_block_reward ops mw w coins hf_version ctx = Inr (Some (parts_hf15 base ctx))"
proof -
  have "hf_version \<ge> 13" "hf_version \<ge> 10" using assms(3) by (simp_all add: word_le_nat_alt)
  then show ?thesis using assms
    by (simp add: get_guus_block_reward_def bindO_def parts_hf15_def miner_share_def Let_def
        frame_pix_reward_formula_def governance_reward_formula_def)
qed

lemma guus_block_reward_hf15:
  assumes "get_guus_block_reward ops mw w coins hf_version ctx = Inr (Some parts)" "hf_version \<ge> 15" "coins \<noteq> 0"
  obtains base where "get_base_block_reward ops mw w coins hf_version (rc_height ctx) = Inr (Some (base, Some BLOCK_REWARD_HF15))"
    "base \<noteq> 0" "unat base \<le> 500000000000" "parts = parts_hf15 base ctx"
proof -
  have u: "snd y = Some BLOCK_REWARD_HF15 \<and> fst y \<le> BLOCK_REWARD_HF15"
    if "get_base_block_reward ops mw w coins hf_version h = Inr (Some y)" for y h
    using that assms(2,3)
    by (auto simp: get_base_block_reward_def base_reward_of_def Let_def split: if_splits prod.splits)
  obtain y where y: "get_base_block_reward ops mw w coins hf_version (rc_height ctx) = Inr (Some y)"
    using assms(1) by (auto simp: get_guus_block_reward_def bindO_Some_iff)
  obtain b where b: "y = (b, Some BLOCK_REWARD_HF15)" "b \<le> BLOCK_REWARD_HF15" using u [OF y] by (cases y) auto
  have nz: "b \<noteq> 0" using assms(1) y b(1) by (auto simp: get_guus_block_reward_def bindO_def)
  show thesis
  proof (rule that)
    show "get_base_block_reward ops mw w coins hf_version (rc_height ctx) = Inr (Some (b, Some BLOCK_REWARD_HF15))" using y b by simp
    from guus_block_reward_of_base [OF this nz assms(2)] assms(1) show "parts = parts_hf15 b ctx" by simp
  qed (use nz b(2) in \<open>simp_all add: word_le_nat_alt\<close>)
qed

lemma frame_pix_outputs_amounts:
  "frame_pix_outputs cr sec t i ps = Some outs \<Longrightarrow> map out_amount outs = map (\<lambda>p. portions_to_amount (payout_portions p) t) ps"
  by (induction ps arbitrary: i outs) (auto simp: bind_eq_Some_conv get_portion_eq)

lemma unat_add3:
  "unat a + unat b + unat c < 18446744073709551616 \<Longrightarrow> unat (a + b + c :: u64) = unat a + unat b + unat c"
  by (simp add: unat_add_u64)

lemma unat_miner_share:
  assumes "unat paid \<le> 330000000000"
  shows "unat (miner_share base paid) = unat base - (50000000000 + unat paid)"
proof -
  have s: "unat (FOUNDATION_REWARD_HF15 + paid) = 50000000000 + unat paid" using assms by (subst unat_add_u64_no_wrap) simp_all
  then show ?thesis
    by (cases "base > FOUNDATION_REWARD_HF15 + paid") (simp_all add: miner_share_def word_less_nat_alt unat_sub_u64_no_wrap word_le_nat_alt)
qed

lemma miner_amounts:
  assumes "unat base \<le> 500000000000" "unat paid \<le> 330000000000" "unat g \<le> 252000000000000" "unat fee < 2 ^ 63"
  defines "money \<equiv> miner_share base paid + fee + g + paid"
  shows "unat money = unat (miner_share base paid) + unat fee + unat g + unat paid"
    "unat money \<le> unat fee + unat g + 500000000000"
    "money \<le> miner_share base SN_REWARD_HF15 + g + SN_REWARD_HF15 + 1 + fee"
proof -
  let ?c = "miner_share base paid" and ?v = "miner_share base SN_REWARD_HF15"
  have c: "unat ?c = unat base - (50000000000 + unat paid)" by (rule unat_miner_share [OF assms(2)])
  have v: "unat ?v = unat base - 380000000000" using unat_miner_share [of SN_REWARD_HF15 base] by simp
  have f: "unat fee < 9223372036854775808" using assms(4) by simp
  have a: "unat (?c + fee + g) = unat ?c + unat fee + unat g" using c f assms(1-3) by (intro unat_add3) simp
  show m: "unat money = unat ?c + unat fee + unat g + unat paid"
    unfolding money_def using c f assms(1-3) by (subst unat_add_u64_no_wrap) (simp_all add: a)
  show "unat money \<le> unat fee + unat g + 500000000000" using m c assms(1,2) by simp
  have b: "unat (?v + g + SN_REWARD_HF15) = unat ?v + unat g + 330000000000" using v assms(1,3) by (subst unat_add3) simp_all
  have "unat (?v + g + SN_REWARD_HF15 + 1 + fee) = unat ?v + unat g + 330000000000 + 1 + unat fee"
    using v f assms(1,3) unat_add3 [of "?v + g + SN_REWARD_HF15" 1 fee] by (simp add: b)
  then show "money \<le> ?v + g + SN_REWARD_HF15 + 1 + fee"
    using m c v assms(1,2) unfolding word_le_nat_alt by simp
qed

text \<open>The service node list accepts the outputs that the constructor made for its winner.\<close>

lemma validate_constructed:
  assumes "miner_tx_extra tx_pub n coins gov_pub (winner_key (get_block_winner (m_state l))) = Some (extra tx)" "length n \<le> 127"
    "frame_pix_outputs (rw_crypto ops) (snd (get_deterministic_keypair_from_height ops height)) SN_REWARD_HF15 0
       (payouts (get_block_winner (m_state l))) = Some nodes"
    "vout tx = miner # nodes @ gov" "length gov \<le> 1" "length (payouts (get_block_winner (m_state l))) < 2 ^ 32" "hf_version \<ge> 15"
  shows "validate_miner_tx ops l tx height hf_version parts = Inr True"
proof -
  let ?ps = "payouts (get_block_winner (m_state l))"
  have v: "\<not> hf_version < 9" using assms(7) by (simp add: word_le_nat_alt word_less_nat_alt)
  have len: "length nodes = length ?ps" by (rule frame_pix_outputs_length [OF assms(3)])
  then have l: "of_nat (length (vout tx)) - 1 = (of_nat (length ?ps + length gov) :: u64)" using assms(4) by simp
  have "\<not> (of_nat (length ?ps + length gov) :: u64) < of_nat (length ?ps)"
    using assms(5,6) by (simp add: word_less_nat_alt unat_of_nat del: of_nat_add)
  moreover have "payouts_match ops height SN_REWARD_HF15 ([miner] @ nodes @ gov) 0 ?ps = Inr True"
    by (rule frame_pix_outputs_match [OF assms(3)]) simp
  ultimately show ?thesis
    using assms(4,7) v miner_tx_extra_winner [OF assms(1,2)]
    by (simp add: validate_miner_tx_def Let_def l len frame_pix_reward_formula_def del: of_nat_add)
qed

lemma validate_miner_transaction_ok:
  assumes "miner_tx b = tx" "vout tx \<noteq> []" "calc_batched_governance_reward ops (get_block_height b) = Inr (Some g)"
    "get_guus_block_reward ops (median (get_last_n_blocks_weights ops CRYPTONOTE_REWARD_BLOCKS_WINDOW)) w coins hf_version
       \<lparr>rc_height = get_block_height b, rc_fee = fee, rc_batched_governance = g, rc_frame_pix_payouts = payouts null_block_winner\<rparr> =
     Inr (Some parts)"
    "validate_miner_tx ops l tx (db_height ops) hf_version parts = Inr True"
    "block_has_governance_output (bc_nettype ops) b = Inr has" "has \<longrightarrow> governance_output_valid ops (vout tx) hf_version parts = Inr True"
    "tx_type tx = TXTYPE_STANDARD" "tx_version tx = get_max_version_for_hf hf_version"
    "get_max_version_for_hf hf_version = get_min_version_for_hf hf_version"
    "fold (\<lambda>out s. s + out_amount out) (vout tx) 0 = money"
    "money \<le> base_miner parts + governance_paid parts + frame_pix_paid parts + 1 + fee" "fee \<le> money"
  shows "validate_miner_transaction ops l b w fee coins hf_version = Inr (Some (money - fee))"
proof -
  have lim: "\<not> base_miner parts + governance_paid parts + frame_pix_paid parts + 1 + fee < money"
    using assms(12) by (simp only: not_less)
  show ?thesis
    unfolding validate_miner_transaction_def Let_def assms(1) assms(11)
    using assms(2-10,13) lim by (cases has) (simp_all add: bindO_def)
qed

lemma constructed_sum:
  assumes "frame_pix_outputs cr sec t i ps = Some nodes" "governance_outputs ops coins hf_version net sec g k = Inr (Some gov)" "coins \<noteq> 0"
    "unat paid = (\<Sum>p\<leftarrow>ps. unat (portions_to_amount (payout_portions p) t))"
    "unat (m + fee + g + paid) = unat m + unat fee + unat g + unat paid"
  shows "unat (m + fee) + (\<Sum>out\<leftarrow>nodes @ gov. unat (out_amount out)) = unat (m + fee + g + paid)"
proof -
  have "(\<Sum>out\<leftarrow>nodes. unat (out_amount out)) = sum_list (map unat (map out_amount nodes))" by (simp add: o_def)
  then have "(\<Sum>out\<leftarrow>nodes. unat (out_amount out)) = unat paid"
    unfolding frame_pix_outputs_amounts [OF assms(1)] by (simp add: assms(4) o_def)
  moreover have "unat (m + fee) = unat m + unat fee"
    using assms(5) unat_lt_u64 [of "m + fee + g + paid"] by (subst unat_add_u64_no_wrap) simp_all
  ultimately show ?thesis using governance_outputs_amount [OF assms(2,3)] assms(5) by simp
qed

text \<open>
  The parts of the reward as the constructor and as the checks compute them: the latter do not know the
  payouts and count the full reward of the service node.
\<close>

lemma reward_both_sides:
  fixes height fee g :: u64
  defines "ctx \<equiv> \<lambda>ps. \<lparr>rc_height = height, rc_fee = fee, rc_batched_governance = g, rc_frame_pix_payouts = ps\<rparr>"
  assumes "get_guus_block_reward ops mw w coins hf_version (ctx (payouts (get_block_winner s))) = Inr (Some parts)"
    "hf_version \<ge> 15" "coins \<noteq> 0" "infos_ok (frame_pixs_infos s)" "unat g \<le> 252000000000000" "unat fee < 2 ^ 63"
  obtains base paid vparts where
    "get_guus_block_reward ops mw w coins hf_version (ctx (payouts null_block_winner)) = Inr (Some vparts)"
    "frame_pix_total parts = SN_REWARD_HF15" "governance_paid parts = g" "frame_pix_paid parts = paid"
    "miner_reward parts = miner_share base paid + fee" "governance_paid vparts = g"
    "unat paid = (\<Sum>p\<leftarrow>payouts (get_block_winner s). unat (portions_to_amount (payout_portions p) SN_REWARD_HF15))"
    "unat (miner_share base paid + fee + g + paid) = unat (miner_share base paid) + unat fee + unat g + unat paid"
    "unat (miner_share base paid + fee + g + paid) \<le> unat fee + unat g + 500000000000"
    "miner_share base paid + fee + g + paid \<le> base_miner vparts + governance_paid vparts + frame_pix_paid vparts + 1 + fee"
proof -
  obtain base where base: "get_base_block_reward ops mw w coins hf_version height = Inr (Some (base, Some BLOCK_REWARD_HF15))"
    "base \<noteq> 0" "unat base \<le> 500000000000" "parts = parts_hf15 base (ctx (payouts (get_block_winner s)))"
    using guus_block_reward_hf15 [OF assms(2-4)] by (metis guus_block_reward_context.select_convs(1) ctx_def)
  let ?paid = "calculate_sum_of_portions (payouts (get_block_winner s)) SN_REWARD_HF15"
  have paid: "unat ?paid = (\<Sum>p\<leftarrow>payouts (get_block_winner s). unat (portions_to_amount (payout_portions p) SN_REWARD_HF15))"
    "unat ?paid \<le> 330000000000"
    using sum_of_portions_eq [OF winner_portions [OF assms(5)], of SN_REWARD_HF15] by simp_all
  have v: "base_miner (parts_hf15 base (ctx (payouts null_block_winner))) = miner_share base SN_REWARD_HF15"
    "governance_paid (parts_hf15 base (ctx (payouts null_block_winner))) = g"
    "frame_pix_paid (parts_hf15 base (ctx (payouts null_block_winner))) = SN_REWARD_HF15"
    by (simp_all add: parts_hf15_def null_winner_portions ctx_def Let_def)
  show thesis
  proof (rule that)
    show "get_guus_block_reward ops mw w coins hf_version (ctx (payouts null_block_winner)) =
        Inr (Some (parts_hf15 base (ctx (payouts null_block_winner))))"
      by (rule guus_block_reward_of_base) (simp_all add: base(1,2) assms(3) ctx_def)
    show "miner_share base ?paid + fee + g + ?paid \<le> base_miner (parts_hf15 base (ctx (payouts null_block_winner)))
        + governance_paid (parts_hf15 base (ctx (payouts null_block_winner))) + frame_pix_paid (parts_hf15 base (ctx (payouts null_block_winner))) + 1 + fee"
      unfolding v by (rule miner_amounts(3) [OF base(3) paid(2) assms(6,7)])
    show "unat (miner_share base ?paid + fee + g + ?paid) = unat (miner_share base ?paid) + unat fee + unat g + unat ?paid"
      "unat (miner_share base ?paid + fee + g + ?paid) \<le> unat fee + unat g + 500000000000"
      by (rule miner_amounts(1,2) [OF base(3) paid(2) assms(6,7)])+
  qed (simp_all add: base(4) parts_hf15_def miner_reward_def ctx_def Let_def paid(1))
qed

text \<open>
  C8. A miner transaction that the node constructs passes the checks of a node with the same chain and the
  same service node list, from hard fork 15 on: the winner named in its extra field, the amount and key of
  every payout, the governance output at the heights that have one, its type and version, and the limit on the
  sum. The outputs do not overflow, and without the fees they pay at most the block reward and the batched
  governance reward.
\<close>

theorem constructed_miner_tx_accepted:
  assumes "construct_miner_tx ops txkey height (median (get_last_n_blocks_weights ops CRYPTONOTE_REWARD_BLOCKS_WINDOW)) coins w fee adr tx0 n
      hf_version \<lparr>ctx_nettype = bc_nettype ops, ctx_block_winner = get_block_winner (m_state l), ctx_batched_governance = g\<rparr> = Inr (Some tx)"
    "calc_batched_governance_reward ops height = Inr (Some g)"
    "hf_version \<ge> 15" "get_ideal_hard_fork_version ops height = hf_version" "db_height ops = height"
    "miner_tx b = tx" "major_version b = hf_version" "coins \<noteq> 0" "length n \<le> 127" "unat fee < 2 ^ 63"
    "infos_ok (frame_pixs_infos (m_state l))" "length (payouts (get_block_winner (m_state l))) < 2 ^ 32"
  shows "prevalidate_miner_transaction b height
    \<and> (\<exists>reward. validate_miner_transaction ops l b w fee coins hf_version = Inr (Some reward)
         \<and> (\<Sum>out\<leftarrow>vout tx. unat (out_amount out)) = unat reward + unat fee
         \<and> unat reward \<le> unat BLOCK_REWARD_HF15 + unat g)"
proof -
  let ?win = "get_block_winner (m_state l)" and ?mw = "median (get_last_n_blocks_weights ops CRYPTONOTE_REWARD_BLOCKS_WINDOW)"
  let ?gov = "get_deterministic_keypair_from_height ops height"
  have v: "9 \<le> hf_version" "12 \<le> hf_version" "\<not> hf_version < 9" "\<not> hf_version \<le> 10" "\<not> hf_version \<le> 8"
    using assms(3) by (simp_all add: word_le_nat_alt word_less_nat_alt)
  obtain parts key nodes gov where
    e: "miner_tx_extra (fst txkey) n coins (fst ?gov) (winner_key ?win) = Some (extra tx)"
    and p: "get_guus_block_reward ops ?mw w coins hf_version \<lparr>rc_height = height, rc_fee = fee,
       rc_batched_governance = g, rc_frame_pix_payouts = payouts ?win\<rparr> = Inr (Some parts)"
    and o: "frame_pix_outputs (rw_crypto ops) (snd ?gov) (frame_pix_total parts) 0 (payouts ?win) = Some nodes"
    and gv: "governance_outputs ops coins hf_version (bc_nettype ops) (snd ?gov) (governance_paid parts) (1 + length nodes) = Inr (Some gov)"
    and vo: "vout tx = \<lparr>out_amount = miner_reward parts, out_target = txout_to_key key\<rparr> # nodes @ gov"
    and sm: "fold (\<lambda>out s. s + out_amount out) (vout tx) 0 = miner_reward parts + governance_paid parts + frame_pix_paid parts"
    and fixed: "vin tx = [txin_gen height]" "tx_type tx = TXTYPE_STANDARD" "tx_version tx = get_max_version_for_hf hf_version"
      "unlock_time tx = height + CRYPTONOTE_MINED_MONEY_UNLOCK_WINDOW"
    by (rule construct_miner_tx_parts [OF assms(1) v(1), unfolded guus_miner_tx_context.select_convs])
  note gov = batched_governance [OF assms(2), unfolded assms(4), OF assms(3)]
  obtain base paid vparts where
    vp: "get_guus_block_reward ops ?mw w coins hf_version \<lparr>rc_height = height, rc_fee = fee, rc_batched_governance = g,
       rc_frame_pix_payouts = payouts null_block_winner\<rparr> = Inr (Some vparts)"
    and parts: "frame_pix_total parts = SN_REWARD_HF15" "governance_paid parts = g" "frame_pix_paid parts = paid"
      "miner_reward parts = miner_share base paid + fee" "governance_paid vparts = g"
      "unat paid = (\<Sum>p\<leftarrow>payouts ?win. unat (portions_to_amount (payout_portions p) SN_REWARD_HF15))"
    and am: "unat (miner_share base paid + fee + g + paid) = unat (miner_share base paid) + unat fee + unat g + unat paid"
      "unat (miner_share base paid + fee + g + paid) \<le> unat fee + unat g + 500000000000"
      "miner_share base paid + fee + g + paid \<le> base_miner vparts + governance_paid vparts + frame_pix_paid vparts + 1 + fee"
    by (rule reward_both_sides [OF p assms(3,8,11) gov(2) assms(10)])
  let ?money = "miner_share base paid + fee + g + paid"
  have money: "fold (\<lambda>out s. s + out_amount out) (vout tx) 0 = ?money" using sm by (simp add: parts)
  have gsum: "length gov \<le> 1" using governance_outputs_amount [OF gv assms(8)] by simp
  have sum: "(\<Sum>out\<leftarrow>vout tx. unat (out_amount out)) = unat ?money"
    using constructed_sum [OF o gv assms(8) parts(6) [folded parts(1)] am(1) [folded parts(2)]] by (simp add: vo parts)
  have height: "get_block_height b = height" using assms(6) fixed(1) by (simp add: get_block_height_def)
  have pre: "prevalidate_miner_transaction b height"
    using assms(6) fixed(1,4) sum unat_lt_u64 [of ?money]
    by (simp add: prevalidate_miner_transaction_def check_outs_overflow_def outs_overflow_loop_iff)
  have hook: "validate_miner_tx ops l tx height hf_version vparts = Inr True"
    by (rule validate_constructed [OF e assms(9) o [unfolded parts(1)] vo gsum assms(12,3)])
  have has: "block_has_governance_output (bc_nettype ops) b = Inr (g \<noteq> 0)"
    using gov(1) by (simp add: block_has_governance_output_def assms(7) height)
  have gok: "governance_output_valid ops (vout tx) hf_version vparts = Inr True" if "g \<noteq> 0"
    using governance_outputs_valid [of ops coins hf_version g "\<lparr>out_amount = miner_reward parts, out_target = txout_to_key key\<rparr> # nodes" gov vparts]
      gv assms(5,8) that parts(5) by (simp add: vo parts(2))
  have ver: "get_max_version_for_hf hf_version = 4" "get_min_version_for_hf hf_version = 4"
    using v by (simp_all add: get_max_version_for_hf_def get_min_version_for_hf_def)
  have fee: "fee \<le> ?money" using am(1) by (simp add: word_le_nat_alt)
  have "validate_miner_transaction ops l b w fee coins hf_version = Inr (Some (?money - fee))"
  proof (rule validate_miner_transaction_ok)
    show "calc_batched_governance_reward ops (get_block_height b) = Inr (Some g)" using assms(2) by (simp add: height)
    show "get_guus_block_reward ops ?mw w coins hf_version
        \<lparr>rc_height = get_block_height b, rc_fee = fee, rc_batched_governance = g, rc_frame_pix_payouts = payouts null_block_winner\<rparr> =
      Inr (Some vparts)" using vp by (simp add: height)
    show "?money \<le> base_miner vparts + governance_paid vparts + frame_pix_paid vparts + 1 + fee" by (rule am(3))
  qed (use assms(5,6) hook has gok ver fixed(2,3) money fee vo in auto)
  moreover have "unat (?money - fee) = unat ?money - unat fee" by (rule unat_sub_u64_no_wrap [OF fee])
  ultimately show ?thesis using pre sum am(1,2) by auto
qed


definition sample_blockchain_ops :: blockchain_ops where
  "sample_blockchain_ops = \<lparr>rw_crypto = open_crypto 0, generate_keys = (\<lambda>sec. (sec, sec)), block_reward_unpenalized_formula_v8 = (\<lambda>_. 0),
     bc_nettype = FAKECHAIN, db_height = 7, get_block_weights = (\<lambda>_ _. []), get_ideal_hard_fork_version = (\<lambda>_. 16),
     get_blocks = (\<lambda>_ _. None)\<rparr>"

lemma sample_miner_tx:
  "\<exists>tx. construct_miner_tx sample_blockchain_ops (5, 6) 7 (median (get_last_n_blocks_weights sample_blockchain_ops 100)) 1 1000 3 null_address
     (staking_tx []) [] 16 \<lparr>ctx_nettype = FAKECHAIN, ctx_block_winner = get_block_winner initial_state, ctx_batched_governance = 0\<rparr> = Inr (Some tx)"
proof -
  have w: "get_block_winner initial_state = null_block_winner" by (simp add: get_block_winner_def initial_state_def)
  have "sort_tx_extra (save_fields [tx_extra_pub_key 5]) False = Some (save_fields [tx_extra_pub_key 5])"
    using sort_saves [of "[tx_extra_pub_key 5]"] by (simp add: extra_ok_def del: save_fields.simps)
  then have "\<exists>e. miner_tx_extra 5 [] 1 k null_pod = Some e" for k
    using pub_key_saves [of "[]" 5, unfolded save_fields.simps(1)] by (simp add: miner_tx_extra_def Let_def del: save_fields.simps)
  then obtain e where e: "miner_tx_extra 5 [] 1 (fst (get_deterministic_keypair_from_height sample_blockchain_ops 7)) null_pod = Some e" by blast
  let ?ctx = "\<lparr>rc_height = 7, rc_fee = 3, rc_batched_governance = 0, rc_frame_pix_payouts = payouts null_block_winner\<rparr>"
  have base: "get_base_block_reward sample_blockchain_ops 0 1000 1 16 7 = Inr (Some (BLOCK_REWARD_HF15, Some BLOCK_REWARD_HF15))"
    by (simp add: get_base_block_reward_def base_reward_of_def soft_median_def get_min_block_weight_def Let_def)
  have m: "median (get_last_n_blocks_weights sample_blockchain_ops 100) = 0"
    by (simp add: median_def get_last_n_blocks_weights_def sample_blockchain_ops_def)
  have r: "get_guus_block_reward sample_blockchain_ops 0 1000 1 16 ?ctx = Inr (Some (parts_hf15 BLOCK_REWARD_HF15 ?ctx))"
    by (rule guus_block_reward_of_base) (simp_all add: base)
  have paid: "calculate_sum_of_portions (payouts null_block_winner) SN_REWARD_HF15 = SN_REWARD_HF15" by (rule null_winner_portions) simp
  have portion: "get_portion_of_reward STAKING_PORTIONS SN_REWARD_HF15 = SN_REWARD_HF15"
    unfolding get_portion_eq by (rule portions_to_amount_full) simp
  have k: "winner_key null_block_winner = null_pod" "rw_crypto sample_blockchain_ops = open_crypto 0"
    by (simp_all add: null_block_winner_def sample_blockchain_ops_def)
  have key: "get_deterministic_output_key (open_crypto 0) a sec i = Some (m_spend_public_key a + of_nat i)" for a sec i
    by (simp add: get_deterministic_output_key_def open_crypto_def)
  have nodes: "frame_pix_outputs (open_crypto 0) sec SN_REWARD_HF15 0 (payouts null_block_winner) =
      Some [\<lparr>out_amount = SN_REWARD_HF15, out_target = txout_to_key (m_spend_public_key null_address + 1)\<rparr>]" for sec
    by (simp add: null_block_winner_def open_crypto_def portion [simplified])
  show ?thesis
    by (simp add: construct_miner_tx_def w m e k r key nodes [simplified] bindO_def Let_def governance_outputs_def parts_hf15_def
        paid [simplified] miner_reward_def)
qed

theorem constructed_miner_tx_accepted_witness:
  "\<exists>tx. construct_miner_tx sample_blockchain_ops (5, 6) 7 (median (get_last_n_blocks_weights sample_blockchain_ops 100)) 1 1000 3 null_address
     (staking_tx []) [] 16 \<lparr>ctx_nettype = FAKECHAIN, ctx_block_winner = get_block_winner initial_state, ctx_batched_governance = 0\<rparr> = Inr (Some tx)
   \<and> prevalidate_miner_transaction ((sample_block 7)\<lparr>miner_tx := tx, major_version := 16\<rparr>) 7
   \<and> (\<exists>reward. validate_miner_transaction sample_blockchain_ops (sample_list initial_state)
         ((sample_block 7)\<lparr>miner_tx := tx, major_version := 16\<rparr>) 1000 3 1 16 = Inr (Some reward))"
proof -
  obtain tx where tx: "construct_miner_tx sample_blockchain_ops (5, 6) 7 (median (get_last_n_blocks_weights sample_blockchain_ops 100)) 1 1000 3
     null_address (staking_tx []) [] 16 \<lparr>ctx_nettype = FAKECHAIN, ctx_block_winner = get_block_winner initial_state,
       ctx_batched_governance = 0\<rparr> = Inr (Some tx)" using sample_miner_tx by blast
  have g: "calc_batched_governance_reward sample_blockchain_ops 7 = Inr (Some 0)"
    by (simp add: calc_batched_governance_reward_def height_has_governance_output_def get_governance_config_def liftC_def
        sample_blockchain_ops_def Let_def)
  have ok: "infos_ok (frame_pixs_infos initial_state)" "length (payouts (get_block_winner initial_state)) < 2 ^ 32"
    by (simp_all add: infos_ok_def initial_state_def get_block_winner_def null_block_winner_def)
  let ?b = "(sample_block 7)\<lparr>miner_tx := tx, major_version := 16\<rparr>"
  have "prevalidate_miner_transaction ?b 7
    \<and> (\<exists>reward. validate_miner_transaction sample_blockchain_ops (sample_list initial_state) ?b 1000 3 1 16 = Inr (Some reward)
         \<and> (\<Sum>out\<leftarrow>vout tx. unat (out_amount out)) = unat reward + unat (3 :: u64)
         \<and> unat reward \<le> unat BLOCK_REWARD_HF15 + unat (0 :: u64))"
    by (rule constructed_miner_tx_accepted [of _ "(5, 6)" _ _ _ _ null_address "staking_tx []" "[]"])
      (use tx g ok in \<open>simp_all add: sample_blockchain_ops_def sample_list_def\<close>)
  then show ?thesis using tx by blast
qed

end
