(* ===== verification/Spec2Isabelle.thy ===== *)
theory Spec2Isabelle
  imports Framepix_Rules Framepix_Swarm Vote_Pool Framepix_Uptime Framepix_Restart Account_Address Block_Reward
begin

text \<open>
  A verification library for the consensus core of guus-core, a CryptoNote daemon whose service nodes
  (\<^emph>\<open>frame pixes\<close>) are staked on chain, tested by quorums, paid by the blocks they win and organised in swarms.
  Paths below are relative to \<^verbatim>\<open>src/src\<close>.

  \<^bold>\<open>The program and its theories.\<close> A node registers with a staking transaction, its contributors fill the
  requirement, quorums of other nodes test it and vote on it, and every block moves the state of the list on. The
  theories follow the calls from the bottom up.

  \<^item> \<^verbatim>\<open>Guus_Prelude\<close>: the machine types (\<^typ>\<open>64 word\<close> for \<^verbatim>\<open>uint64_t\<close> and so on), networks, and the word and list
    lemmas that all theories share.
  \<^item> \<^verbatim>\<open>Int_Util\<close>: the 128-bit product and divisions of \<^verbatim>\<open>contrib/epee/include/int-util.h\<close>, proved exact.
  \<^item> \<^verbatim>\<open>Bytes\<close>, \<^verbatim>\<open>Varint\<close>, \<^verbatim>\<open>Binary_Archive\<close>: little-endian integers, the variable-length integers of \<^verbatim>\<open>common/varint.h\<close>
    and the archive of \<^verbatim>\<open>serialization/\<close>. A serializer is a pair of a writer and a reader; the locales
    \<^verbatim>\<open>codec\<close> and \<^verbatim>\<open>codec_pos\<close> state their contract and are interpreted for every serialized type.
  \<^item> \<^verbatim>\<open>Framepix_Rules\<close>: \<^verbatim>\<open>cryptonote_core/frame_pix_rules.cpp\<close> and its header: staking requirement, portions, the smallest
    contribution and the constants of the quorums.
  \<^item> \<^verbatim>\<open>Random_Portable\<close>, \<^verbatim>\<open>Framepix_Swarm\<close>: \<^verbatim>\<open>common/random.h\<close> and \<^verbatim>\<open>cryptonote_core/frame_pix_swarm.cpp\<close>.
  \<^item> \<^verbatim>\<open>Framepix_Voting\<close>, \<^verbatim>\<open>Vote_Pool\<close>: \<^verbatim>\<open>cryptonote_core/frame_pix_voting.cpp\<close>: votes, the checks of state changes
    and checkpoints, and the pool of votes as a state machine that refines a map.
  \<^item> \<^verbatim>\<open>Tx_Extra\<close>, \<^verbatim>\<open>Format_Utils\<close>, \<^verbatim>\<open>Cryptonote_Basic\<close>: the extra field of transactions, the functions of
    \<^verbatim>\<open>cryptonote_basic/cryptonote_format_utils.cpp\<close> that add, get, sort and remove its fields, transactions and blocks.
  \<^item> \<^verbatim>\<open>Framepix_Info\<close>, \<^verbatim>\<open>Framepix_State\<close>, \<^verbatim>\<open>Framepix_Quorums\<close>: \<^verbatim>\<open>cryptonote_core/frame_pix_list.cpp\<close>, the record of a node,
    the state at one height (\<^verbatim>\<open>state_t\<close>), its update by a block, and the quorums it generates.
  \<^item> \<^verbatim>\<open>Framepix_Store\<close>, \<^verbatim>\<open>Framepix_List\<close>, \<^verbatim>\<open>Framepix_History\<close>, \<^verbatim>\<open>Framepix_Uptime\<close>, \<^verbatim>\<open>Framepix_Restart\<close>: the rest of that file:
    the stored form of states, the list with its recent and archived states, what attaching, detaching
    and a restart do to it, and uptime proofs.
  \<^item> \<^verbatim>\<open>Base58\<close>, \<^verbatim>\<open>Account_Address\<close>: \<^verbatim>\<open>common/base58.cpp\<close> and the address strings of
    \<^verbatim>\<open>cryptonote_basic/cryptonote_basic_impl.cpp\<close>.
  \<^item> \<^verbatim>\<open>Block_Reward\<close>: the base reward (\<^verbatim>\<open>cryptonote_basic_impl.cpp\<close>), its parts and the miner transaction
    (\<^verbatim>\<open>cryptonote_core/cryptonote_tx_utils.cpp\<close>) and the checks of \<^verbatim>\<open>blockchain.cpp\<close> and the service node list on it.

  \<^bold>\<open>How state and operations correspond.\<close> A struct is a record with the names of its fields, prefixed where two
  structs share one; an enumeration or variant is a datatype; a function with reference arguments returns
  their new values. A returned false with an unused result is \<^term>\<open>None\<close>; an exception, a failed assertion and an
  access out of range are values of an error type on the left of a sum, so a theorem that a function
  returns also says that none of them happens. (The model is a build with assertions on; where the code asserts a
  condition and then handles its failure, the model takes the handling.) A hash table is an association list with
  distinct keys, a state set a list ascending by height. Arithmetic stays at its width and wraps.

  \<^bold>\<open>Parameters.\<close> Elliptic curve operations, hashing, RingCT decoding, the database, the clock, the version of the network
  at a height and the random engine are arguments, collected in the records \<^verbatim>\<open>crypto_ops\<close>, \<^verbatim>\<open>tx_crypto\<close>,
  \<^verbatim>\<open>chain_ops\<close>, \<^verbatim>\<open>list_ops\<close> and \<^verbatim>\<open>blockchain_ops\<close>. Theorems assume of them at most that the
  random engine is live (\<^verbatim>\<open>rng_live\<close>: every run of draws meets a value below the cut), that a sort sorts, and that
  signing and checking fit together; each assumption has a concrete instance in a witness.

  \<^bold>\<open>What the theorems show.\<close>
  \<^item> Staking: an accepted registration starts a record in order, contributions keep its totals within the requirement,
    and a whole block keeps every record in order whatever it holds.
  \<^item> Quorums and votes: quorums are generated at their heights, with the prescribed number of distinct seats; the checks of state changes and checkpoints accept
    exactly those with enough distinct, valid signatures; a node changes state only by such a vote.
  \<^item> Rewards: the winner is the node that waited longest, its payouts share at most one reward, a
    miner transaction the node makes passes the checks, and the penalty for large blocks is exact.
  \<^item> History: detaching blocks undoes them, quorums stay available for the time votes live, a restart restores the
    stored state, its quorums and the archive, and an uptime proof is accepted under its conditions only.
  \<^item> Swarms: reassignment keeps every node in exactly one swarm and leaves no swarm starving while there are several,
    unless there are fewer than five nodes for two swarms or a single swarm of fourteen nodes has the middle id.
  \<^item> Formats: varints, the extra field, transaction prefixes, base 58 and addresses can be read back, and the base 58
    codec returns on every input.
  \<^item> Errors: inputs on which the code loses data, throws or reads out of range are stated as theorems as well.

  \<^bold>\<open>Bounds and fuel.\<close> The loops of the swarm assignment carry fuel (one unit per node that can move, per swarm that can be
  dissolved), as does the rejection loop of the random choice; running out is the error \<^verbatim>\<open>Diverges\<close>, and the theorems
  that a result is reached show that it does not occur. All other loops are structural or have a termination proof.

  \<^bold>\<open>Not modelled.\<close> The block chain database (LMDB), the transaction pool, networking (\<^verbatim>\<open>p2p\<close>,
  \<^verbatim>\<open>cryptonote_protocol\<close>, quorumnet), RPC, daemon and wallet are input and output around the consensus rules or depend on
  external libraries. The elliptic curve, RingCT and hash implementations are parameters by design. The reward
  formula of hard fork 8 and \<^verbatim>\<open>get_portions_from_percent\<close> compute in floating point. Locks, log messages and threads are left out: each
  operation is modelled as the atomic step its lock makes it.
\<close>

end
